(* ===== verification/Prelude.thy ===== *)
theory Prelude
  imports Main "HOL-Library.Word" "HOL-Library.AList"
begin

section \<open>Shared vocabulary of the broker model\<close>

text \<open>
  What every component of the model shares: the machine integer types of the Rust sources, byte
  strings, the decimal rendering used by \<^verbatim>\<open>format!\<close>, \<^verbatim>\<open>str::starts_with\<close>, and the
  hash map. A Rust \<^verbatim>\<open>HashMap\<close> is an association list with distinct keys: its list order stands for
  the (unspecified) iteration order of the map, and every theorem of the development is stated for
  an arbitrary list, so for every iteration order. The map interface is the locale \<open>map_iface\<close>.
\<close>

named_theorems session_frame \<open>which fields of a session an operation leaves alone\<close>
named_theorems broker_frame \<open>which parts of the broker an operation leaves alone\<close>

type_synonym u8 = "8 word"
type_synonym u16 = "16 word"
type_synonym u32 = "32 word"
type_synonym u64 = "64 word"
type_synonym bytes = "u8 list"

subsection \<open>Strings\<close>

definition starts_with :: "string \<Rightarrow> string \<Rightarrow> bool" where
  "starts_with s p \<longleftrightarrow> take (length p) s = p"

lemma starts_with_append [simp]: "starts_with (p @ s) p"
  by (simp add: starts_with_def)

lemma starts_with_iff: "starts_with s p \<longleftrightarrow> (\<exists>t. s = p @ t)"
  unfolding starts_with_def by (metis append_eq_conv_conj append_take_drop_id)

text \<open>\<^verbatim>\<open>str::split\<close> on a one-byte separator: always at least one piece.\<close>

fun split_on :: "char \<Rightarrow> string \<Rightarrow> string list" where
  "split_on c [] = [[]]"
| "split_on c (x # xs) =
     (if x = c then [] # split_on c xs
      else (case split_on c xs of [] \<Rightarrow> [[x]] | p # ps \<Rightarrow> (x # p) # ps))"

lemma split_on_nonempty [simp]: "split_on c s \<noteq> []"
  by (induction s) (auto split: list.splits)

lemma split_on_free: "c \<notin> set s \<Longrightarrow> split_on c s = [s]"
  by (induction s) auto

lemma split_on_append: "c \<notin> set s \<Longrightarrow> split_on c (s @ c # t) = s # split_on c t"
  by (induction s) auto

text \<open>The decimal digits of a number, as \<^verbatim>\<open>format!("{n}")\<close> prints them.\<close>

definition digit_char :: "nat \<Rightarrow> char" where
  "digit_char d = char_of (48 + d)"

fun show_nat :: "nat \<Rightarrow> string" where
  "show_nat n = (if n < 10 then [digit_char n] else show_nat (n div 10) @ [digit_char (n mod 10)])"

declare show_nat.simps [simp del]

definition is_digit :: "char \<Rightarrow> bool" where
  "is_digit c \<longleftrightarrow> 48 \<le> (of_char c :: nat) \<and> (of_char c :: nat) \<le> 57"

definition digit_val :: "char \<Rightarrow> nat" where
  "digit_val c = of_char c - 48"

definition nat_of_digits :: "string \<Rightarrow> nat" where
  "nat_of_digits s = foldl (\<lambda>a c. 10 * a + digit_val c) 0 s"

lemma of_digit_char: "d < 10 \<Longrightarrow> (of_char (digit_char d) :: nat) = 48 + d"
  by (simp add: digit_char_def)

lemma digit_val_char [simp]: "d < 10 \<Longrightarrow> digit_val (digit_char d) = d"
  by (simp add: digit_val_def of_digit_char)

lemma is_digit_char [simp]: "d < 10 \<Longrightarrow> is_digit (digit_char d)"
  by (simp add: is_digit_def of_digit_char)

lemma show_nat_nonempty [simp]: "show_nat n \<noteq> []"
  by (subst show_nat.simps) simp

lemma show_nat_digits: "\<forall>c \<in> set (show_nat n). is_digit c"
proof (induction n rule: show_nat.induct)
  case (1 n)
  then show ?case by (cases "n < 10") (auto simp: show_nat.simps [of n])
qed

lemma nat_of_digits_show [simp]: "nat_of_digits (show_nat n) = n"
proof (induction n rule: show_nat.induct)
  case (1 n)
  show ?case
  proof (cases "n < 10")
    case True
    then show ?thesis by (simp add: show_nat.simps [of n] nat_of_digits_def)
  next
    case False
    with 1 have "nat_of_digits (show_nat (n div 10)) = n div 10" by simp
    with False show ?thesis by (simp add: show_nat.simps [of n] nat_of_digits_def)
  qed
qed

lemma show_nat_inject [simp]: "show_nat m = show_nat n \<longleftrightarrow> m = n"
  by (metis nat_of_digits_show)

text \<open>A separator that is not a digit splits two decimal prefixes in one way only.\<close>

lemma digits_sep_inject:
  assumes "show_nat m @ c # xs = show_nat n @ c # ys" and "\<not> is_digit c"
  shows "m = n \<and> xs = ys"
proof -
  have tw: "takeWhile is_digit (show_nat k @ c # zs) = show_nat k" for k zs
    using assms(2) show_nat_digits [of k] by (simp add: takeWhile_append)
  from tw [of m xs] tw [of n ys] assms(1) have "m = n" by simp
  with assms(1) show ?thesis by simp
qed

text \<open>\<^verbatim>\<open>str::split_once\<close> on a one-byte separator.\<close>

definition split_once :: "char \<Rightarrow> string \<Rightarrow> (string \<times> string) option" where
  "split_once c s =
     (if c \<in> set s then Some (takeWhile (\<lambda>x. x \<noteq> c) s, tl (dropWhile (\<lambda>x. x \<noteq> c) s)) else None)"

lemma split_once_append: "c \<notin> set a \<Longrightarrow> split_once c (a @ c # b) = Some (a, b)"
proof -
  assume "c \<notin> set a"
  then have "\<forall>x \<in> set a. x \<noteq> c" by auto
  then show ?thesis
    by (simp add: split_once_def takeWhile_append2 dropWhile_append2)
qed

text \<open>\<^verbatim>\<open>str::parse\<close> for an unsigned integer type with the given largest value: an optional plus sign
  and at least one digit, refused when out of range.\<close>

definition parse_uint :: "nat \<Rightarrow> string \<Rightarrow> nat option" where
  "parse_uint mx s =
     (let ds = (case s of [] \<Rightarrow> [] | c # cs \<Rightarrow> if c = CHR ''+'' then cs else s)
      in if ds = [] \<or> \<not> list_all is_digit ds \<or> mx < nat_of_digits ds then None
         else Some (nat_of_digits ds))"

lemma parse_uint_show: "n \<le> mx \<Longrightarrow> parse_uint mx (show_nat n) = Some n"
proof -
  assume n: "n \<le> mx"
  obtain c cs where s: "show_nat n = c # cs" by (cases "show_nat n") auto
  have "is_digit c" using show_nat_digits [of n] s by simp
  then have "c \<noteq> CHR ''+''" by (auto simp: is_digit_def)
  moreover have "list_all is_digit (show_nat n)" using show_nat_digits [of n] by (simp add: list_all_iff)
  ultimately show ?thesis
    using n nat_of_digits_show [of n] by (simp add: parse_uint_def s)
qed

text \<open>\<^verbatim>\<open>str::trim\<close>: the white space of Unicode, by its UTF-8 encodings.\<close>

definition white_space :: "string list" where
  "white_space = map (map char_of)
     [[9], [10], [11], [12], [13], [32], [194, 133], [194, 160], [225, 154, 128],
      [226, 128, 128], [226, 128, 129], [226, 128, 130], [226, 128, 131], [226, 128, 132],
      [226, 128, 133], [226, 128, 134], [226, 128, 135], [226, 128, 136], [226, 128, 137],
      [226, 128, 138], [226, 128, 168], [226, 128, 169], [226, 128, 175], [226, 129, 159],
      [227, 128, 128 :: nat]]"

fun strip_one :: "string list \<Rightarrow> string \<Rightarrow> string option" where
  "strip_one [] s = None"
| "strip_one (w # ws) s =
     (if w \<noteq> [] \<and> starts_with s w then Some (drop (length w) s) else strip_one ws s)"

lemma strip_one_shorter: "strip_one ws s = Some t \<Longrightarrow> length t < length s"
  by (induction ws) (auto simp: starts_with_iff split: if_splits)

function strip_all :: "string list \<Rightarrow> string \<Rightarrow> string" where
  "strip_all ws s = (case strip_one ws s of None \<Rightarrow> s | Some t \<Rightarrow> strip_all ws t)"
  by pat_completeness auto
termination
  by (relation "measure (\<lambda>(ws, s). length s)") (auto dest: strip_one_shorter)

declare strip_all.simps [simp del]

definition trim :: "string \<Rightarrow> string" where
  "trim s = rev (strip_all (map rev white_space) (rev (strip_all white_space s)))"

text \<open>\<^verbatim>\<open>str::to_ascii_lowercase\<close>.\<close>

definition lower_char :: "char \<Rightarrow> char" where
  "lower_char c = (let n = (of_char c :: nat) in if 65 \<le> n \<and> n \<le> 90 then char_of (n + 32) else c)"

definition ascii_lowercase :: "string \<Rightarrow> string" where
  "ascii_lowercase s = map lower_char s"

text \<open>\<^verbatim>\<open>str::eq_ignore_ascii_case\<close>.\<close>

definition eq_ignore_case :: "string \<Rightarrow> string \<Rightarrow> bool" where
  "eq_ignore_case a b \<longleftrightarrow> ascii_lowercase a = ascii_lowercase b"

text \<open>Trimming leaves a string alone that starts and ends with a printable ASCII character.\<close>

definition graphic :: "char \<Rightarrow> bool" where
  "graphic c \<longleftrightarrow> 33 \<le> (of_char c :: nat) \<and> (of_char c :: nat) \<le> 126"

lemma strip_one_None: "\<forall>w \<in> set ws. \<not> starts_with s w \<Longrightarrow> strip_one ws s = None"
  by (induction ws) auto

lemma white_not_prefix:
  assumes "graphic c" and "w \<in> set white_space"
  shows "\<not> starts_with (c # s) w" and "\<not> starts_with (c # s) (rev w)"
proof -
  have "\<forall>w \<in> set white_space. w \<noteq> [] \<and> \<not> graphic (hd w) \<and> \<not> graphic (last w)"
    by (simp add: white_space_def graphic_def)
  with assms have w: "w \<noteq> []" "hd w \<noteq> c" "last w \<noteq> c" by auto
  then show "\<not> starts_with (c # s) w" by (cases w) (auto simp: starts_with_def)
  from w have "rev w \<noteq> []" "hd (rev w) \<noteq> c" by (simp_all add: hd_rev)
  then show "\<not> starts_with (c # s) (rev w)" by (cases "rev w") (auto simp: starts_with_def)
qed

lemma trim_graphic:
  assumes "s \<noteq> []" and "graphic (hd s)" and "graphic (last s)"
  shows "trim s = s"
proof -
  from assms(1,2) obtain c t where s: "s = c # t" and c: "graphic c" by (cases s) auto
  from assms(1,3) obtain d u where r: "rev s = d # u" and d: "graphic d"
    by (cases "rev s") (auto simp: hd_rev [symmetric])
  have "strip_one white_space s = None"
    unfolding s by (rule strip_one_None) (simp add: white_not_prefix(1) [OF c])
  moreover have "strip_one (map rev white_space) (rev s) = None"
    unfolding r by (rule strip_one_None) (auto simp: white_not_prefix(2) [OF d])
  ultimately show ?thesis by (simp add: trim_def strip_all.simps)
qed

lemma graphic_no_newline: "list_all graphic s \<Longrightarrow> CHR ''\<newline>'' \<notin> set s"
  by (auto simp: list_all_iff graphic_def)

subsection \<open>Hash maps\<close>

type_synonym ('k, 'v) hashmap = "('k \<times> 'v) list"

definition hm_get :: "'k \<Rightarrow> ('k, 'v) hashmap \<Rightarrow> 'v option" where
  "hm_get k m = map_of m k"

definition hm_insert :: "'k \<Rightarrow> 'v \<Rightarrow> ('k, 'v) hashmap \<Rightarrow> ('k, 'v) hashmap" where
  "hm_insert k v m = AList.update k v m"

definition hm_remove :: "'k \<Rightarrow> ('k, 'v) hashmap \<Rightarrow> ('k, 'v) hashmap" where
  "hm_remove k m = AList.delete k m"

definition hm_wf :: "('k, 'v) hashmap \<Rightarrow> bool" where
  "hm_wf m \<longleftrightarrow> distinct (map fst m)"

text \<open>What a client of a map relies on: lookups after updates, and that updates keep the map well
  formed.\<close>

locale map_iface =
  fixes get :: "'k \<Rightarrow> 'm \<Rightarrow> 'v option"
    and insert :: "'k \<Rightarrow> 'v \<Rightarrow> 'm \<Rightarrow> 'm"
    and remove :: "'k \<Rightarrow> 'm \<Rightarrow> 'm"
    and wf :: "'m \<Rightarrow> bool"
  assumes get_insert: "get k (insert k' v m) = (if k = k' then Some v else get k m)"
    and get_remove: "get k (remove k' m) = (if k = k' then None else get k m)"
    and wf_insert: "wf m \<Longrightarrow> wf (insert k v m)"
    and wf_remove: "wf m \<Longrightarrow> wf (remove k m)"
begin

lemma insert_other: "k \<noteq> k' \<Longrightarrow> get k (insert k' v m) = get k m"
  by (simp add: get_insert)

lemma remove_then_absent: "get k (remove k m) = None"
  by (simp add: get_remove)

lemma insert_overrides: "get k (insert k' v (insert k' w m)) = get k (insert k' v m)"
  by (simp add: get_insert)

lemma insert_pointwise:
  assumes "get k m = Some v" and "P v" and "\<forall>j w. get j m = Some w \<longrightarrow> P w" and "P v'"
  shows "\<forall>j w. get j (insert k v' m) = Some w \<longrightarrow> P w"
  using assms by (auto simp: get_insert)

end

interpretation hm: map_iface hm_get hm_insert hm_remove hm_wf
proof unfold_locales
  fix k k' :: 'k and v :: 'v and m :: "('k, 'v) hashmap"
  show "hm_get k (hm_insert k' v m) = (if k = k' then Some v else hm_get k m)"
    by (simp add: hm_get_def hm_insert_def update_conv')
  show "hm_get k (hm_remove k' m) = (if k = k' then None else hm_get k m)"
    by (simp add: hm_get_def hm_remove_def delete_conv')
  show "hm_wf m \<Longrightarrow> hm_wf (hm_insert k v m)"
    by (simp add: hm_wf_def hm_insert_def distinct_update)
  show "hm_wf m \<Longrightarrow> hm_wf (hm_remove k m)"
    by (simp add: hm_wf_def hm_remove_def distinct_delete)
qed

lemmas hm_simps [simp] = hm.get_insert hm.get_remove
lemmas hm_wf_intros [intro, simp] = hm.wf_insert hm.wf_remove

lemma hm_wf_Nil [simp]: "hm_wf []"
  by (simp add: hm_wf_def)

lemma hm_get_Nil [simp]: "hm_get k [] = None"
  by (simp add: hm_get_def)

lemma hm_get_Cons: "hm_get k ((j, v) # m) = (if k = j then Some v else hm_get k m)"
  by (simp add: hm_get_def)

lemma hm_get_in: "hm_get k m = Some v \<Longrightarrow> (k, v) \<in> set m"
  by (simp add: hm_get_def map_of_SomeD)

lemma hm_get_iff: "hm_wf m \<Longrightarrow> hm_get k m = Some v \<longleftrightarrow> (k, v) \<in> set m"
  by (simp add: hm_wf_def hm_get_def)

lemma hm_get_None_iff: "hm_get k m = None \<longleftrightarrow> k \<notin> fst ` set m"
  by (simp add: hm_get_def map_of_eq_None_iff)

lemma hm_remove_absent: "hm_get k m = None \<Longrightarrow> hm_remove k m = m"
  by (simp add: hm_get_None_iff hm_remove_def delete_id)

lemma fst_set_hm_insert [simp]: "fst ` set (hm_insert k v m) = insert k (fst ` set m)"
  by (simp add: hm_insert_def dom_update)

lemma fst_set_hm_remove [simp]: "fst ` set (hm_remove k m) = fst ` set m - {k}"
  by (auto simp: hm_remove_def AList.delete_eq)

lemma length_hm_insert:
  "length (hm_insert k v m) = (if hm_get k m = None then Suc (length m) else length m)"
  by (induction m) (auto simp: hm_insert_def hm_get_def)

lemma length_hm_remove_le: "length (hm_remove k m) \<le> length m"
  by (simp add: hm_remove_def length_delete_le)

lemma set_hm_insert: "hm_wf m \<Longrightarrow> set (hm_insert k v m) = insert (k, v) {p \<in> set m. fst p \<noteq> k}"
  by (induction m) (force simp: hm_insert_def hm_wf_def)+

lemma set_hm_remove: "set (hm_remove k m) = {p \<in> set m. fst p \<noteq> k}"
  by (auto simp: hm_remove_def AList.delete_eq)

lemma hm_insert_fresh: "hm_get k m = None \<Longrightarrow> hm_insert k v m = m @ [(k, v)]"
  by (induction m) (auto simp: hm_insert_def hm_get_def split: if_splits)

text \<open>Keys and mapped values of a map whose values are rewritten in place.\<close>

definition hm_map :: "('k \<Rightarrow> 'v \<Rightarrow> 'w) \<Rightarrow> ('k, 'v) hashmap \<Rightarrow> ('k, 'w) hashmap" where
  "hm_map f m = map (\<lambda>(k, v). (k, f k v)) m"

lemma hm_get_map [simp]: "hm_get k (hm_map f m) = map_option (f k) (hm_get k m)"
  by (induction m) (auto simp: hm_get_def hm_map_def)

lemma hm_wf_map [simp]: "hm_wf (hm_map f m) \<longleftrightarrow> hm_wf m"
  by (simp add: hm_wf_def hm_map_def comp_def case_prod_beta)

lemma hm_get_filter:
  "hm_wf m \<Longrightarrow> hm_get k (filter (\<lambda>(j, v). Q j v) m) =
     (case hm_get k m of None \<Rightarrow> None | Some v \<Rightarrow> if Q k v then Some v else None)"
proof (induction m)
  case Nil
  then show ?case by simp
next
  case (Cons p m)
  obtain j v where p: "p = (j, v)" by force
  from Cons.prems have wf: "hm_wf m" and j: "j \<notin> fst ` set m" by (simp_all add: hm_wf_def p)
  from j have "hm_get j m = None" by (simp add: hm_get_None_iff)
  with Cons.IH [OF wf] show ?case by (auto simp: p hm_get_Cons split: option.splits)
qed

lemma hm_wf_filter [simp]: "hm_wf m \<Longrightarrow> hm_wf (filter P m)"
  by (simp add: hm_wf_def distinct_map_filter)

subsection \<open>Word arithmetic\<close>

lemma unat_u16_less: "unat (x :: u16) < 65536"
  using unsigned_less [of x, where 'a = nat] by simp

lemma unat_u16_le: "unat (x :: u16) \<le> 65535"
  using unat_u16_less [of x] by simp

lemma u64_less_Suc:
  assumes "n + 1 \<noteq> (0 :: u64)"
  shows "n < n + 1"
  using assms by uint_arith

end
