(* ===== verification/Protocol.thy ===== *)
theory Protocol
  imports Prelude
begin

section \<open>The vocabulary of the protocol crate\<close>

text \<open>
  The broker re-exports its wire layer from the crate \<^verbatim>\<open>wispmq-protocol\<close> (\<^verbatim>\<open>src/src/lib.rs\<close>),
  whose sources are not part of the repository. This theory holds the data that crosses the
  boundary: the fields and constructors that the broker's sources name, with the numbering the MQTT
  specification fixes. No behaviour of the crate is defined here. Its functions are the fields of the
  record \<open>protocol\<close>, an argument of every definition that calls them:
  \<^item> \<open>topic_matches f t\<close> for \<^verbatim>\<open>topic::matches\<close>, \<open>parse_filter\<close>, \<open>valid_topic_name\<close>,
    \<open>valid_topic_filter\<close> for the functions of the same name of \<^verbatim>\<open>topic\<close>;
  \<^item> \<open>encoded_len p\<close> for the length of \<^verbatim>\<open>Packet::Publish(p).encode(V5)\<close>, \<open>None\<close> for an error;
  \<^item> \<open>rc_is_error\<close> for \<^verbatim>\<open>ReasonCode::is_error\<close>;
  \<^item> \<open>validate_protocol c\<close> for \<^verbatim>\<open>Connect::validate_protocol\<close>, \<open>Inl\<close> carrying the error's reason
    code;
  \<^item> \<open>version_from_level\<close>, \<open>version_level\<close>, \<open>packet_name\<close> and \<open>framing_reason_code\<close> for
    \<^verbatim>\<open>ProtocolVersion::from_level\<close>, \<^verbatim>\<open>ProtocolVersion::level\<close>, \<^verbatim>\<open>Packet::name\<close> and \<^verbatim>\<open>reason_code\<close> of the crate's error type \<open>protocol_error\<close>.
  The theorems hold for every value of the record; \<open>plain_protocol\<close> is one concrete value, with which
  they are instantiated on examples.
\<close>

datatype qos = AtMostOnce | AtLeastOnce | ExactlyOnce

fun qos_as_u8 :: "qos \<Rightarrow> u8" where
  "qos_as_u8 AtMostOnce = 0"
| "qos_as_u8 AtLeastOnce = 1"
| "qos_as_u8 ExactlyOnce = 2"

definition qos_from_u8 :: "u8 \<Rightarrow> qos option" where
  "qos_from_u8 n =
     (if n = 0 then Some AtMostOnce else if n = 1 then Some AtLeastOnce
      else if n = 2 then Some ExactlyOnce else None)"

lemma qos_roundtrip [simp]: "qos_from_u8 (qos_as_u8 q) = Some q"
  by (cases q) (simp_all add: qos_from_u8_def)

text \<open>\<^verbatim>\<open>QoS\<close> is ordered by its numbering; \<^verbatim>\<open>a.min(b)\<close> is the library's \<open>min\<close> on that order.\<close>

instantiation qos :: linorder
begin

definition less_eq_qos :: "qos \<Rightarrow> qos \<Rightarrow> bool" where
  "less_eq_qos a b \<longleftrightarrow> unat (qos_as_u8 a) \<le> unat (qos_as_u8 b)"

definition less_qos :: "qos \<Rightarrow> qos \<Rightarrow> bool" where
  "less_qos a b \<longleftrightarrow> unat (qos_as_u8 a) < unat (qos_as_u8 b)"

instance
proof
  fix x y z :: qos
  show "(x < y) = (x \<le> y \<and> \<not> y \<le> x)"
    by (auto simp: less_eq_qos_def less_qos_def)
  show "x \<le> x"
    by (simp add: less_eq_qos_def)
  show "x \<le> y \<Longrightarrow> y \<le> z \<Longrightarrow> x \<le> z"
    by (simp add: less_eq_qos_def)
  show "x \<le> y \<Longrightarrow> y \<le> x \<Longrightarrow> x = y"
    by (cases x; cases y) (simp_all add: less_eq_qos_def)
  show "x \<le> y \<or> y \<le> x"
    by (auto simp: less_eq_qos_def)
qed

end

lemma qos_le_simps [simp]:
  "AtMostOnce \<le> q" "(q \<le> AtMostOnce) = (q = AtMostOnce)" "q \<le> ExactlyOnce"
  "(ExactlyOnce \<le> q) = (q = ExactlyOnce)"
  by (cases q; simp add: less_eq_qos_def)+

lemma qos_as_u8_less [simp]: "qos_as_u8 a < qos_as_u8 b \<longleftrightarrow> a < b" "qos_as_u8 a \<le> qos_as_u8 b \<longleftrightarrow> a \<le> b"
  by (simp_all add: less_qos_def less_eq_qos_def word_less_nat_alt word_le_nat_alt)

lemma qos_le_one [simp]: "(AtLeastOnce \<le> AtMostOnce) = False" "AtLeastOnce \<le> AtLeastOnce"
  by (simp_all add: less_eq_qos_def)

lemma min_qos_code [simp]:
  "min AtMostOnce q = AtMostOnce" "min q AtMostOnce = AtMostOnce"
  "min ExactlyOnce q = q" "min q ExactlyOnce = q" "min AtLeastOnce AtLeastOnce = AtLeastOnce"
  by (simp_all add: min_def)

datatype reason_code =
    Success | GrantedQoS1 | GrantedQoS2 | DisconnectWithWillMessage | NoMatchingSubscribers
  | NoSubscriptionExisted | UnspecifiedError | MalformedPacket | ProtocolError
  | ImplementationSpecificError | ClientIdentifierNotValid | BadUserNameOrPassword | NotAuthorized
  | KeepAliveTimeout | SessionTakenOver | TopicFilterInvalid | TopicNameInvalid
  | PacketIdentifierNotFound | TopicAliasInvalid | RetainNotSupported | QoSNotSupported

datatype protocol_version = V3_1 | V3_1_1 | V5

definition is_v5 :: "protocol_version \<Rightarrow> bool" where
  "is_v5 v \<longleftrightarrow> v = V5"

datatype retain_handling = SendAtSubscribe | SendIfNewSubscription | DoNotSend

record properties =
  pr_payload_format_indicator :: "u8 option"
  pr_message_expiry_interval :: "u32 option"
  pr_content_type :: "string option"
  pr_response_topic :: "string option"
  pr_correlation_data :: "bytes option"
  pr_subscription_identifiers :: "u32 list"
  pr_session_expiry_interval :: "u32 option"
  pr_assigned_client_identifier :: "string option"
  pr_server_keep_alive :: "u16 option"
  pr_will_delay_interval :: "u32 option"
  pr_receive_maximum :: "u16 option"
  pr_topic_alias_maximum :: "u16 option"
  pr_topic_alias :: "u16 option"
  pr_maximum_qos :: "u8 option"
  pr_retain_available :: "u8 option"
  pr_user_properties :: "(string \<times> string) list"
  pr_maximum_packet_size :: "u32 option"
  pr_wildcard_subscription_available :: "u8 option"
  pr_subscription_identifier_available :: "u8 option"
  pr_shared_subscription_available :: "u8 option"

text \<open>\<^verbatim>\<open>Properties::new()\<close>: nothing set.\<close>

definition no_properties :: properties where
  "no_properties =
     \<lparr>pr_payload_format_indicator = None, pr_message_expiry_interval = None, pr_content_type = None,
      pr_response_topic = None, pr_correlation_data = None, pr_subscription_identifiers = [],
      pr_session_expiry_interval = None, pr_assigned_client_identifier = None,
      pr_server_keep_alive = None, pr_will_delay_interval = None, pr_receive_maximum = None,
      pr_topic_alias_maximum = None, pr_topic_alias = None, pr_maximum_qos = None,
      pr_retain_available = None, pr_user_properties = [], pr_maximum_packet_size = None,
      pr_wildcard_subscription_available = None, pr_subscription_identifier_available = None,
      pr_shared_subscription_available = None\<rparr>"

record publish =
  pub_dup :: bool
  pub_qos :: qos
  pub_retain :: bool
  pub_topic :: string
  pub_packet_id :: "u16 option"
  pub_properties :: properties
  pub_payload :: bytes

record puback =
  ack_packet_id :: u16
  ack_reason_code :: reason_code

record suback =
  sa_packet_id :: u16
  sa_reason_codes :: "reason_code list"

record topic_filter =
  tf_filter :: string
  tf_qos :: qos
  tf_no_local :: bool
  tf_retain_as_published :: bool
  tf_retain_handling :: retain_handling

record subscribe =
  sb_packet_id :: u16
  sb_properties :: properties
  sb_filters :: "topic_filter list"

record unsubscribe =
  us_packet_id :: u16
  us_filters :: "string list"

record disconnect =
  dc_reason_code :: reason_code
  dc_properties :: properties

record will =
  w_qos :: qos
  w_retain :: bool
  w_topic :: string
  w_payload :: bytes
  w_properties :: properties

record connect =
  cn_protocol_name :: string
  cn_protocol_version :: u8
  cn_clean_start :: bool
  cn_keep_alive :: u16
  cn_properties :: properties
  cn_client_id :: string
  cn_will :: "will option"
  cn_username :: "string option"
  cn_password :: "bytes option"

record connack =
  ca_session_present :: bool
  ca_reason_code :: reason_code
  ca_properties :: properties

text \<open>\<^verbatim>\<open>PubAck::new\<close>, \<^verbatim>\<open>SubAck::new\<close>, \<^verbatim>\<open>Connack::new\<close>: a packet with empty properties.\<close>

definition puback_new :: "u16 \<Rightarrow> reason_code \<Rightarrow> puback" where
  "puback_new i rc = \<lparr>ack_packet_id = i, ack_reason_code = rc\<rparr>"

definition suback_new :: "u16 \<Rightarrow> reason_code list \<Rightarrow> suback" where
  "suback_new i rcs = \<lparr>sa_packet_id = i, sa_reason_codes = rcs\<rparr>"

definition connack_new :: "bool \<Rightarrow> reason_code \<Rightarrow> connack" where
  "connack_new present rc =
     \<lparr>ca_session_present = present, ca_reason_code = rc, ca_properties = no_properties\<rparr>"

datatype packet =
    Connect connect | Connack connack | Publish publish | Puback puback | Pubrec puback
  | Pubrel puback | Pubcomp puback | Subscribe subscribe | Suback suback
  | Unsubscribe unsubscribe | Unsuback suback | Pingreq | Pingresp | Disconnect disconnect | Auth

text \<open>The crate's error type, and the functions of the crate that the broker calls. A parsed filter is the
  share name and the filter without its \<^verbatim>\<open>$share/{name}/\<close> prefix.\<close>

datatype protocol_error =
    P_Malformed string | P_Protocol string | P_Reason reason_code string | P_Io string

record protocol =
  topic_matches :: "string \<Rightarrow> string \<Rightarrow> bool"
  parse_filter :: "string \<Rightarrow> (string option \<times> string) option"
  valid_topic_name :: "string \<Rightarrow> bool"
  valid_topic_filter :: "string \<Rightarrow> bool"
  encoded_len :: "publish \<Rightarrow> nat option"
  rc_is_error :: "reason_code \<Rightarrow> bool"
  validate_protocol :: "connect \<Rightarrow> reason_code + protocol_version"
  version_from_level :: "u8 \<Rightarrow> protocol_version option"
  version_level :: "protocol_version \<Rightarrow> u8"
  packet_name :: "packet \<Rightarrow> string"
  framing_reason_code :: "protocol_error \<Rightarrow> reason_code"


text \<open>A concrete instance: filters are topic names or the catch-all filter, a packet is as long as its
  topic and payload, every reason code from \<^verbatim>\<open>UnspecifiedError\<close> on is an error.\<close>

definition plain_protocol :: protocol where
  "plain_protocol =
     \<lparr>topic_matches = (\<lambda>f t. f = ''#'' \<or> f = t),
      parse_filter = (\<lambda>f. Some (None, f)),
      valid_topic_name = (\<lambda>t. t \<noteq> [] \<and> t \<noteq> ''#''),
      valid_topic_filter = (\<lambda>f. f \<noteq> []),
      encoded_len = (\<lambda>p. Some (length (pub_topic p) + length (pub_payload p))),
      rc_is_error = (\<lambda>rc. rc \<notin> {Success, GrantedQoS1, GrantedQoS2, DisconnectWithWillMessage,
                                NoMatchingSubscribers, NoSubscriptionExisted}),
      validate_protocol = (\<lambda>c. Inr V5),
      version_from_level = (\<lambda>n. if n = 5 then Some V5 else None),
      version_level = (\<lambda>v. case v of V3_1 \<Rightarrow> 3 | V3_1_1 \<Rightarrow> 4 | V5 \<Rightarrow> 5),
      packet_name = (\<lambda>p. ''packet''),
      framing_reason_code = (\<lambda>e. MalformedPacket)\<rparr>"

lemma plain_protocol_simps [simp]:
  "topic_matches plain_protocol f t \<longleftrightarrow> f = ''#'' \<or> f = t"
  "parse_filter plain_protocol f = Some (None, f)"
  "valid_topic_name plain_protocol t \<longleftrightarrow> t \<noteq> [] \<and> t \<noteq> ''#''"
  "valid_topic_filter plain_protocol f \<longleftrightarrow> f \<noteq> []"
  "encoded_len plain_protocol p = Some (length (pub_topic p) + length (pub_payload p))"
  "validate_protocol plain_protocol c = Inr V5"
  "version_from_level plain_protocol n = (if n = 5 then Some V5 else None)"
  by (simp_all add: plain_protocol_def)

end
