(* ===== verification/Message.thy ===== *)
theory Message
  imports Protocol
begin

section \<open>The application message\<close>

text \<open>
  \<^verbatim>\<open>src/src/message.rs\<close>: the routable message, built from an inbound PUBLISH and rendered into an
  outbound one per subscriber. The clock \<^verbatim>\<open>now_unix()\<close> is the argument \<open>now\<close>: one reading per
  operation that holds the broker lock. Rust's \<^verbatim>\<open>saturating_add\<close> on \<^verbatim>\<open>u64\<close> is
  \<open>saturating_add\<close>.
\<close>

definition saturating_add :: "u64 \<Rightarrow> u64 \<Rightarrow> u64" where
  "saturating_add a b = (if a + b < a then -1 else a + b)"

record message =
  m_topic :: string
  m_payload :: bytes
  m_qos :: qos
  m_retain :: bool
  m_payload_format_indicator :: "u8 option"
  m_content_type :: "string option"
  m_response_topic :: "string option"
  m_correlation_data :: "bytes option"
  m_user_properties :: "(string \<times> string) list"
  m_expires_at :: "u64 option"

definition from_publish :: "u64 \<Rightarrow> publish \<Rightarrow> message" where
  "from_publish now p =
     (let pr = pub_properties p;
          expires_at = map_option (\<lambda>secs. saturating_add now (ucast secs)) (pr_message_expiry_interval pr)
      in \<lparr>m_topic = pub_topic p, m_payload = pub_payload p, m_qos = pub_qos p, m_retain = pub_retain p,
          m_payload_format_indicator = pr_payload_format_indicator pr,
          m_content_type = pr_content_type pr, m_response_topic = pr_response_topic pr,
          m_correlation_data = pr_correlation_data pr, m_user_properties = pr_user_properties pr,
          m_expires_at = expires_at\<rparr>)"

definition remaining_expiry :: "u64 \<Rightarrow> message \<Rightarrow> u32 option" where
  "remaining_expiry now m =
     map_option (\<lambda>deadline. if deadline \<le> now then 0
                            else ucast (min (deadline - now) 4294967295))
       (m_expires_at m)"

definition is_expired :: "u64 \<Rightarrow> message \<Rightarrow> bool" where
  "is_expired now m \<longleftrightarrow> remaining_expiry now m = Some 0"

text \<open>\<^verbatim>\<open>now_unix\<close>: the seconds since the epoch, 0 for a clock set before it.\<close>

definition now_unix :: "nat option \<Rightarrow> u64" where
  "now_unix since_epoch = (case since_epoch of None \<Rightarrow> 0 | Some secs \<Rightarrow> of_nat secs)"

definition to_publish ::
    "u64 \<Rightarrow> message \<Rightarrow> qos \<Rightarrow> u16 option \<Rightarrow> bool \<Rightarrow> u32 list \<Rightarrow> publish" where
  "to_publish now m q packet_id retain subscription_ids =
     \<lparr>pub_dup = False, pub_qos = q, pub_retain = retain, pub_topic = m_topic m,
      pub_packet_id = (if q = AtMostOnce then None else packet_id),
      pub_properties = no_properties
        \<lparr>pr_payload_format_indicator := m_payload_format_indicator m,
         pr_content_type := m_content_type m,
         pr_response_topic := m_response_topic m,
         pr_correlation_data := m_correlation_data m,
         pr_user_properties := m_user_properties m,
         pr_message_expiry_interval := remaining_expiry now m,
         pr_subscription_identifiers := subscription_ids\<rparr>,
      pub_payload = m_payload m\<rparr>"

lemma to_publish_simps [simp]:
  "pub_dup (to_publish now m q i r ids) = False"
  "pub_qos (to_publish now m q i r ids) = q"
  "pub_retain (to_publish now m q i r ids) = r"
  "pub_topic (to_publish now m q i r ids) = m_topic m"
  "pub_payload (to_publish now m q i r ids) = m_payload m"
  "q \<noteq> AtMostOnce \<Longrightarrow> pub_packet_id (to_publish now m q i r ids) = i"
  by (simp_all add: to_publish_def)

lemma from_publish_simps [simp]:
  "m_topic (from_publish now p) = pub_topic p"
  "m_payload (from_publish now p) = pub_payload p"
  "m_qos (from_publish now p) = pub_qos p"
  "m_retain (from_publish now p) = pub_retain p"
  by (simp_all add: from_publish_def Let_def)

subsection \<open>Expiry\<close>

text \<open>The remaining interval is exact up to the 32-bit ceiling, so a message that has time left is
  never reported as expired.\<close>

lemma remaining_expiry_nat:
  assumes "m_expires_at m = Some d" and "now < d"
  shows "remaining_expiry now m = Some (ucast (min (d - now) 4294967295))"
    and "unat (the (remaining_expiry now m)) = min (unat d - unat now) 4294967295"
proof -
  from assms(2) have lt: "\<not> d \<le> now" by simp
  with assms(1) show eq: "remaining_expiry now m = Some (ucast (min (d - now) 4294967295))"
    by (simp add: remaining_expiry_def)
  have sub: "unat (d - now) = unat d - unat now"
    using assms(2) by (simp add: unat_sub)
  let ?x = "min (d - now) 4294967295 :: u64"
  have x: "unat ?x = min (unat d - unat now) 4294967295"
    by (simp add: min_def word_le_nat_alt sub)
  then have "unat ?x < 2 ^ 32" by simp
  then have "unat (ucast ?x :: u32) = unat ?x"
    by (simp add: unsigned_ucast_eq take_bit_nat_eq_self)
  with x eq show "unat (the (remaining_expiry now m)) = min (unat d - unat now) 4294967295"
    by simp
qed

lemma is_expired_iff:
  "is_expired now m \<longleftrightarrow> (\<exists>d. m_expires_at m = Some d \<and> d \<le> now)"
proof (cases "m_expires_at m")
  case None
  then show ?thesis by (simp add: is_expired_def remaining_expiry_def)
next
  case (Some d)
  show ?thesis
  proof (cases "d \<le> now")
    case True
    with Some show ?thesis by (simp add: is_expired_def remaining_expiry_def)
  next
    case False
    then have lt: "now < d" by simp
    from remaining_expiry_nat(2) [OF Some lt] lt
    have "0 < unat (the (remaining_expiry now m))"
      by (simp add: word_less_nat_alt)
    then have "remaining_expiry now m \<noteq> Some 0" by auto
    with Some False show ?thesis by (simp add: is_expired_def)
  qed
qed

lemma no_expiry_never_expired [simp]: "m_expires_at m = None \<Longrightarrow> \<not> is_expired now m"
  by (simp add: is_expired_iff)

lemma unat_saturating_add:
  assumes "unat a + unat b < 2 ^ 64"
  shows "unat (saturating_add a b) = unat a + unat b"
proof -
  have sum: "unat (a + b) = unat a + unat b" using assms by (simp add: unat_word_ariths)
  then have "\<not> a + b < a" by (simp add: word_less_nat_alt)
  with sum show ?thesis by (simp add: saturating_add_def)
qed

definition demo_expiring :: publish where
  "demo_expiring =
     \<lparr>pub_dup = False, pub_qos = AtMostOnce, pub_retain = False, pub_topic = ''t'', pub_packet_id = None,
      pub_properties = no_properties\<lparr>pr_message_expiry_interval := Some 60\<rparr>, pub_payload = []\<rparr>"

lemma saturating_add_le: "a \<le> saturating_add a b"
  unfolding saturating_add_def using word_order.extremum by auto

text \<open>
  C38. The expiry interval counts down: a message that was received with an interval of \<open>secs\<close> seconds
  is handed on, any time later, with exactly the seconds that are left of it; it counts as expired
  from the second the interval has run out, not before; and a message without an interval is handed
  on without one and never expires.
\<close>

theorem expiry_counts_down:
  assumes "now \<le> later" and "unat now + 2 ^ 32 \<le> 2 ^ 64"
  shows "(case pr_message_expiry_interval (pub_properties p) of
      None \<Rightarrow> \<not> is_expired later (from_publish now p)
        \<and> pr_message_expiry_interval (pub_properties (to_publish later (from_publish now p) q i r ids)) = None
    | Some secs \<Rightarrow> (is_expired later (from_publish now p) \<longleftrightarrow> unat secs \<le> unat later - unat now)
        \<and> map_option unat
            (pr_message_expiry_interval (pub_properties (to_publish later (from_publish now p) q i r ids)))
          = Some (unat secs - (unat later - unat now)))"
proof (cases "pr_message_expiry_interval (pub_properties p)")
  case None
  then have "m_expires_at (from_publish now p) = None" by (simp add: from_publish_def Let_def)
  then show ?thesis by (simp add: None to_publish_def remaining_expiry_def)
next
  case (Some secs)
  let ?m = "from_publish now p" and ?d = "saturating_add now (ucast secs)"
  have at: "m_expires_at ?m = Some ?d" by (simp add: from_publish_def Let_def Some)
  have s: "unat (ucast secs :: u64) = unat secs" and small: "unat secs < 2 ^ 32"
    using unsigned_less [of secs, where 'a = nat] by (simp_all add: unsigned_ucast_eq take_bit_nat_eq_self)
  have d: "unat ?d = unat now + unat secs"
    by (rule unat_saturating_add [of now "ucast secs", unfolded s]) (use assms(2) small in linarith)
  have le: "unat now \<le> unat later" using assms(1) by (simp add: word_le_nat_alt)
  have out: "pr_message_expiry_interval (pub_properties (to_publish later ?m q i r ids)) =
      remaining_expiry later ?m" by (simp add: to_publish_def)
  show ?thesis
  proof (cases "?d \<le> later")
    case True
    then have "unat now + unat secs \<le> unat later" using d by (simp add: word_le_nat_alt)
    moreover from True at have "remaining_expiry later ?m = Some 0" by (simp add: remaining_expiry_def)
    ultimately show ?thesis using le by (simp add: Some out is_expired_def)
  next
    case False
    then have lt: "later < ?d" by simp
    then have gt: "unat later < unat now + unat secs" using d by (simp add: word_less_nat_alt)
    then have "min (unat ?d - unat later) 4294967295 = unat secs - (unat later - unat now)"
      using small le by (auto simp: d min_def)
    with remaining_expiry_nat [OF at lt]
    have "map_option unat (remaining_expiry later ?m) = Some (unat secs - (unat later - unat now))"
      by (simp del: min_less_iff_conj)
    moreover have "\<not> is_expired later ?m" using at False by (simp add: is_expired_iff)
    ultimately show ?thesis using gt le by (simp add: Some out)
  qed
qed

theorem expiry_counts_down_witness:
  "is_expired 160 (from_publish 100 demo_expiring) \<and> \<not> is_expired 159 (from_publish 100 demo_expiring)
   \<and> map_option unat (pr_message_expiry_interval
        (pub_properties (to_publish 130 (from_publish 100 demo_expiring) AtMostOnce None False []))) = Some 30"
proof -
  have e: "pr_message_expiry_interval (pub_properties demo_expiring) = Some 60"
    by (simp add: demo_expiring_def no_properties_def)
  show ?thesis
    using expiry_counts_down [of 100 160 demo_expiring AtMostOnce None False "[]"]
      expiry_counts_down [of 100 159 demo_expiring AtMostOnce None False "[]"]
      expiry_counts_down [of 100 130 demo_expiring AtMostOnce None False "[]"]
    by (simp add: e)
qed

end
