(* ===== verification/Session.thy ===== *)
theory Session
  imports Message
begin

section \<open>Per-client session state\<close>

text \<open>
  \<^verbatim>\<open>src/src/broker/session.rs\<close>: subscriptions, the outbound QoS 1 and QoS 2 tables, the offline queue
  and packet-identifier allocation. The \<^verbatim>\<open>Sender\<close> half of a connection's bounded channel is the
  record \<open>outtx\<close>: what has been sent and not yet drained, the bound, and whether the receiving task is
  still there. A session owns its sender, so the buffer travels with the session. A \<^verbatim>\<open>HashSet<u16>\<close>
  is a list without repetitions.
\<close>

subsection \<open>The outbound channel\<close>

datatype outgoing = Send publish | Control packet | Shutdown reason_code

definition OUTBOUND_CHANNEL_CAPACITY :: nat where
  "OUTBOUND_CHANNEL_CAPACITY = 1024"

record outtx =
  ch_buf :: "outgoing list"
  ch_capacity :: nat
  ch_open :: bool

definition channel_new :: outtx where
  "channel_new = \<lparr>ch_buf = [], ch_capacity = OUTBOUND_CHANNEL_CAPACITY, ch_open = True\<rparr>"

text \<open>Tokio's \<^verbatim>\<open>Sender::try_send\<close>: refused when the receiver is gone or the buffer is full.\<close>

definition try_send :: "outtx \<Rightarrow> outgoing \<Rightarrow> bool \<times> outtx" where
  "try_send tx item =
     (if ch_open tx \<and> length (ch_buf tx) < ch_capacity tx
      then (True, tx\<lparr>ch_buf := ch_buf tx @ [item]\<rparr>) else (False, tx))"

definition channel_ok :: "outtx \<Rightarrow> bool" where
  "channel_ok tx \<longleftrightarrow> length (ch_buf tx) \<le> ch_capacity tx"

text \<open>The contract of a bounded channel, and what follows for a client that pushes several items and
  ignores refusals (as the broker does everywhere).\<close>

locale bounded_channel =
  fixes push :: "'c \<Rightarrow> 'i \<Rightarrow> bool \<times> 'c"
    and contents :: "'c \<Rightarrow> 'i list"
    and bound :: "'c \<Rightarrow> nat"
    and ok :: "'c \<Rightarrow> bool"
  assumes push_contents: "contents (snd (push c i)) = contents c @ (if fst (push c i) then [i] else [])"
    and push_bound: "bound (snd (push c i)) = bound c"
    and push_ok: "ok c \<Longrightarrow> ok (snd (push c i))"
    and ok_le: "ok c \<Longrightarrow> length (contents c) \<le> bound c"
begin

primrec push_all :: "'c \<Rightarrow> 'i list \<Rightarrow> 'c" where
  "push_all c [] = c"
| "push_all c (i # is) = push_all (snd (push c i)) is"

lemma push_all_bound: "bound (push_all c is) = bound c"
  by (induction "is" arbitrary: c) (simp_all add: push_bound)

lemma push_all_ok: "ok c \<Longrightarrow> ok (push_all c is)"
  by (induction "is" arbitrary: c) (simp_all add: push_ok)

lemma push_all_length: "ok c \<Longrightarrow> length (contents (push_all c is)) \<le> bound c"
  using ok_le [OF push_all_ok, of c "is"] by (simp add: push_all_bound)

lemma push_all_prefix: "\<exists>xs. contents (push_all c is) = contents c @ xs \<and> set xs \<subseteq> set is"
proof (induction "is" arbitrary: c)
  case Nil
  then show ?case by simp
next
  case (Cons i "is")
  from Cons [of "snd (push c i)"] obtain xs where
    "contents (push_all (snd (push c i)) is) = contents (snd (push c i)) @ xs" "set xs \<subseteq> set is"
    by blast
  then show ?case by (force simp: push_contents)
qed

end

interpretation tx: bounded_channel try_send ch_buf ch_capacity channel_ok
  by unfold_locales (auto simp: try_send_def channel_ok_def)

lemma try_send_frame [simp]:
  "ch_open (snd (try_send tx i)) = ch_open tx"
  "ch_capacity (snd (try_send tx i)) = ch_capacity tx"
  by (simp_all add: try_send_def)

lemma channel_new_ok [simp]: "channel_ok channel_new"
  by (simp add: channel_ok_def channel_new_def)

subsection \<open>Sessions\<close>

record pending =
  pd_message :: message
  pd_qos :: qos
  pd_retain :: bool
  pd_subscription_ids :: "u32 list"

record subscription =
  sub_filter :: string
  sub_share_name :: "string option"
  sub_qos :: qos
  sub_no_local :: bool
  sub_retain_as_published :: bool
  sub_subscription_identifier :: "u32 option"

record session =
  ss_client_id :: string
  ss_identity :: "string option"
  ss_epoch :: u64
  ss_out :: "outtx option"
  ss_subscriptions :: "subscription list"
  ss_persistent :: bool
  ss_session_expiry_interval :: u32
  ss_will :: "(message \<times> u32) option"
  ss_client_receive_maximum :: u16
  ss_client_max_packet_size :: "u32 option"
  ss_next_packet_id :: u16
  ss_awaiting_puback :: "(u16, publish) hashmap"
  ss_awaiting_pubrec :: "(u16, publish) hashmap"
  ss_awaiting_pubcomp :: "u16 list"
  ss_queue :: "pending list"
  ss_inbound_qos2 :: "u16 list"
  ss_inbound_aliases :: "(u16, string) hashmap"

definition session_new :: "string \<Rightarrow> u32 \<Rightarrow> session" where
  "session_new client_id session_expiry_interval =
     \<lparr>ss_client_id = client_id, ss_identity = None, ss_epoch = 0, ss_out = None,
      ss_subscriptions = [], ss_persistent = False,
      ss_session_expiry_interval = session_expiry_interval, ss_will = None,
      ss_client_receive_maximum = 65535, ss_client_max_packet_size = None, ss_next_packet_id = 1,
      ss_awaiting_puback = [], ss_awaiting_pubrec = [], ss_awaiting_pubcomp = [], ss_queue = [],
      ss_inbound_qos2 = [], ss_inbound_aliases = []\<rparr>"

definition is_online :: "session \<Rightarrow> bool" where
  "is_online s \<longleftrightarrow> ss_out s \<noteq> None"

definition inflight_count :: "session \<Rightarrow> nat" where
  "inflight_count s =
     length (ss_awaiting_puback s) + length (ss_awaiting_pubrec s) + length (ss_awaiting_pubcomp s)"

definition window_open :: "session \<Rightarrow> bool" where
  "window_open s \<longleftrightarrow> inflight_count s < unat (ss_client_receive_maximum s)"

definition id_in_use :: "session \<Rightarrow> u16 \<Rightarrow> bool" where
  "id_in_use s i \<longleftrightarrow> hm_get i (ss_awaiting_puback s) \<noteq> None
     \<or> hm_get i (ss_awaiting_pubrec s) \<noteq> None \<or> i \<in> set (ss_awaiting_pubcomp s)"

text \<open>The successor of a packet identifier: 0 is never an identifier.\<close>

definition succ_id :: "u16 \<Rightarrow> u16" where
  "succ_id i = (if i = 65535 then 1 else i + 1)"

text \<open>The loop \<^verbatim>\<open>for _ in 0..=u16::MAX\<close> runs at most 65536 times; the first argument counts the
  iterations left.\<close>

fun next_id_loop :: "nat \<Rightarrow> session \<Rightarrow> u16 option \<times> session" where
  "next_id_loop 0 s = (None, s)"
| "next_id_loop (Suc n) s =
     (let i = ss_next_packet_id s;
          s' = s\<lparr>ss_next_packet_id := succ_id i\<rparr>
      in if \<not> id_in_use s' i then (Some i, s') else next_id_loop n s')"

definition next_id :: "session \<Rightarrow> u16 option \<times> session" where
  "next_id s = next_id_loop 65536 s"

definition same_key :: "subscription \<Rightarrow> subscription \<Rightarrow> bool" where
  "same_key a b \<longleftrightarrow> sub_filter a = sub_filter b \<and> sub_share_name a = sub_share_name b"

text \<open>The first subscription with the same filter and share name is replaced in place, otherwise the
  new one is pushed at the end.\<close>

fun upsert_list :: "subscription list \<Rightarrow> subscription \<Rightarrow> bool \<times> subscription list" where
  "upsert_list [] new = (False, [new])"
| "upsert_list (x # xs) new =
     (if same_key x new then (True, new # xs)
      else (let (e, ys) = upsert_list xs new in (e, x # ys)))"

definition upsert_subscription :: "session \<Rightarrow> subscription \<Rightarrow> bool \<times> session" where
  "upsert_subscription s new =
     (let (existed, subs) = upsert_list (ss_subscriptions s) new
      in (existed, s\<lparr>ss_subscriptions := subs\<rparr>))"

definition remove_subscription :: "session \<Rightarrow> string \<Rightarrow> string option \<Rightarrow> bool \<times> session" where
  "remove_subscription s flt share =
     (let before = length (ss_subscriptions s);
          subs = filter (\<lambda>x. \<not> (sub_filter x = flt \<and> sub_share_name x = share)) (ss_subscriptions s)
      in (length subs \<noteq> before, s\<lparr>ss_subscriptions := subs\<rparr>))"

definition go_offline :: "session \<Rightarrow> session" where
  "go_offline s = s\<lparr>ss_out := None\<rparr>"

text \<open>\<^verbatim>\<open>if let Some(tx) = &s.out { let _ = tx.try_send(item); }\<close>, the shape of every control send.\<close>

definition session_send :: "session \<Rightarrow> outgoing \<Rightarrow> session" where
  "session_send s item =
     (case ss_out s of None \<Rightarrow> s | Some tx \<Rightarrow> s\<lparr>ss_out := Some (snd (try_send tx item))\<rparr>)"

subsection \<open>The session invariant\<close>

text \<open>
  One list of all identifiers in flight: the three tables never share an identifier, 0 is never used,
  a stored PUBLISH carries its own identifier and the QoS of its table, the queue holds no QoS 0
  message, and the channel keeps its bound.
\<close>

definition inflight_ids :: "session \<Rightarrow> u16 list" where
  "inflight_ids s =
     map fst (ss_awaiting_puback s) @ map fst (ss_awaiting_pubrec s) @ ss_awaiting_pubcomp s"

definition stored_ok :: "qos \<Rightarrow> (u16, publish) hashmap \<Rightarrow> bool" where
  "stored_ok q m \<longleftrightarrow> (\<forall>(i, p) \<in> set m. pub_qos p = q \<and> pub_packet_id p = Some i)"

definition session_inv :: "session \<Rightarrow> bool" where
  "session_inv s \<longleftrightarrow>
     distinct (inflight_ids s) \<and> 0 \<notin> set (inflight_ids s) \<and> ss_next_packet_id s \<noteq> 0
     \<and> stored_ok AtLeastOnce (ss_awaiting_puback s) \<and> stored_ok ExactlyOnce (ss_awaiting_pubrec s)
     \<and> (\<forall>pd \<in> set (ss_queue s). pd_qos pd \<noteq> AtMostOnce)
     \<and> (\<forall>tx. ss_out s = Some tx \<longrightarrow> channel_ok tx)"

lemma inflight_count_ids: "inflight_count s = length (inflight_ids s)"
  by (simp add: inflight_count_def inflight_ids_def)

lemma id_in_use_ids: "id_in_use s i \<longleftrightarrow> i \<in> set (inflight_ids s)"
  by (auto simp: id_in_use_def inflight_ids_def hm_get_None_iff)

lemma session_new_inv [simp]: "session_inv (session_new c e)"
  by (simp add: session_inv_def session_new_def inflight_ids_def stored_ok_def)

lemma is_online_update [simp]:
  "is_online (s\<lparr>ss_out := x\<rparr>) = (x \<noteq> None)"
  by (simp add: is_online_def)

subsection \<open>Packet identifier allocation\<close>

lemma in_use_next_update [simp]: "id_in_use (s\<lparr>ss_next_packet_id := j\<rparr>) i = id_in_use s i"
  by (simp add: id_in_use_def)

text \<open>The allocator only moves its cursor.\<close>

lemma next_id_loop_frame: "\<exists>j. snd (next_id_loop n s) = s\<lparr>ss_next_packet_id := j\<rparr>"
proof (induction n arbitrary: s)
  case 0
  have "snd (next_id_loop 0 s) = s\<lparr>ss_next_packet_id := ss_next_packet_id s\<rparr>" by simp
  then show ?case ..
next
  case (Suc n)
  let ?s = "s\<lparr>ss_next_packet_id := succ_id (ss_next_packet_id s)\<rparr>"
  from Suc [of ?s] show ?case by (auto simp: Let_def)
qed

lemma next_id_frame: "\<exists>j. snd (next_id s) = s\<lparr>ss_next_packet_id := j\<rparr>"
  by (simp add: next_id_def next_id_loop_frame)

lemma next_id_fields [simp, session_frame]:
  "ss_client_id (snd (next_id s)) = ss_client_id s"
  "ss_identity (snd (next_id s)) = ss_identity s"
  "ss_epoch (snd (next_id s)) = ss_epoch s"
  "ss_out (snd (next_id s)) = ss_out s"
  "ss_subscriptions (snd (next_id s)) = ss_subscriptions s"
  "ss_persistent (snd (next_id s)) = ss_persistent s"
  "ss_session_expiry_interval (snd (next_id s)) = ss_session_expiry_interval s"
  "ss_will (snd (next_id s)) = ss_will s"
  "ss_client_receive_maximum (snd (next_id s)) = ss_client_receive_maximum s"
  "ss_client_max_packet_size (snd (next_id s)) = ss_client_max_packet_size s"
  "ss_awaiting_puback (snd (next_id s)) = ss_awaiting_puback s"
  "ss_awaiting_pubrec (snd (next_id s)) = ss_awaiting_pubrec s"
  "ss_awaiting_pubcomp (snd (next_id s)) = ss_awaiting_pubcomp s"
  "ss_queue (snd (next_id s)) = ss_queue s"
  "ss_inbound_qos2 (snd (next_id s)) = ss_inbound_qos2 s"
  "ss_inbound_aliases (snd (next_id s)) = ss_inbound_aliases s"
  using next_id_frame [of s] by auto

lemma succ_id_nonzero [simp]: "succ_id i \<noteq> 0"
proof (cases "i = 65535")
  case True
  then show ?thesis by (simp add: succ_id_def)
next
  case False
  then have "unat i \<noteq> unat (65535 :: u16)" by (simp only: word_unat_eq_iff not_False_eq_True)
  then have "unat (i + 1) \<noteq> 0" using unat_u16_le [of i] by (simp add: unat_word_ariths)
  then show ?thesis using False by (auto simp: succ_id_def)
qed

lemma unat_succ_id: "i \<noteq> 0 \<Longrightarrow> unat (succ_id i) = (unat i mod 65535) + 1"
proof -
  assume i: "i \<noteq> 0"
  show ?thesis
  proof (cases "i = 65535")
    case True
    then show ?thesis by (simp add: succ_id_def)
  next
    case False
    then have "unat i \<noteq> unat (65535 :: u16)" by (simp only: word_unat_eq_iff not_False_eq_True)
    then have "unat i < 65535" using unat_u16_le [of i] by simp
    with False show ?thesis by (simp add: succ_id_def unat_word_ariths)
  qed
qed

text \<open>The cursor after \<open>k\<close> steps walks through all 65535 identifiers before it repeats.\<close>

lemma unat_succ_id_pow:
  assumes "i \<noteq> 0"
  shows "(succ_id ^^ k) i \<noteq> 0 \<and> unat ((succ_id ^^ k) i) = (unat i - 1 + k) mod 65535 + 1"
proof (induction k)
  case 0
  from assms have "0 < unat i" by (simp add: unat_gt_0)
  then show ?case using assms unat_u16_le [of i] by simp
next
  case (Suc k)
  then show ?case by (simp add: unat_succ_id mod_Suc_eq)
qed

lemma succ_id_reaches:
  assumes "i \<noteq> 0" and "j \<noteq> 0"
  shows "\<exists>k < 65535. (succ_id ^^ k) i = j"
proof -
  define k where "k = (unat j + 65535 - unat i) mod 65535"
  from assms have bounds: "0 < unat i" "unat i \<le> 65535" "0 < unat j" "unat j \<le> 65535"
    by (simp_all add: unat_gt_0 unat_u16_le)
  have "(unat i - 1 + k) mod 65535 = (unat i - 1 + (unat j + 65535 - unat i)) mod 65535"
    unfolding k_def by (simp add: mod_add_right_eq)
  also have "\<dots> = (unat j - 1 + 65535) mod 65535"
    using bounds by (intro arg_cong2 [where f = "(mod)"]) auto
  also have "\<dots> = unat j - 1"
    using bounds by (simp only: mod_add_self2) simp
  finally have "unat ((succ_id ^^ k) i) = unat j"
    using unat_succ_id_pow [OF assms(1), of k] bounds by simp
  then have "(succ_id ^^ k) i = j" by (simp only: word_unat_eq_iff)
  moreover have "k < 65535" by (simp add: k_def)
  ultimately show ?thesis by blast
qed

lemma next_id_loop_Some:
  "next_id_loop n s = (Some i, s') \<Longrightarrow> ss_next_packet_id s \<noteq> 0 \<Longrightarrow>
   \<not> id_in_use s i \<and> i \<noteq> 0 \<and> s' = s\<lparr>ss_next_packet_id := succ_id i\<rparr>"
proof (induction n arbitrary: s)
  case 0
  then show ?case by simp
next
  case (Suc n)
  let ?s = "s\<lparr>ss_next_packet_id := succ_id (ss_next_packet_id s)\<rparr>"
  from Suc.IH [of ?s] Suc.prems show ?case
    by (cases "id_in_use s (ss_next_packet_id s)") (auto simp: Let_def)
qed

lemma next_id_Some:
  assumes "next_id s = (Some i, s')" and "ss_next_packet_id s \<noteq> 0"
  shows "\<not> id_in_use s i" and "i \<noteq> 0" and "s' = s\<lparr>ss_next_packet_id := succ_id i\<rparr>"
  using next_id_loop_Some [of 65536 s i s'] assms by (simp_all add: next_id_def)

lemma next_id_loop_None:
  "fst (next_id_loop n s) = None \<Longrightarrow> k < n \<Longrightarrow> id_in_use s ((succ_id ^^ k) (ss_next_packet_id s))"
proof (induction n arbitrary: s k)
  case 0
  then show ?case by simp
next
  case (Suc n)
  let ?s = "s\<lparr>ss_next_packet_id := succ_id (ss_next_packet_id s)\<rparr>"
  from Suc.prems(1) have used: "id_in_use s (ss_next_packet_id s)"
    and rest: "fst (next_id_loop n ?s) = None"
    by (auto simp: Let_def split: if_splits)
  show ?case
  proof (cases k)
    case 0
    with used show ?thesis by simp
  next
    case (Suc k')
    with Suc.prems(2) have "k' < n" by simp
    from Suc.IH [OF rest this] have "id_in_use s ((succ_id ^^ k') (succ_id (ss_next_packet_id s)))"
      by simp
    with Suc show ?thesis by (simp add: funpow_swap1)
  qed
qed

text \<open>Exhaustion is real exhaustion: \<open>next_id\<close> fails only when all 65535 identifiers are in flight.\<close>

lemma next_id_None:
  assumes "fst (next_id s) = None" and "ss_next_packet_id s \<noteq> 0" and "j \<noteq> 0"
  shows "id_in_use s j"
proof -
  from succ_id_reaches [OF assms(2,3)] obtain k where
    "k < 65535" and k: "(succ_id ^^ k) (ss_next_packet_id s) = j" by blast
  with next_id_loop_None [of 65536 s k] assms(1) show ?thesis by (simp add: next_id_def)
qed

lemma card_nonzero_ids: "card {i :: u16. i \<noteq> 0} = 65535"
proof -
  have "{i :: u16. i \<noteq> 0} = UNIV - {0}" by auto
  then show ?thesis by (simp add: card_Diff_singleton_if card_word)
qed

lemma next_id_available:
  assumes "session_inv s" and "inflight_count s < 65535"
  shows "\<exists>i s'. next_id s = (Some i, s')"
proof (rule ccontr)
  assume "\<not> ?thesis"
  then have none: "fst (next_id s) = None"
    by (metis not_None_eq prod.collapse)
  from assms(1) have nz: "ss_next_packet_id s \<noteq> 0" by (simp add: session_inv_def)
  from next_id_None [OF none nz] have "{i. i \<noteq> 0} \<subseteq> set (inflight_ids s)"
    by (auto simp: id_in_use_ids)
  then have "65535 \<le> card (set (inflight_ids s))"
    using card_mono [of "set (inflight_ids s)" "{i. i \<noteq> 0}"] by (simp add: card_nonzero_ids)
  also have "\<dots> \<le> length (inflight_ids s)" by (rule card_length)
  finally show False using assms(2) by (simp add: inflight_count_ids)
qed

lemma next_id_window:
  assumes "session_inv s" and "window_open s"
  shows "\<exists>i s'. next_id s = (Some i, s')"
  using next_id_available [OF assms(1)] assms(2) unat_u16_le [of "ss_client_receive_maximum s"]
  by (simp add: window_open_def)

text \<open>The usual case, for evaluation: the cursor's identifier is free.\<close>

lemma next_id_first:
  "\<not> id_in_use s (ss_next_packet_id s) \<Longrightarrow>
   next_id s = (Some (ss_next_packet_id s), s\<lparr>ss_next_packet_id := succ_id (ss_next_packet_id s)\<rparr>)"
  unfolding next_id_def using next_id_loop.simps(2) [of 65535 s] by (simp add: Let_def)

subsection \<open>The subscription list\<close>

definition sub_key :: "subscription \<Rightarrow> string \<times> string option" where
  "sub_key x = (sub_filter x, sub_share_name x)"

lemma same_key_iff: "same_key a b \<longleftrightarrow> sub_key a = sub_key b"
  by (simp add: same_key_def sub_key_def)

text \<open>\<open>subs_get k\<close> is the subscription list read as a map from filter and share name.\<close>

definition subs_get :: "string \<times> string option \<Rightarrow> subscription list \<Rightarrow> subscription option" where
  "subs_get k xs = find (\<lambda>x. sub_key x = k) xs"

definition subs_insert :: "string \<times> string option \<Rightarrow> subscription \<Rightarrow> subscription list \<Rightarrow> subscription list" where
  "subs_insert k new xs = (if sub_key new = k then snd (upsert_list xs new) else xs)"

lemma upsert_existed: "fst (upsert_list xs new) \<longleftrightarrow> (\<exists>x \<in> set xs. sub_key x = sub_key new)"
  by (induction xs) (auto simp: same_key_iff split: prod.splits)

lemma upsert_keys:
  "map sub_key (snd (upsert_list xs new)) =
     (if \<exists>x \<in> set xs. sub_key x = sub_key new then map sub_key xs else map sub_key xs @ [sub_key new])"
  by (induction xs) (auto simp: same_key_iff split: prod.splits)

lemma upsert_distinct: "distinct (map sub_key xs) \<Longrightarrow> distinct (map sub_key (snd (upsert_list xs new)))"
  by (auto simp: upsert_keys)

lemma upsert_get:
  "subs_get k (snd (upsert_list xs new)) = (if k = sub_key new then Some new else subs_get k xs)"
  by (induction xs) (auto simp: same_key_iff subs_get_def split: prod.splits)

lemma set_upsert: "set (snd (upsert_list xs new)) \<subseteq> insert new (set xs)"
  by (induction xs) (auto split: prod.splits)

lemma new_in_upsert: "new \<in> set (snd (upsert_list xs new))"
  by (induction xs) (auto split: prod.splits)

lemma remove_get:
  assumes "remove_subscription s flt share = (removed, s')"
  shows "subs_get k (ss_subscriptions s') = (if k = (flt, share) then None else subs_get k (ss_subscriptions s))"
proof -
  have "find (\<lambda>x. sub_key x = k) (filter (\<lambda>x. \<not> (sub_filter x = flt \<and> sub_share_name x = share)) xs)
        = (if k = (flt, share) then None else find (\<lambda>x. sub_key x = k) xs)" for xs
    by (induction xs) (auto simp: sub_key_def)
  with assms show ?thesis by (auto simp: remove_subscription_def Let_def subs_get_def)
qed

lemma remove_iff:
  "fst (remove_subscription s flt share) \<longleftrightarrow> (flt, share) \<in> sub_key ` set (ss_subscriptions s)"
proof -
  have "length (filter P xs) \<noteq> length xs \<longleftrightarrow> (\<exists>x \<in> set xs. \<not> P x)" for P :: "subscription \<Rightarrow> bool" and xs
    by (metis filter_id_conv filter_True length_filter_less less_irrefl)
  then show ?thesis by (auto simp: remove_subscription_def Let_def sub_key_def image_iff)
qed

lemma remove_distinct:
  "distinct (map sub_key (ss_subscriptions s)) \<Longrightarrow>
   distinct (map sub_key (ss_subscriptions (snd (remove_subscription s flt share))))"
  by (simp add: remove_subscription_def Let_def distinct_map_filter)

text \<open>Operations on the subscriptions and control sends leave the delivery state alone.\<close>

lemma session_inv_subscriptions [simp]:
  "session_inv (s\<lparr>ss_subscriptions := xs\<rparr>) = session_inv s"
  by (simp add: session_inv_def inflight_ids_def)

lemma session_send_fields [simp, session_frame]:
  "ss_client_id (session_send s i) = ss_client_id s"
  "ss_identity (session_send s i) = ss_identity s"
  "ss_epoch (session_send s i) = ss_epoch s"
  "ss_subscriptions (session_send s i) = ss_subscriptions s"
  "ss_persistent (session_send s i) = ss_persistent s"
  "ss_session_expiry_interval (session_send s i) = ss_session_expiry_interval s"
  "ss_will (session_send s i) = ss_will s"
  "ss_client_receive_maximum (session_send s i) = ss_client_receive_maximum s"
  "ss_client_max_packet_size (session_send s i) = ss_client_max_packet_size s"
  "ss_next_packet_id (session_send s i) = ss_next_packet_id s"
  "ss_awaiting_puback (session_send s i) = ss_awaiting_puback s"
  "ss_awaiting_pubrec (session_send s i) = ss_awaiting_pubrec s"
  "ss_awaiting_pubcomp (session_send s i) = ss_awaiting_pubcomp s"
  "ss_queue (session_send s i) = ss_queue s"
  "ss_inbound_qos2 (session_send s i) = ss_inbound_qos2 s"
  "ss_inbound_aliases (session_send s i) = ss_inbound_aliases s"
  "is_online (session_send s i) = is_online s"
  by (simp_all add: session_send_def is_online_def split: option.split)

lemma session_send_inv [simp]: "session_inv s \<Longrightarrow> session_inv (session_send s i)"
  by (auto simp: session_inv_def inflight_ids_def session_send_def tx.push_ok split: option.splits)


subsection \<open>Properties\<close>

text \<open>C9: the packet identifier allocator. In a session that satisfies the invariant and has fewer than
  65535 identifiers in flight, \<open>next_id\<close> always returns an identifier; it is not 0, it is not in
  flight, and only the cursor of the session has moved, to the identifier's successor.\<close>

theorem next_id_correct:
  assumes "session_inv s" and "inflight_count s < 65535"
  shows "\<exists>i. next_id s = (Some i, s\<lparr>ss_next_packet_id := succ_id i\<rparr>) \<and> i \<noteq> 0 \<and> \<not> id_in_use s i"
proof -
  from next_id_available [OF assms] obtain i s' where n: "next_id s = (Some i, s')" by blast
  moreover from assms(1) have "ss_next_packet_id s \<noteq> 0" by (simp add: session_inv_def)
  ultimately show ?thesis using next_id_Some [OF n] by simp
qed

theorem next_id_correct_witness:
  "\<exists>i. next_id (session_new ''c'' 0) = (Some i, (session_new ''c'' 0)\<lparr>ss_next_packet_id := succ_id i\<rparr>)
     \<and> i \<noteq> 0 \<and> \<not> id_in_use (session_new ''c'' 0) i"
proof (rule next_id_correct)
  show "session_inv (session_new ''c'' 0)" by (rule session_new_inv)
  show "inflight_count (session_new ''c'' 0) < 65535" by (simp add: inflight_count_def session_new_def)
qed

text \<open>The subscription list is a map from filter and share name. An upsert sets the value of its
  own key, a removal clears its key, and neither touches another key; the returned flags tell whether the
  key was present.\<close>

theorem subscriptions_are_a_map:
  "subs_get k (ss_subscriptions (snd (upsert_subscription s new))) =
     (if k = sub_key new then Some new else subs_get k (ss_subscriptions s))
   \<and> (fst (upsert_subscription s new) \<longleftrightarrow> sub_key new \<in> sub_key ` set (ss_subscriptions s))
   \<and> subs_get k (ss_subscriptions (snd (remove_subscription s flt share))) =
       (if k = (flt, share) then None else subs_get k (ss_subscriptions s))
   \<and> (fst (remove_subscription s flt share) \<longleftrightarrow> (flt, share) \<in> sub_key ` set (ss_subscriptions s))"
proof (intro conjI)
  show "subs_get k (ss_subscriptions (snd (upsert_subscription s new))) =
      (if k = sub_key new then Some new else subs_get k (ss_subscriptions s))"
    using upsert_get [of k "ss_subscriptions s" new] by (simp add: upsert_subscription_def case_prod_beta)
  show "fst (upsert_subscription s new) \<longleftrightarrow> sub_key new \<in> sub_key ` set (ss_subscriptions s)"
    by (simp add: upsert_subscription_def case_prod_beta upsert_existed image_iff) metis
  show "subs_get k (ss_subscriptions (snd (remove_subscription s flt share))) =
      (if k = (flt, share) then None else subs_get k (ss_subscriptions s))"
    by (rule remove_get [OF prod.collapse [symmetric]])
qed (rule remove_iff)

end
