(* ===== verification/Delivery.thy ===== *)
theory Delivery
  imports Session "HOL-Library.Sublist"
begin

section \<open>Delivery to one session\<close>

text \<open>
  The session-level half of \<^verbatim>\<open>src/src/broker/routing.rs\<close>: sending or queueing one message
  (\<open>deliver_to_session\<close>), draining the queue while the inflight window has room (\<open>flush_queue\<close>), and
  redelivery on resume (\<open>resume_delivery\<close>). One pass through the body of the \<^verbatim>\<open>while\<close> loop of
  \<^verbatim>\<open>flush_queue\<close> is \<open>flush_step\<close>; the loop is \<open>flush_loop\<close>, which ends because every pass that goes
  on has taken a message off the queue. The length of an encoded packet is the argument
  \<open>encoded_len P\<close>, as the encoder belongs to the protocol crate.
\<close>

definition exceeds_wire_size :: "protocol \<Rightarrow> publish \<Rightarrow> u32 \<Rightarrow> bool" where
  "exceeds_wire_size P p cap =
     (case encoded_len P p of Some n \<Rightarrow> cap < (of_nat n :: u32) | None \<Rightarrow> False)"

text \<open>\<^verbatim>\<open>session.client_max_packet_size.is_some_and(|cap| exceeds_wire_size(&publish, cap))\<close>\<close>

definition oversize :: "protocol \<Rightarrow> session \<Rightarrow> publish \<Rightarrow> bool" where
  "oversize P s p =
     (case ss_client_max_packet_size s of None \<Rightarrow> False | Some cap \<Rightarrow> exceeds_wire_size P p cap)"

definition record_inflight :: "qos \<Rightarrow> u16 \<Rightarrow> publish \<Rightarrow> session \<Rightarrow> session" where
  "record_inflight q i p s =
     (case q of
        AtLeastOnce \<Rightarrow> s\<lparr>ss_awaiting_puback := hm_insert i p (ss_awaiting_puback s)\<rparr>
      | ExactlyOnce \<Rightarrow> s\<lparr>ss_awaiting_pubrec := hm_insert i p (ss_awaiting_pubrec s)\<rparr>
      | AtMostOnce \<Rightarrow> s)"

text \<open>The tail of \<^verbatim>\<open>deliver_to_session\<close>: queue for later, dropping the oldest at the bound.\<close>

definition enqueue :: "nat \<Rightarrow> pending \<Rightarrow> session \<Rightarrow> bool \<times> session" where
  "enqueue max_queued pd s =
     (if 0 < max_queued \<and> max_queued \<le> length (ss_queue s)
      then (True, s\<lparr>ss_queue := tl (ss_queue s) @ [pd]\<rparr>)
      else (False, s\<lparr>ss_queue := ss_queue s @ [pd]\<rparr>))"

definition deliver_qos0 ::
    "protocol \<Rightarrow> u64 \<Rightarrow> session \<Rightarrow> message \<Rightarrow> bool \<Rightarrow> u32 list \<Rightarrow> bool \<times> session" where
  "deliver_qos0 P now s m retain sub_ids =
     (case ss_out s of
        None \<Rightarrow> (False, s)
      | Some tx \<Rightarrow>
          let p = to_publish now m AtMostOnce None retain sub_ids
          in if oversize P s p then (True, s)
             else (case try_send tx (Send p) of
                     (True, tx') \<Rightarrow> (False, s\<lparr>ss_out := Some tx'\<rparr>)
                   | (False, tx') \<Rightarrow> (True, s\<lparr>ss_out := Some tx'\<rparr>)))"

text \<open>The send attempt for QoS 1 and 2: \<open>Some\<close> session when the packet went out and its identifier is
  recorded, together with the session as the attempt leaves it otherwise.\<close>

definition attempt_send ::
    "u64 \<Rightarrow> session \<Rightarrow> message \<Rightarrow> qos \<Rightarrow> bool \<Rightarrow> u32 list \<Rightarrow> session option \<times> session" where
  "attempt_send now s m q retain sub_ids =
     (if is_online s \<and> window_open s then
        (case next_id s of
           (None, s1) \<Rightarrow> (None, s1)
         | (Some i, s1) \<Rightarrow>
             let p = to_publish now m q (Some i) retain sub_ids
             in (case ss_out s1 of
                   None \<Rightarrow> (None, s1)
                 | Some tx \<Rightarrow>
                     (case try_send tx (Send p) of
                        (True, tx') \<Rightarrow> (Some (record_inflight q i p (s1\<lparr>ss_out := Some tx'\<rparr>)), s1)
                      | (False, tx') \<Rightarrow> (None, s1\<lparr>ss_out := Some tx'\<rparr>))))
      else (None, s))"

definition deliver_to_session ::
    "protocol \<Rightarrow> u64 \<Rightarrow> session \<Rightarrow> message \<Rightarrow> qos \<Rightarrow> bool \<Rightarrow> u32 list \<Rightarrow> nat \<Rightarrow> bool \<times> session" where
  "deliver_to_session P now s m q retain sub_ids max_queued =
     (if is_expired now m then (False, s)
      else if q = AtMostOnce then deliver_qos0 P now s m retain sub_ids
      else if oversize P s (to_publish now m q (Some 0) retain sub_ids) then (True, s)
      else (case attempt_send now s m q retain sub_ids of
              (Some s', _) \<Rightarrow> (False, s')
            | (None, s1) \<Rightarrow>
                enqueue max_queued
                  \<lparr>pd_message = m, pd_qos = q, pd_retain = retain, pd_subscription_ids = sub_ids\<rparr> s1))"

text \<open>One pass of the loop: \<open>Stop\<close> for \<^verbatim>\<open>break\<close> or a false loop condition, \<open>Next dropped s\<close> to go on.\<close>

datatype flush_result = Stop session | Next bool session

definition flush_step :: "protocol \<Rightarrow> u64 \<Rightarrow> session \<Rightarrow> flush_result" where
  "flush_step P now s =
     (if is_online s \<and> window_open s then
        (case ss_queue s of
           [] \<Rightarrow> Stop s
         | pd # rest \<Rightarrow>
             let s1 = s\<lparr>ss_queue := rest\<rparr>
             in if is_expired now (pd_message pd) then Next False s1
                else (case next_id s1 of
                        (None, s2) \<Rightarrow> Stop (s2\<lparr>ss_queue := pd # ss_queue s2\<rparr>)
                      | (Some i, s2) \<Rightarrow>
                          let p = to_publish now (pd_message pd) (pd_qos pd) (Some i) (pd_retain pd)
                                    (pd_subscription_ids pd)
                          in if oversize P s2 p then Next True s2
                             else (case ss_out s2 of
                                     None \<Rightarrow> Stop (s2\<lparr>ss_queue := pd # ss_queue s2\<rparr>)
                                   | Some tx \<Rightarrow>
                                       (case try_send tx (Send p) of
                                          (False, tx') \<Rightarrow>
                                            Stop (s2\<lparr>ss_out := Some tx', ss_queue := pd # ss_queue s2\<rparr>)
                                        | (True, tx') \<Rightarrow>
                                            Next False (record_inflight (pd_qos pd) i p
                                                          (s2\<lparr>ss_out := Some tx'\<rparr>))))))
      else Stop s)"

lemma record_inflight_queue [simp]: "ss_queue (record_inflight q i p s) = ss_queue s"
  by (simp add: record_inflight_def split: qos.split)

lemma next_id_queue: "next_id s = (r, s') \<Longrightarrow> ss_queue s' = ss_queue s"
  using next_id_fields(14) [of s] by simp

lemma flush_step_queue:
  assumes "flush_step P now s = Next d s'"
  shows "ss_queue s \<noteq> [] \<and> ss_queue s' = tl (ss_queue s)"
proof -
  from assms obtain pd rest where q: "ss_queue s = pd # rest"
    by (auto simp: flush_step_def split: if_splits list.splits)
  with assms show ?thesis
    by (auto simp: flush_step_def Let_def split: if_splits option.splits prod.splits bool.splits
        dest!: next_id_queue)
qed

function flush_loop :: "protocol \<Rightarrow> u64 \<Rightarrow> u64 \<Rightarrow> session \<Rightarrow> u64 \<times> session" where
  "flush_loop P now dropped s =
     (case flush_step P now s of
        Stop s' \<Rightarrow> (dropped, s')
      | Next d s' \<Rightarrow> flush_loop P now (if d then dropped + 1 else dropped) s')"
  by pat_completeness auto
termination
proof (relation "measure (\<lambda>(P, now, dropped, s). length (ss_queue s))")
  show "wf (measure (\<lambda>(P, now, dropped, s). length (ss_queue s)))" by simp
next
  fix P now dropped s d s'
  assume "flush_step P now s = Next d s'"
  from flush_step_queue [OF this]
  show "((P, now, if d then dropped + 1 else dropped, s'), P, now, dropped, s)
          \<in> measure (\<lambda>(P, now, dropped, s). length (ss_queue s))"
    by (cases "ss_queue s") auto
qed

declare flush_loop.simps [simp del]

definition flush_queue :: "protocol \<Rightarrow> u64 \<Rightarrow> session \<Rightarrow> u64 \<times> session" where
  "flush_queue P now s = flush_loop P now 0 s"

text \<open>What a resumed session is sent again: unacknowledged PUBLISH packets with DUP set and their
  identifiers kept, then a PUBREL per identifier that awaits its PUBCOMP.\<close>

definition resume_items :: "session \<Rightarrow> outgoing list" where
  "resume_items s =
     map (\<lambda>(_, p). Send (p\<lparr>pub_dup := True\<rparr>)) (ss_awaiting_puback s)
     @ map (\<lambda>(_, p). Send (p\<lparr>pub_dup := True\<rparr>)) (ss_awaiting_pubrec s)
     @ map (\<lambda>i. Control (Pubrel (puback_new i Success))) (ss_awaiting_pubcomp s)"

definition resume_delivery :: "protocol \<Rightarrow> u64 \<Rightarrow> session \<Rightarrow> u64 \<times> session" where
  "resume_delivery P now s =
     (if ss_out s = None then (0, s)
      else flush_queue P now (foldl session_send s (resume_items s)))"


subsection \<open>What delivery leaves alone\<close>

text \<open>Delivery only touches the channel, the identifier cursor, the inflight tables and the queue;
  \<open>fixed_part\<close> is everything else, and a session stays online or offline.\<close>

definition fixed_part :: "session \<Rightarrow> session" where
  "fixed_part s = s\<lparr>ss_out := None, ss_next_packet_id := 1, ss_awaiting_puback := [],
     ss_awaiting_pubrec := [], ss_awaiting_pubcomp := [], ss_queue := []\<rparr>"

definition same_conn :: "session \<Rightarrow> session \<Rightarrow> bool" where
  "same_conn s s' \<longleftrightarrow> fixed_part s' = fixed_part s \<and> is_online s' = is_online s"

lemma same_conn_refl [simp, intro]: "same_conn s s"
  by (simp add: same_conn_def)

lemma same_conn_trans [trans]: "same_conn a b \<Longrightarrow> same_conn b c \<Longrightarrow> same_conn a c"
  by (simp add: same_conn_def)

lemma same_conn_fields:
  assumes "same_conn s s'"
  shows "ss_client_id s' = ss_client_id s" "ss_identity s' = ss_identity s" "ss_epoch s' = ss_epoch s"
    "ss_subscriptions s' = ss_subscriptions s" "ss_persistent s' = ss_persistent s"
    "ss_session_expiry_interval s' = ss_session_expiry_interval s" "ss_will s' = ss_will s"
    "ss_client_receive_maximum s' = ss_client_receive_maximum s"
    "ss_client_max_packet_size s' = ss_client_max_packet_size s"
    "ss_inbound_qos2 s' = ss_inbound_qos2 s" "ss_inbound_aliases s' = ss_inbound_aliases s"
    "is_online s' = is_online s"
  using assms by (cases s; cases s'; simp add: same_conn_def fixed_part_def)+

lemma same_conn_updates [simp]:
  "same_conn s (s\<lparr>ss_queue := q\<rparr>)" "same_conn s (s\<lparr>ss_next_packet_id := i\<rparr>)"
  "same_conn s (record_inflight k i p s)" "same_conn s (session_send s it)"
  "same_conn s (s\<lparr>ss_awaiting_puback := a\<rparr>)" "same_conn s (s\<lparr>ss_awaiting_pubrec := b\<rparr>)"
  "same_conn s (s\<lparr>ss_awaiting_pubcomp := c\<rparr>)"
  "ss_out s = Some tx \<Longrightarrow> same_conn s (s\<lparr>ss_out := Some tx'\<rparr>)"
  by (simp_all add: same_conn_def fixed_part_def record_inflight_def session_send_def is_online_def
      split: qos.split option.split)

lemma same_conn_next_id: "next_id s = (r, s') \<Longrightarrow> same_conn s s'"
  using next_id_frame [of s] by auto

lemma same_conn_enqueue [simp]: "same_conn s (snd (enqueue n pd s))"
  by (simp add: enqueue_def)

lemma same_conn_qos0 [simp]: "same_conn s (snd (deliver_qos0 P now s m r ids))"
  by (auto simp: deliver_qos0_def Let_def split: option.split prod.split bool.split)

lemma next_id_out: "next_id s = (r, s') \<Longrightarrow> ss_out s' = ss_out s"
  using next_id_fields(4) [of s] by simp

lemma same_conn_attempt:
  assumes "attempt_send now s m q r ids = (res, s1)"
  shows "same_conn s s1" and "\<And>s'. res = Some s' \<Longrightarrow> same_conn s s'"
proof -
  have upd: "same_conn s (record_inflight q i p (t\<lparr>ss_out := Some tx'\<rparr>))" "same_conn s (t\<lparr>ss_out := Some tx'\<rparr>)"
    if "next_id s = (k, t)" "ss_out t = Some tx" for i p t tx tx' k
    using same_conn_next_id [OF that(1)] same_conn_updates(8) [OF that(2)] same_conn_updates(3)
    by (blast intro: same_conn_trans)+
  from assms show "same_conn s s1"
    by (auto simp: attempt_send_def Let_def split: if_splits prod.splits option.splits bool.splits
        intro: same_conn_next_id upd)
  fix s' assume "res = Some s'"
  with assms show "same_conn s s'"
    by (auto simp: attempt_send_def Let_def split: if_splits prod.splits option.splits bool.splits
        intro: upd)
qed

lemma same_conn_deliver [simp]: "same_conn s (snd (deliver_to_session P now s m q r ids n))"
  by (auto simp: deliver_to_session_def split: prod.split option.split
      dest: same_conn_attempt intro: same_conn_trans [OF _ same_conn_enqueue])


subsection \<open>The session invariant\<close>

lemma next_id_loop_cursor: "ss_next_packet_id s \<noteq> 0 \<Longrightarrow> ss_next_packet_id (snd (next_id_loop n s)) \<noteq> 0"
  by (induction n arbitrary: s) (auto simp: Let_def)

lemma next_id_inv: "session_inv s \<Longrightarrow> next_id s = (r, s') \<Longrightarrow> session_inv s'"
proof -
  assume inv: "session_inv s" and eq: "next_id s = (r, s')"
  from next_id_frame [of s] eq obtain j where s': "s' = s\<lparr>ss_next_packet_id := j\<rparr>" by auto
  from inv have "ss_next_packet_id s \<noteq> 0" by (simp add: session_inv_def)
  from next_id_loop_cursor [OF this, of 65536] eq have "ss_next_packet_id s' \<noteq> 0"
    by (simp add: next_id_def)
  with inv s' show ?thesis by (simp add: session_inv_def inflight_ids_def)
qed

lemma session_inv_queue:
  "session_inv s \<Longrightarrow> \<forall>pd \<in> set q. pd_qos pd \<noteq> AtMostOnce \<Longrightarrow> session_inv (s\<lparr>ss_queue := q\<rparr>)"
  by (simp add: session_inv_def inflight_ids_def)

lemma session_inv_out: "session_inv s \<Longrightarrow> channel_ok tx \<Longrightarrow> session_inv (s\<lparr>ss_out := Some tx\<rparr>)"
  by (simp add: session_inv_def inflight_ids_def)

lemma session_inv_tx: "session_inv s \<Longrightarrow> ss_out s = Some tx \<Longrightarrow> channel_ok tx"
  by (simp add: session_inv_def)

lemma session_inv_qos: "session_inv s \<Longrightarrow> pd \<in> set (ss_queue s) \<Longrightarrow> pd_qos pd \<noteq> AtMostOnce"
  by (simp add: session_inv_def)

text \<open>A session after a send: a push into its own channel.\<close>

lemma session_inv_sent:
  assumes "session_inv s" and "ss_out s = Some tx" and "try_send tx it = (b, tx')"
  shows "session_inv (s\<lparr>ss_out := Some tx'\<rparr>)"
  using session_inv_out [OF assms(1)] tx.push_ok [OF session_inv_tx [OF assms(1,2)], of it] assms(3)
  by simp

lemma record_inflight_inv:
  assumes "session_inv s" and "\<not> id_in_use s i" and "i \<noteq> 0"
    and "pub_qos p = q" and "pub_packet_id p = Some i"
  shows "session_inv (record_inflight q i p s)"
proof -
  from assms(2) have "hm_get i (ss_awaiting_puback s) = None" "hm_get i (ss_awaiting_pubrec s) = None"
    by (simp_all add: id_in_use_def)
  moreover from assms(2) have fresh: "i \<notin> set (inflight_ids s)" by (simp add: id_in_use_ids)
  ultimately have "hm_insert i p (ss_awaiting_puback s) = ss_awaiting_puback s @ [(i, p)]"
    "hm_insert i p (ss_awaiting_pubrec s) = ss_awaiting_pubrec s @ [(i, p)]"
    by (simp_all add: hm_insert_fresh)
  then show ?thesis
    using assms fresh
    by (cases q) (auto simp: record_inflight_def session_inv_def inflight_ids_def stored_ok_def)
qed

lemma enqueue_inv:
  "session_inv s \<Longrightarrow> pd_qos pd \<noteq> AtMostOnce \<Longrightarrow> session_inv (snd (enqueue n pd s))"
  by (auto simp: enqueue_def intro!: session_inv_queue dest: session_inv_qos list.set_sel(2)
      split: if_splits)
    (metis list.sel(2) list.set_sel(2) session_inv_qos)

text \<open>A send that succeeds under a fresh identifier.\<close>

lemma sent_inv:
  assumes "session_inv s" and "next_id s = (Some i, s1)" and "ss_out s1 = Some tx"
    and "try_send tx it = (b, tx')" and "pub_qos p = q" and "pub_packet_id p = Some i"
  shows "session_inv (record_inflight q i p (s1\<lparr>ss_out := Some tx'\<rparr>))"
proof (rule record_inflight_inv)
  from assms(1) have nz: "ss_next_packet_id s \<noteq> 0" by (simp add: session_inv_def)
  from next_id_inv [OF assms(1,2)] have "session_inv s1" .
  from session_inv_sent [OF this assms(3,4)] show "session_inv (s1\<lparr>ss_out := Some tx'\<rparr>)" .
  from next_id_Some [OF assms(2) nz] show "\<not> id_in_use (s1\<lparr>ss_out := Some tx'\<rparr>) i" "i \<noteq> 0"
    by (simp_all add: id_in_use_def)
qed (use assms in simp_all)

lemma deliver_qos0_inv: "session_inv s \<Longrightarrow> session_inv (snd (deliver_qos0 P now s m r ids))"
  by (auto simp: deliver_qos0_def Let_def split: option.split prod.split bool.split
      intro: session_inv_sent)

lemma attempt_send_inv:
  assumes "session_inv s" and "q \<noteq> AtMostOnce" and "attempt_send now s m q r ids = (res, s1)"
  shows "session_inv s1" and "\<And>s'. res = Some s' \<Longrightarrow> session_inv s'"
proof -
  show "session_inv s1" using assms(1,3)
    by (auto simp: attempt_send_def Let_def split: if_splits prod.splits option.splits bool.splits
        intro: next_id_inv session_inv_sent)
  fix s' assume "res = Some s'"
  with assms show "session_inv s'"
    by (auto simp: attempt_send_def Let_def split: if_splits prod.splits option.splits bool.splits
        intro!: sent_inv [of s])
qed

lemma deliver_inv:
  "session_inv s \<Longrightarrow> session_inv (snd (deliver_to_session P now s m q r ids n))"
  by (auto simp: deliver_to_session_def deliver_qos0_inv split: prod.split option.split
      dest: attempt_send_inv(2) intro!: enqueue_inv dest: attempt_send_inv(1))

text \<open>An invariant of one pass is an invariant of the loop.\<close>

lemma flush_loop_invariant:
  assumes next_pass: "\<And>s d s'. I s \<Longrightarrow> flush_step P now s = Next d s' \<Longrightarrow> I s'"
    and last_pass: "\<And>s s'. I s \<Longrightarrow> flush_step P now s = Stop s' \<Longrightarrow> I s'"
  shows "I s \<Longrightarrow> I (snd (flush_loop P now k s))"
proof (induction "length (ss_queue s)" arbitrary: s k rule: less_induct)
  case less
  show ?case
  proof (cases "flush_step P now s")
    case (Stop s')
    with less.prems last_pass show ?thesis by (subst flush_loop.simps) simp
  next
    case (Next d s')
    from flush_step_queue [OF this] have "length (ss_queue s') < length (ss_queue s)"
      by (cases "ss_queue s") auto
    from less.hyps [OF this next_pass [OF less.prems Next]] Next show ?thesis
      by (subst flush_loop.simps) simp
  qed
qed


text \<open>A pass that stops changes nothing but, at most, the identifier cursor: a message that could not be
  sent is back at the front.\<close>

lemma try_send_False: "try_send tx it = (False, tx') \<Longrightarrow> tx' = tx"
  by (simp add: try_send_def split: if_splits)

lemma flush_step_Stop:
  assumes "flush_step P now s = Stop s'"
  shows "\<exists>j. s' = s\<lparr>ss_next_packet_id := j\<rparr> \<and> (ss_next_packet_id s \<noteq> 0 \<longrightarrow> j \<noteq> 0)"
proof (cases "is_online s \<and> window_open s \<and> ss_queue s \<noteq> []")
  case False
  with assms have "s' = s" by (auto simp: flush_step_def split: if_splits list.splits)
  then show ?thesis by (intro exI [of _ "ss_next_packet_id s"]) simp
next
  case True
  then obtain pd rest where q: "ss_queue s = pd # rest" by (cases "ss_queue s") auto
  let ?s1 = "s\<lparr>ss_queue := rest\<rparr>"
  obtain r s2 where n: "next_id ?s1 = (r, s2)" by fastforce
  from next_id_frame [of ?s1] n obtain j where s2: "s2 = s\<lparr>ss_queue := rest, ss_next_packet_id := j\<rparr>"
    by auto
  have "ss_next_packet_id s \<noteq> 0 \<longrightarrow> j \<noteq> 0"
    using next_id_loop_cursor [of ?s1 65536] n s2 by (simp add: next_id_def)
  moreover have "s' = s\<lparr>ss_next_packet_id := j\<rparr>"
    using assms True q n s2
    by (auto simp: flush_step_def Let_def split: if_splits option.splits prod.splits bool.splits
        dest!: try_send_False)
  ultimately show ?thesis by blast
qed

lemma flush_step_inv:
  assumes inv: "session_inv s"
  shows "flush_step P now s = Next d s' \<Longrightarrow> session_inv s'"
    and "flush_step P now s = Stop s' \<Longrightarrow> session_inv s'"
proof -
  assume step: "flush_step P now s = Next d s'"
  from flush_step_queue [OF step] obtain pd rest where q: "ss_queue s = pd # rest"
    by (cases "ss_queue s") auto
  with inv have "pd_qos pd \<noteq> AtMostOnce" "session_inv (s\<lparr>ss_queue := rest\<rparr>)"
    by (auto intro!: session_inv_queue dest: session_inv_qos)
  with step q show "session_inv s'"
    by (auto simp: flush_step_def Let_def intro: next_id_inv sent_inv
        split: if_splits list.splits option.splits prod.splits bool.splits)
next
  assume "flush_step P now s = Stop s'"
  from flush_step_Stop [OF this] inv show "session_inv s'"
    by (auto simp: session_inv_def inflight_ids_def simp del: distinct_append)
qed

lemma flush_queue_inv: "session_inv s \<Longrightarrow> session_inv (snd (flush_queue P now s))"
  unfolding flush_queue_def by (rule flush_loop_invariant [OF flush_step_inv])

lemma flush_step_conn:
  "flush_step P now s = Next d s' \<Longrightarrow> same_conn s s'" "flush_step P now s = Stop s' \<Longrightarrow> same_conn s s'"
proof -
  assume step: "flush_step P now s = Next d s'"
  from flush_step_queue [OF step] obtain pd rest where q: "ss_queue s = pd # rest"
    by (cases "ss_queue s") auto
  let ?s1 = "s\<lparr>ss_queue := rest\<rparr>"
  obtain r s2 where n: "next_id ?s1 = (r, s2)" by fastforce
  from same_conn_trans [OF same_conn_updates(1) same_conn_next_id [OF n]] have s2: "same_conn s s2" .
  have "same_conn s2 (record_inflight k i p (s2\<lparr>ss_out := Some tx'\<rparr>))" if "ss_out s2 = Some tx"
    for k i p tx tx'
    using same_conn_updates(8) [OF that] same_conn_updates(3) by (blast intro: same_conn_trans)
  with step q n s2 show "same_conn s s'"
    by (auto simp: flush_step_def Let_def intro: same_conn_trans
        split: if_splits list.splits option.splits prod.splits bool.splits)
next
  assume "flush_step P now s = Stop s'"
  from flush_step_Stop [OF this] show "same_conn s s'" by auto
qed

lemma flush_queue_conn [simp]: "same_conn s (snd (flush_queue P now s))"
  unfolding flush_queue_def
  by (rule flush_loop_invariant [of "same_conn s"]) (auto intro: same_conn_trans dest: flush_step_conn)

lemma send_all_conn [simp]: "same_conn s (foldl session_send s its)"
  by (induction its rule: rev_induct) (auto intro: same_conn_trans)

lemma send_all_inv: "session_inv s \<Longrightarrow> session_inv (foldl session_send s its)"
  by (induction its rule: rev_induct) auto

lemma resume_conn [simp]: "same_conn s (snd (resume_delivery P now s))"
  by (auto simp: resume_delivery_def intro: same_conn_trans [OF send_all_conn flush_queue_conn])

lemma resume_inv: "session_inv s \<Longrightarrow> session_inv (snd (resume_delivery P now s))"
  by (auto simp: resume_delivery_def intro: flush_queue_inv send_all_inv)


subsection \<open>Bounds\<close>

text \<open>The window: delivery adds to the packets in flight only below the client's Receive Maximum. The
  queue: delivery keeps it within the configured bound.\<close>

definition receive_max :: "session \<Rightarrow> nat" where
  "receive_max s = unat (ss_client_receive_maximum s)"

lemma record_inflight_count:
  "\<not> id_in_use s i \<Longrightarrow>
   inflight_count (record_inflight q i p s) = inflight_count s + (if q = AtMostOnce then 0 else 1)"
  by (cases q) (simp_all add: record_inflight_def inflight_count_def length_hm_insert id_in_use_def)

lemma next_id_count: "next_id s = (r, s') \<Longrightarrow> inflight_count s' = inflight_count s"
  using next_id_frame [of s] by (auto simp: inflight_count_def)

lemma inflight_count_simps [simp]:
  "inflight_count (s\<lparr>ss_out := x\<rparr>) = inflight_count s"
  "inflight_count (s\<lparr>ss_queue := y\<rparr>) = inflight_count s"
  "inflight_count (s\<lparr>ss_next_packet_id := z\<rparr>) = inflight_count s"
  "inflight_count (session_send s it) = inflight_count s"
  by (simp_all add: inflight_count_def)

lemma id_in_use_simps [simp]:
  "id_in_use (s\<lparr>ss_out := x\<rparr>) = id_in_use s"
  "id_in_use (s\<lparr>ss_queue := y\<rparr>) = id_in_use s"
  by (rule ext; simp add: id_in_use_def)+

lemma enqueue_count [simp]: "inflight_count (snd (enqueue n pd s)) = inflight_count s"
  by (simp add: enqueue_def)

lemma sent_count:
  assumes "next_id s = (Some i, s1)" and "ss_next_packet_id s \<noteq> 0"
  shows "inflight_count (record_inflight q i p (s1\<lparr>ss_out := x\<rparr>)) \<le> Suc (inflight_count s)"
proof -
  from next_id_Some [OF assms] have "\<not> id_in_use (s1\<lparr>ss_out := x\<rparr>) i" by simp
  from record_inflight_count [OF this, of q p] next_id_count [OF assms(1)] show ?thesis by simp
qed

lemma deliver_window:
  assumes "session_inv s"
  shows "inflight_count (snd (deliver_to_session P now s m q r ids n)) \<le> max (inflight_count s) (receive_max s)"
proof -
  from assms have nz: "ss_next_packet_id s \<noteq> 0" by (simp add: session_inv_def)
  have "inflight_count s1 = inflight_count s \<and> (\<forall>s'. res = Some s' \<longrightarrow>
          inflight_count s' \<le> max (inflight_count s) (receive_max s))"
    if "attempt_send now s m q r ids = (res, s1)" for res s1
    using that
    by (auto simp: attempt_send_def Let_def window_open_def receive_max_def
        split: if_splits prod.splits option.splits bool.splits
        dest: next_id_count intro!: le_trans [OF sent_count [OF _ nz]])
  then show ?thesis
    by (auto simp: deliver_to_session_def deliver_qos0_def Let_def
        split: prod.split option.split bool.split)
qed

lemma enqueue_bound:
  "length (ss_queue (snd (enqueue n pd s))) \<le> (if 0 < n then max n (length (ss_queue s)) else Suc (length (ss_queue s)))"
  by (auto simp: enqueue_def)

lemma attempt_send_queue:
  "attempt_send now s m q r ids = (res, s1) \<Longrightarrow>
   ss_queue s1 = ss_queue s \<and> (\<forall>s'. res = Some s' \<longrightarrow> ss_queue s' = ss_queue s)"
  by (auto simp: attempt_send_def Let_def split: if_splits prod.splits option.splits bool.splits
      dest!: next_id_queue)

lemma deliver_queue_bound:
  assumes "0 < n" and "length (ss_queue s) \<le> n"
  shows "length (ss_queue (snd (deliver_to_session P now s m q r ids n))) \<le> n"
  using assms
  by (auto simp: deliver_to_session_def deliver_qos0_def Let_def
      split: prod.split option.split bool.split dest!: attempt_send_queue
      intro!: le_trans [OF enqueue_bound])

lemma flush_step_queue_le:
  "flush_step P now s = Next d s' \<Longrightarrow> length (ss_queue s') \<le> length (ss_queue s)"
  "flush_step P now s = Stop s' \<Longrightarrow> length (ss_queue s') \<le> length (ss_queue s)"
  by (auto dest!: flush_step_queue flush_step_Stop)

lemma flush_queue_len: "length (ss_queue (snd (flush_queue P now s))) \<le> length (ss_queue s)"
  unfolding flush_queue_def
  by (rule flush_loop_invariant [where I = "\<lambda>t. length (ss_queue t) \<le> length (ss_queue s)"])
    (auto dest: flush_step_queue_le)

lemma send_all_queue [simp]: "ss_queue (foldl session_send s its) = ss_queue s"
  by (induction its rule: rev_induct) auto

lemma resume_queue_len: "length (ss_queue (snd (resume_delivery P now s))) \<le> length (ss_queue s)"
  using flush_queue_len [of P now "foldl session_send s (resume_items s)"]
  by (simp add: resume_delivery_def)


lemma same_conn_receive_max: "same_conn s s' \<Longrightarrow> receive_max s' = receive_max s"
  by (simp add: receive_max_def same_conn_fields)

lemma flush_step_count:
  assumes "session_inv s" and "flush_step P now s = Next d s'"
  shows "inflight_count s' \<le> max (inflight_count s) (receive_max s)"
proof -
  from assms(2) have w: "window_open s" by (simp add: flush_step_def split: if_splits)
  from flush_step_queue [OF assms(2)] obtain pd rest where q: "ss_queue s = pd # rest"
    by (cases "ss_queue s") auto
  let ?s1 = "s\<lparr>ss_queue := rest\<rparr>"
  from assms(1) have nz: "ss_next_packet_id ?s1 \<noteq> 0" by (simp add: session_inv_def)
  from assms(2) q have "inflight_count s' \<le> Suc (inflight_count s)"
    by (auto simp: flush_step_def Let_def
        split: if_splits option.splits prod.splits bool.splits
        dest: next_id_count intro!: le_trans [OF sent_count [OF _ nz]])
  with w show ?thesis by (simp add: window_open_def receive_max_def)
qed

lemma flush_queue_window:
  assumes "session_inv s"
  shows "inflight_count (snd (flush_queue P now s)) \<le> max (inflight_count s) (receive_max s)"
proof -
  let ?I = "\<lambda>t. session_inv t \<and> same_conn s t \<and> inflight_count t \<le> max (inflight_count s) (receive_max s)"
  have "?I (snd (flush_queue P now s))"
    unfolding flush_queue_def
  proof (rule flush_loop_invariant [where I = ?I])
    fix t d t' assume I: "?I t" and step: "flush_step P now t = Next d t'"
    from flush_step_count [OF _ step] same_conn_receive_max I
    have "inflight_count t' \<le> max (inflight_count s) (receive_max s)" by fastforce
    with I step show "?I t'" by (auto dest: flush_step_inv flush_step_conn intro: same_conn_trans)
  next
    fix t t' assume I: "?I t" and step: "flush_step P now t = Stop t'"
    from flush_step_Stop [OF step] I have "inflight_count t' \<le> max (inflight_count s) (receive_max s)"
      by auto
    with I step show "?I t'" by (auto dest: flush_step_inv flush_step_conn intro: same_conn_trans)
  qed (use assms in auto)
  then show ?thesis by blast
qed

subsection \<open>Order and completeness of a flush\<close>

definition sent_items :: "session \<Rightarrow> outgoing list" where
  "sent_items s = (case ss_out s of None \<Rightarrow> [] | Some tx \<Rightarrow> ch_buf tx)"

text \<open>What identifies a message on the wire, apart from its identifier and its expiry.\<close>

definition body :: "publish \<Rightarrow> string \<times> bytes \<times> qos \<times> bool" where
  "body p = (pub_topic p, pub_payload p, pub_qos p, pub_retain p)"

definition pending_body :: "pending \<Rightarrow> string \<times> bytes \<times> qos \<times> bool" where
  "pending_body pd = (m_topic (pd_message pd), m_payload (pd_message pd), pd_qos pd, pd_retain pd)"

lemma body_to_publish [simp]: "body (to_publish now m q i r ids) = (m_topic m, m_payload m, q, r)"
  by (simp add: body_def)

lemma sent_items_simps [simp]:
  "sent_items (s\<lparr>ss_queue := q\<rparr>) = sent_items s"
  "sent_items (s\<lparr>ss_next_packet_id := j\<rparr>) = sent_items s"
  "sent_items (record_inflight k i p s) = sent_items s"
  "sent_items (s\<lparr>ss_out := Some tx\<rparr>) = ch_buf tx"
  by (simp_all add: sent_items_def record_inflight_def split: qos.split)

lemma next_id_sent: "next_id s = (r, s') \<Longrightarrow> sent_items s' = sent_items s"
  using next_id_frame [of s] by auto

lemma try_send_True: "try_send tx it = (True, tx') \<Longrightarrow> ch_buf tx' = ch_buf tx @ [it]"
  by (auto simp: try_send_def split: if_splits)

lemma flush_step_Next:
  assumes "flush_step P now s = Next d s'"
  obtains pd rest ps where "ss_queue s = pd # rest" and "ss_queue s' = rest"
    and "sent_items s' = sent_items s @ map Send ps"
    and "d \<longleftrightarrow> ps = [] \<and> \<not> is_expired now (pd_message pd)"
    and "map body ps = (if is_expired now (pd_message pd) \<or> d then [] else [pending_body pd])"
proof -
  from flush_step_queue [OF assms] obtain pd rest where q: "ss_queue s = pd # rest" "ss_queue s' = rest"
    by (cases "ss_queue s") auto
  let ?ex = "is_expired now (pd_message pd)"
  have "\<exists>ps. sent_items s' = sent_items s @ map Send ps \<and> (d \<longleftrightarrow> ps = [] \<and> \<not> ?ex)
           \<and> map body ps = (if ?ex \<or> d then [] else [pending_body pd])"
  proof (cases "?ex \<or> d")
    case True
    with assms q show ?thesis
      by (intro exI [of _ "[]"],
        auto simp: flush_step_def Let_def pending_body_def dest: next_id_sent
          split: if_splits option.splits prod.splits bool.splits, metis sent_items_simps(1))
  next
    case False
    with assms q obtain i s2 tx tx' p where n: "next_id (s\<lparr>ss_queue := rest\<rparr>) = (Some i, s2)"
      and tx: "ss_out s2 = Some tx" and
      p: "p = to_publish now (pd_message pd) (pd_qos pd) (Some i) (pd_retain pd) (pd_subscription_ids pd)"
      and snd: "try_send tx (Send p) = (True, tx')"
      and s': "s' = record_inflight (pd_qos pd) i p (s2\<lparr>ss_out := Some tx'\<rparr>)"
      by (auto simp: flush_step_def Let_def split: if_splits option.splits prod.splits bool.splits)
    have "sent_items s = ch_buf tx" using next_id_sent [OF n] tx by (simp add: sent_items_def)
    with s' try_send_True [OF snd] have "sent_items s' = sent_items s @ map Send [p]" by simp
    with False show ?thesis by (intro exI [of _ "[p]"]) (simp add: p pending_body_def)
  qed
  with q that show thesis by blast
qed

definition live :: "u64 \<Rightarrow> pending \<Rightarrow> bool" where
  "live now pd \<longleftrightarrow> \<not> is_expired now (pd_message pd)"

text \<open>A flush takes messages off the front of the queue only. What it puts into the channel is, in
  queue order, what it took off, less the expired messages and the ones it counts as dropped.\<close>

lemma flush_loop_order:
  "flush_loop P now k s = (k', s') \<Longrightarrow>
   \<exists>n ps. ss_queue s' = drop n (ss_queue s) \<and> sent_items s' = sent_items s @ map Send ps
     \<and> subseq (map body ps) (map pending_body (filter (live now) (take n (ss_queue s))))
     \<and> k' = k + of_nat (length (filter (live now) (take n (ss_queue s))) - length ps)"
proof (induction "length (ss_queue s)" arbitrary: s k rule: less_induct)
  case less
  show ?case
  proof (cases "flush_step P now s")
    case (Stop t)
    with less.prems have "k' = k" "s' = t" by (simp_all add: flush_loop.simps [of P now k s])
    moreover from flush_step_Stop [OF Stop] obtain j where "t = s\<lparr>ss_next_packet_id := j\<rparr>" by blast
    ultimately show ?thesis by (intro exI [of _ 0] exI [of _ "[]"]) simp
  next
    case (Next d t)
    then obtain pd rest ps where q: "ss_queue s = pd # rest" "ss_queue t = rest"
      and snd: "sent_items t = sent_items s @ map Send ps"
      and d: "d \<longleftrightarrow> ps = [] \<and> \<not> is_expired now (pd_message pd)"
      and b: "map body ps = (if is_expired now (pd_message pd) \<or> d then [] else [pending_body pd])"
      by (rule flush_step_Next)
    from less.prems Next have rec: "flush_loop P now (if d then k + 1 else k) t = (k', s')"
      by (simp add: flush_loop.simps [of P now k s])
    from less.hyps [OF _ rec] q obtain n qs where
      tail: "ss_queue s' = drop n rest" "sent_items s' = sent_items t @ map Send qs"
        "subseq (map body qs) (map pending_body (filter (live now) (take n rest)))"
        "k' = (if d then k + 1 else k) + of_nat (length (filter (live now) (take n rest)) - length qs)"
      by auto
    from tail(3) have le: "length qs \<le> length (filter (live now) (take n rest))"
      by (metis length_map list_emb_length)
    show ?thesis
    proof (intro exI [of _ "Suc n"] exI [of _ "ps @ qs"] conjI)
      show "ss_queue s' = drop (Suc n) (ss_queue s)" by (simp add: q tail)
      show "sent_items s' = sent_items s @ map Send (ps @ qs)" by (simp add: snd tail)
      show "subseq (map body (ps @ qs)) (map pending_body (filter (live now) (take (Suc n) (ss_queue s))))"
        using tail(3) b by (auto simp: q live_def split: if_splits)
      have "length ps = (if is_expired now (pd_message pd) \<or> d then 0 else 1)"
        using arg_cong [OF b, of length] by (simp split: if_splits)
      with le d show "k' = k + of_nat (length (filter (live now) (take (Suc n) (ss_queue s))) - length (ps @ qs))"
        by (auto simp: q tail(4) live_def Suc_diff_le split: if_splits)
    qed
  qed
qed


text \<open>A flush stops only for a reason: the client is offline, its window is full, nothing is queued, or
  the channel refuses a send.\<close>

definition refuses :: "outtx \<Rightarrow> bool" where
  "refuses tx \<longleftrightarrow> \<not> (ch_open tx \<and> length (ch_buf tx) < ch_capacity tx)"

definition flushed :: "session \<Rightarrow> bool" where
  "flushed s \<longleftrightarrow> (case ss_out s of None \<Rightarrow> True
     | Some tx \<Rightarrow> \<not> window_open s \<or> ss_queue s = [] \<or> refuses tx)"

lemma flush_step_flushed:
  assumes "session_inv s" and "flush_step P now s = Stop s'"
  shows "flushed s'"
proof (cases "is_online s \<and> window_open s \<and> ss_queue s \<noteq> []")
  case False
  with assms(2) have "s' = s" by (auto simp: flush_step_def split: if_splits list.splits)
  with False show ?thesis by (auto simp: flushed_def is_online_def split: option.split)
next
  case True
  then obtain pd rest where q: "ss_queue s = pd # rest" by (cases "ss_queue s") auto
  let ?s1 = "s\<lparr>ss_queue := rest\<rparr>"
  have "session_inv ?s1" using assms(1) q by (auto intro!: session_inv_queue dest: session_inv_qos)
  moreover have "window_open ?s1" using True by (simp add: window_open_def)
  ultimately obtain i s2 where n: "next_id ?s1 = (Some i, s2)" using next_id_window by blast
  with assms(2) True q have "\<exists>tx it tx'. ss_out s2 = Some tx \<and> try_send tx it = (False, tx')"
    using next_id_out [OF n]
    by (auto simp: flush_step_def Let_def is_online_def split: if_splits option.splits prod.splits bool.splits)
  with next_id_out [OF n] flush_step_Stop [OF assms(2)] show ?thesis
    by (auto simp: flushed_def refuses_def try_send_def split: if_splits)
qed

lemma flush_queue_flushed:
  assumes "session_inv s"
  shows "flushed (snd (flush_queue P now s))"
proof -
  have "session_inv t \<Longrightarrow> flushed (snd (flush_loop P now k t))" for k t
  proof (induction "length (ss_queue t)" arbitrary: t k rule: less_induct)
    case less
    show ?case
    proof (cases "flush_step P now t")
      case (Stop t')
      with flush_step_flushed [OF less.prems Stop] show ?thesis by (subst flush_loop.simps) simp
    next
      case (Next d t')
      from flush_step_queue [OF this] have "length (ss_queue t') < length (ss_queue t)"
        by (cases "ss_queue t") auto
      from less.hyps [OF this flush_step_inv(1) [OF less.prems Next]] Next show ?thesis
        by (subst flush_loop.simps) simp
    qed
  qed
  with assms show ?thesis by (simp add: flush_queue_def)
qed

subsection \<open>Exactly one outcome per delivery\<close>

text \<open>The fate of one message handed to a session.\<close>

datatype fate = Expired | Skipped | Too_big | Sent_qos0 | Lost_qos0 | In_flight | Queued bool

definition can_send :: "session \<Rightarrow> bool" where
  "can_send s \<longleftrightarrow> window_open s \<and> (case ss_out s of None \<Rightarrow> False | Some tx \<Rightarrow> \<not> refuses tx)"

definition delivery_fate :: "protocol \<Rightarrow> u64 \<Rightarrow> session \<Rightarrow> message \<Rightarrow> qos \<Rightarrow> bool \<Rightarrow> u32 list \<Rightarrow> nat \<Rightarrow> fate" where
  "delivery_fate P now s m q r ids n =
     (if is_expired now m then Expired
      else if q = AtMostOnce then
        (case ss_out s of None \<Rightarrow> Skipped
         | Some tx \<Rightarrow> if oversize P s (to_publish now m AtMostOnce None r ids) then Too_big
                     else if refuses tx then Lost_qos0 else Sent_qos0)
      else if oversize P s (to_publish now m q (Some 0) r ids) then Too_big
      else if can_send s then In_flight
      else Queued (0 < n \<and> n \<le> length (ss_queue s)))"

text \<open>What each fate means for the caller's drop count, the channel, the queue and the window.\<close>

definition fate_post :: "fate \<Rightarrow> session \<Rightarrow> message \<Rightarrow> qos \<Rightarrow> bool \<Rightarrow> u32 list \<Rightarrow> bool \<times> session \<Rightarrow> bool" where
  "fate_post f s m q r ids res =
     (let (dropped, s') = res;
          pd = \<lparr>pd_message = m, pd_qos = q, pd_retain = r, pd_subscription_ids = ids\<rparr>;
          quiet = (sent_items s' = sent_items s \<and> inflight_ids s' = inflight_ids s)
      in case f of
           Expired \<Rightarrow> \<not> dropped \<and> s' = s
         | Skipped \<Rightarrow> \<not> dropped \<and> s' = s
         | Too_big \<Rightarrow> dropped \<and> s' = s
         | Lost_qos0 \<Rightarrow> dropped \<and> quiet \<and> ss_queue s' = ss_queue s
         | Sent_qos0 \<Rightarrow> \<not> dropped \<and> ss_queue s' = ss_queue s \<and> inflight_ids s' = inflight_ids s
             \<and> (\<exists>p. sent_items s' = sent_items s @ [Send p] \<and> body p = pending_body pd)
         | In_flight \<Rightarrow> \<not> dropped \<and> ss_queue s' = ss_queue s
             \<and> (\<exists>i p. sent_items s' = sent_items s @ [Send p] \<and> body p = pending_body pd
                  \<and> pub_packet_id p = Some i \<and> i \<noteq> 0 \<and> i \<notin> set (inflight_ids s)
                  \<and> set (inflight_ids s') = insert i (set (inflight_ids s))
                  \<and> hm_get i (if q = AtLeastOnce then ss_awaiting_puback s' else ss_awaiting_pubrec s') = Some p)
         | Queued evict \<Rightarrow> dropped = evict \<and> quiet
             \<and> ss_queue s' = (if evict then tl (ss_queue s) else ss_queue s) @ [pd])"

lemma try_send_refuses: "try_send tx it = (if refuses tx then (False, tx) else (True, tx\<lparr>ch_buf := ch_buf tx @ [it]\<rparr>))"
  by (simp add: try_send_def refuses_def)

lemma next_id_ids: "next_id s = (r, s') \<Longrightarrow> inflight_ids s' = inflight_ids s"
  using next_id_frame [of s] by (auto simp: inflight_ids_def)

lemma attempt_send_iff:
  assumes "session_inv s" and "attempt_send now s m q r ids = (res, s1)"
  shows "res \<noteq> None \<longleftrightarrow> can_send s"
  using assms next_id_window [OF assms(1)]
  by (auto simp: attempt_send_def can_send_def Let_def is_online_def try_send_refuses
      split: if_splits prod.splits option.splits bool.splits dest!: next_id_out)

lemma attempt_send_fail:
  assumes "attempt_send now s m q r ids = (None, s1)"
  shows "\<exists>j. s1 = s\<lparr>ss_next_packet_id := j\<rparr>"
proof -
  have refl: "\<exists>j. s = s\<lparr>ss_next_packet_id := j\<rparr>" by (rule exI [of _ "ss_next_packet_id s"]) simp
  have out: "s\<lparr>ss_next_packet_id := j, ss_out := Some tx\<rparr> = s\<lparr>ss_next_packet_id := j\<rparr>"
    if "ss_out s = Some tx" for j tx
    using that by (cases s) simp
  from assms next_id_frame [of s] refl show ?thesis
    by (auto simp: attempt_send_def Let_def out split: if_splits prod.splits option.splits bool.splits
        dest!: try_send_False)
qed

lemma attempt_send_ok:
  assumes "session_inv s" and "q \<noteq> AtMostOnce" and "attempt_send now s m q r ids = (Some s', s1)"
  shows "fate_post In_flight s m q r ids (False, s')"
proof -
  from assms(3) obtain i s2 tx tx' p where n: "next_id s = (Some i, s2)" and tx: "ss_out s2 = Some tx"
    and p: "p = to_publish now m q (Some i) r ids" and snd: "try_send tx (Send p) = (True, tx')"
    and s': "s' = record_inflight q i p (s2\<lparr>ss_out := Some tx'\<rparr>)"
    by (auto simp: attempt_send_def Let_def split: if_splits prod.splits option.splits bool.splits)
  from assms(1) have "ss_next_packet_id s \<noteq> 0" by (simp add: session_inv_def)
  from next_id_Some [OF n this] have fresh: "\<not> id_in_use s i" "i \<noteq> 0"
    and s2: "s2 = s\<lparr>ss_next_packet_id := succ_id i\<rparr>" by simp_all
  from s2 tx have "sent_items s = ch_buf tx" by (simp add: sent_items_def)
  with snd have "sent_items s' = sent_items s @ [Send p]" by (simp add: s' try_send_True)
  moreover from fresh assms(2) have "set (inflight_ids s') = insert i (set (inflight_ids s))"
    by (cases q) (auto simp: s' s2 record_inflight_def inflight_ids_def)
  moreover from assms(2) have "hm_get i (if q = AtLeastOnce then ss_awaiting_puback s' else ss_awaiting_pubrec s') = Some p"
    by (cases q) (simp_all add: s' record_inflight_def)
  ultimately show ?thesis using fresh assms(2)
    by (auto simp: fate_post_def id_in_use_ids p pending_body_def s' s2)
qed

lemma deliver_fate:
  assumes "session_inv s"
  shows "fate_post (delivery_fate P now s m q r ids n) s m q r ids (deliver_to_session P now s m q r ids n)"
proof (cases "is_expired now m \<or> q = AtMostOnce \<or> oversize P s (to_publish now m q (Some 0) r ids)")
  case True
  then show ?thesis
    by (auto simp: delivery_fate_def deliver_to_session_def deliver_qos0_def try_send_refuses Let_def
        fate_post_def pending_body_def sent_items_def inflight_ids_def
        split: option.split prod.split bool.split)
next
  case False
  obtain res s1 where a: "attempt_send now s m q r ids = (res, s1)" by fastforce
  show ?thesis
  proof (cases res)
    case None
    with attempt_send_iff [OF assms a] have "\<not> can_send s" by simp
    moreover from attempt_send_fail a None obtain j where "s1 = s\<lparr>ss_next_packet_id := j\<rparr>" by blast
    ultimately show ?thesis using False a None
      by (auto simp: delivery_fate_def deliver_to_session_def fate_post_def enqueue_def Let_def inflight_ids_def)
  next
    case (Some s')
    with attempt_send_iff [OF assms a] have "can_send s" by simp
    with Some False a attempt_send_ok [OF assms] show ?thesis
      by (simp add: delivery_fate_def deliver_to_session_def)
  qed
qed


subsection \<open>Properties\<close>

text \<open>C6: delivery to one session has exactly one outcome, and it is the one the state of the session
  dictates. An expired message is ignored; a QoS 0 message is sent, or lost when the client is offline,
  its channel refuses or the packet is too big; a QoS 1 or 2 message is refused when it is too big, sent
  and recorded under a fresh identifier when window and channel have room, and queued otherwise, where the
  oldest entry makes room at the bound. No identifier is recorded for a packet that was not sent.\<close>

theorem deliver_has_one_fate:
  assumes "session_inv s"
  shows "fate_post (delivery_fate P now s m q r ids n) s m q r ids (deliver_to_session P now s m q r ids n)"
  using assms by (rule deliver_fate)

definition demo_message :: message where
  "demo_message = \<lparr>m_topic = ''t'', m_payload = [7], m_qos = AtLeastOnce, m_retain = False,
     m_payload_format_indicator = None, m_content_type = None, m_response_topic = None,
     m_correlation_data = None, m_user_properties = [], m_expires_at = None\<rparr>"

definition demo_session :: session where
  "demo_session = (session_new ''c'' 0)\<lparr>ss_out := Some channel_new\<rparr>"

lemma demo_session_inv [simp]: "session_inv demo_session"
  unfolding demo_session_def by (rule session_inv_out) simp_all

definition demo_queued :: session where
  "demo_queued = demo_session\<lparr>ss_queue :=
     [\<lparr>pd_message = demo_message, pd_qos = AtLeastOnce, pd_retain = False, pd_subscription_ids = []\<rparr>,
      \<lparr>pd_message = demo_message, pd_qos = ExactlyOnce, pd_retain = False, pd_subscription_ids = []\<rparr>]\<rparr>"

lemma demo_queued_inv [simp]: "session_inv demo_queued"
  unfolding demo_queued_def by (rule session_inv_queue) simp_all

theorem deliver_has_one_fate_witness:
  "delivery_fate plain_protocol 0 demo_session demo_message AtLeastOnce False [] 10 = In_flight
   \<and> fate_post In_flight demo_session demo_message AtLeastOnce False []
       (deliver_to_session plain_protocol 0 demo_session demo_message AtLeastOnce False [] 10)"
proof -
  have fate: "delivery_fate plain_protocol 0 demo_session demo_message AtLeastOnce False [] 10 = In_flight"
    by (simp add: delivery_fate_def demo_session_def demo_message_def session_new_def channel_new_def
        oversize_def can_send_def window_open_def inflight_count_def refuses_def OUTBOUND_CHANNEL_CAPACITY_def)
  moreover note deliver_has_one_fate [OF demo_session_inv, of plain_protocol 0 demo_message AtLeastOnce False "[]" 10]
  ultimately show ?thesis by simp
qed



text \<open>Delivery keeps both bounds of a session. The offline queue never grows beyond the configured
  maximum, and the packets in flight never beyond the client's Receive Maximum (or what was in flight
  before, when the client came back with a smaller one).\<close>

lemma deliver_keeps_bounds:
  assumes "session_inv s" and "0 < n" and "length (ss_queue s) \<le> n"
  shows "length (ss_queue (snd (deliver_to_session P now s m q r ids n))) \<le> n
     \<and> inflight_count (snd (deliver_to_session P now s m q r ids n)) \<le> max (inflight_count s) (receive_max s)"
  using deliver_queue_bound [OF assms(2,3)] deliver_window [OF assms(1)] by blast

end
