(* ===== verification/Json.thy ===== *)
theory Json
  imports Protocol
begin

section \<open>Parsed documents\<close>

text \<open>
  The \<^verbatim>\<open>serde_json::Value\<close> tree that configuration and policy files are read through, with the
  accessors the sources use. \<open>json_get\<close> is \<^verbatim>\<open>Value::get\<close> (\<open>None\<close> on a missing key or a value that is no
  object) and \<open>json_idx\<close> is the indexing \<^verbatim>\<open>doc[key]\<close>, which yields null there. Integers are those of
  64 bits, so \<^verbatim>\<open>as_i64\<close> is defined on the range of \<^verbatim>\<open>i64\<close>.
\<close>

datatype json =
    JNull
  | JBool bool
  | JInt int
  | JFloat string
  | JString string
  | JArray "json list"
  | JObject "(string \<times> json) list"

fun json_get :: "string \<Rightarrow> json \<Rightarrow> json option" where
  "json_get k (JObject m) = hm_get k m"
| "json_get k _ = None"

fun json_as_str :: "json \<Rightarrow> string option" where
  "json_as_str (JString s) = Some s"
| "json_as_str _ = None"

fun json_as_array :: "json \<Rightarrow> json list option" where
  "json_as_array (JArray xs) = Some xs"
| "json_as_array _ = None"

fun json_as_object :: "json \<Rightarrow> (string \<times> json) list option" where
  "json_as_object (JObject m) = Some m"
| "json_as_object _ = None"

fun json_as_bool :: "json \<Rightarrow> bool option" where
  "json_as_bool (JBool b) = Some b"
| "json_as_bool _ = None"

fun json_as_i64 :: "json \<Rightarrow> int option" where
  "json_as_i64 (JInt n) = (if - (2 ^ 63) \<le> n \<and> n < 2 ^ 63 then Some n else None)"
| "json_as_i64 _ = None"

definition json_idx :: "json \<Rightarrow> string \<Rightarrow> json" where
  "json_idx doc k = (case json_get k doc of None \<Rightarrow> JNull | Some v \<Rightarrow> v)"

end
