(* ===== verification/Acl.thy ===== *)
theory Acl
  imports Json
begin

section \<open>Per-identity access control\<close>

text \<open>
  \<^verbatim>\<open>src/src/acl.rs\<close>: the policy, its construction from a parsed document, and the two authorization
  questions the broker asks. A parsed TOML document reaches the code as a \<^verbatim>\<open>serde_json::Value\<close>, the
  datatype \<open>json\<close> of the theory \<open>Json\<close>; the TOML parser itself belongs to another crate and is the
  argument \<open>toml\<close> of the loader, as the file system is its argument \<open>read_file\<close>.
\<close>

definition ANY :: string where
  "ANY = ''*''"

record rule =
  r_identity :: string
  r_publish :: "string list"
  r_subscribe :: "string list"

record acl =
  acl_enforced :: bool
  acl_default_allow :: bool
  acl_rules :: "rule list"

definition permit_all :: acl where
  "permit_all = \<lparr>acl_enforced = False, acl_default_allow = True, acl_rules = []\<rparr>"

text \<open>The errors of the loader, one per message of the source; the index is the rule's.\<close>

datatype acl_error =
    Invalid_default string
  | Rules_not_array
  | Missing_identity nat
  | Not_array_of_strings nat string
  | Entry_not_string nat string
  | Invalid_filter nat string string

fun parse_filter_items ::
    "protocol \<Rightarrow> nat \<Rightarrow> string \<Rightarrow> json list \<Rightarrow> acl_error + string list" where
  "parse_filter_items P i field [] = Inr []"
| "parse_filter_items P i field (item # rest) =
     (case json_as_str item of
        None \<Rightarrow> Inl (Entry_not_string i field)
      | Some f \<Rightarrow>
          if \<not> valid_topic_filter P f then Inl (Invalid_filter i f field)
          else (case parse_filter_items P i field rest of
                  Inl e \<Rightarrow> Inl e
                | Inr out \<Rightarrow> Inr (f # out)))"

definition parse_filters ::
    "protocol \<Rightarrow> json option \<Rightarrow> nat \<Rightarrow> string \<Rightarrow> acl_error + string list" where
  "parse_filters P value i field =
     (case value of
        None \<Rightarrow> Inr []
      | Some v \<Rightarrow> (case json_as_array v of
                    None \<Rightarrow> Inl (Not_array_of_strings i field)
                  | Some arr \<Rightarrow> parse_filter_items P i field arr))"

definition parse_rule :: "protocol \<Rightarrow> nat \<Rightarrow> json \<Rightarrow> acl_error + rule" where
  "parse_rule P i r =
     (case Option.bind (json_get ''identity'' r) json_as_str of
        None \<Rightarrow> Inl (Missing_identity i)
      | Some identity \<Rightarrow>
          (case parse_filters P (json_get ''publish'' r) i ''publish'' of
             Inl e \<Rightarrow> Inl e
           | Inr publish \<Rightarrow>
               (case parse_filters P (json_get ''subscribe'' r) i ''subscribe'' of
                  Inl e \<Rightarrow> Inl e
                | Inr subscribe \<Rightarrow>
                    Inr \<lparr>r_identity = identity, r_publish = publish, r_subscribe = subscribe\<rparr>)))"

fun parse_rules :: "protocol \<Rightarrow> nat \<Rightarrow> json list \<Rightarrow> acl_error + rule list" where
  "parse_rules P i [] = Inr []"
| "parse_rules P i (r # rs) =
     (case parse_rule P i r of
        Inl e \<Rightarrow> Inl e
      | Inr rule \<Rightarrow> (case parse_rules P (Suc i) rs of
                      Inl e \<Rightarrow> Inl e
                    | Inr rules \<Rightarrow> Inr (rule # rules)))"

definition acl_from_value :: "protocol \<Rightarrow> json \<Rightarrow> acl_error + acl" where
  "acl_from_value P value =
     (case (case Option.bind (json_get ''default'' value) json_as_str of
              None \<Rightarrow> Inr False
            | Some d \<Rightarrow> if d = ''deny'' then Inr False
                        else if d = ''allow'' then Inr True else Inl (Invalid_default d)) of
        Inl e \<Rightarrow> Inl e
      | Inr default_allow \<Rightarrow>
          (case (case json_get ''rules'' value of
                   None \<Rightarrow> Inr []
                 | Some arr \<Rightarrow> (case json_as_array arr of
                                 None \<Rightarrow> Inl Rules_not_array
                               | Some rs \<Rightarrow> parse_rules P 0 rs)) of
             Inl e \<Rightarrow> Inl e
           | Inr rules \<Rightarrow>
               Inr \<lparr>acl_enforced = True, acl_default_allow = default_allow, acl_rules = rules\<rparr>))"

definition applicable :: "acl \<Rightarrow> string \<Rightarrow> rule list" where
  "applicable a identity = filter (\<lambda>r. r_identity r = identity \<or> r_identity r = ANY) (acl_rules a)"

definition can_publish :: "protocol \<Rightarrow> acl \<Rightarrow> string \<Rightarrow> string \<Rightarrow> bool" where
  "can_publish P a identity topic =
     (if \<not> acl_enforced a then True
      else if \<exists>r \<in> set (applicable a identity). \<exists>f \<in> set (r_publish r). topic_matches P f topic then True
      else acl_default_allow a)"

definition can_subscribe :: "protocol \<Rightarrow> acl \<Rightarrow> string \<Rightarrow> string \<Rightarrow> bool" where
  "can_subscribe P a identity flt =
     (if \<not> acl_enforced a then True
      else if \<exists>r \<in> set (applicable a identity). \<exists>f \<in> set (r_subscribe r). topic_matches P f flt then True
      else acl_default_allow a)"

datatype load_error =
    Path_traversal string
  | Read_failed string string
  | Invalid_toml string string
  | Bad_policy string acl_error

definition from_toml_str ::
    "protocol \<Rightarrow> (string \<Rightarrow> string + json) \<Rightarrow> string \<Rightarrow> string \<Rightarrow> load_error + acl" where
  "from_toml_str P toml text source =
     (case toml text of
        Inl e \<Rightarrow> Inl (Invalid_toml source e)
      | Inr value \<Rightarrow> (case acl_from_value P value of
                        Inl e \<Rightarrow> Inl (Bad_policy source e)
                      | Inr a \<Rightarrow> Inr a))"

text \<open>A path with a \<^verbatim>\<open>..\<close> component is refused before the file system is touched.\<close>

definition has_parent_dir :: "string \<Rightarrow> bool" where
  "has_parent_dir path \<longleftrightarrow> ''..'' \<in> set (split_on (CHR ''/'') path)"

definition acl_load ::
    "protocol \<Rightarrow> (string \<Rightarrow> string + string) \<Rightarrow> (string \<Rightarrow> string + json) \<Rightarrow> string \<Rightarrow> load_error + acl" where
  "acl_load P read_file toml path =
     (if has_parent_dir path then Inl (Path_traversal path)
      else (case read_file path of
              Inl e \<Rightarrow> Inl (Read_failed path e)
            | Inr text \<Rightarrow> from_toml_str P toml text path))"

subsection \<open>The loader\<close>

lemma parse_filter_items_valid:
  "parse_filter_items P i field js = Inr out \<Longrightarrow>
     map JString out = js \<and> (\<forall>f \<in> set out. valid_topic_filter P f)"
  by (induction js arbitrary: out) (auto split: option.splits if_splits sum.splits elim!: json_as_str.elims)

lemma parse_filters_valid:
  "parse_filters P v i field = Inr out \<Longrightarrow> \<forall>f \<in> set out. valid_topic_filter P f"
  using parse_filter_items_valid [of P i field]
  by (auto simp: parse_filters_def split: option.splits)

lemma parse_rules_valid:
  "parse_rules P i js = Inr rs \<Longrightarrow>
     length rs = length js \<and>
     (\<forall>r \<in> set rs. \<forall>f \<in> set (r_publish r) \<union> set (r_subscribe r). valid_topic_filter P f)"
proof (induction js arbitrary: i rs)
  case Nil
  then show ?case by simp
next
  case (Cons j js)
  from Cons.prems obtain r rs' where r: "parse_rule P i j = Inr r" and
    rest: "parse_rules P (Suc i) js = Inr rs'" and rs: "rs = r # rs'"
    by (auto split: sum.splits)
  from r have "\<forall>f \<in> set (r_publish r) \<union> set (r_subscribe r). valid_topic_filter P f"
    by (auto simp: parse_rule_def split: option.splits sum.splits dest!: parse_filters_valid)
  with Cons.IH [OF rest] rs show ?case by simp
qed

lemma permit_all_allows [simp]: "can_publish P permit_all who t" "can_subscribe P permit_all who f"
  by (simp_all add: can_publish_def can_subscribe_def permit_all_def)

text \<open>A filter that the document itself lists for an identity: in the array \<open>field\<close> of a rule whose
  identity is the given one or the wildcard.\<close>

definition doc_grants :: "json \<Rightarrow> string \<Rightarrow> string \<Rightarrow> string \<Rightarrow> bool" where
  "doc_grants doc field who f \<longleftrightarrow>
     (\<exists>rs r arr. json_get ''rules'' doc = Some (JArray rs) \<and> r \<in> set rs
        \<and> (json_get ''identity'' r = Some (JString who) \<or> json_get ''identity'' r = Some (JString ANY))
        \<and> json_get field r = Some (JArray arr) \<and> JString f \<in> set arr)"

lemma json_str_iff [simp]: "json_as_str j = Some s \<longleftrightarrow> j = JString s"
  by (cases j) auto

lemma json_array_iff [simp]: "json_as_array j = Some xs \<longleftrightarrow> j = JArray xs"
  by (cases j) auto

lemma parse_filters_doc:
  assumes "parse_filters P v i field = Inr out"
  shows "f \<in> set out \<longleftrightarrow> (\<exists>arr. v = Some (JArray arr) \<and> JString f \<in> set arr)"
proof (cases v)
  case None
  then show ?thesis using assms by (simp add: parse_filters_def)
next
  case (Some j)
  with assms obtain arr where "j = JArray arr" and "parse_filter_items P i field arr = Inr out"
    by (auto simp: parse_filters_def split: option.splits)
  moreover from this parse_filter_items_valid have "map JString out = arr" by blast
  ultimately show ?thesis using Some by auto
qed

lemma parse_rule_doc:
  assumes "parse_rule P i j = Inr r"
  shows "json_get ''identity'' j = Some (JString (r_identity r))"
    and "f \<in> set (r_publish r) \<longleftrightarrow> (\<exists>arr. json_get ''publish'' j = Some (JArray arr) \<and> JString f \<in> set arr)"
    and "f \<in> set (r_subscribe r) \<longleftrightarrow>
         (\<exists>arr. json_get ''subscribe'' j = Some (JArray arr) \<and> JString f \<in> set arr)"
  using assms
  by (auto simp: parse_rule_def bind_eq_Some_conv parse_filters_doc split: option.splits sum.splits)

lemma acl_from_value_rules:
  assumes "acl_from_value P doc = Inr a"
  shows "acl_enforced a"
    and "acl_default_allow a \<longleftrightarrow> json_get ''default'' doc = Some (JString ''allow'')"
    and "(json_get ''rules'' doc = None \<and> acl_rules a = [])
         \<or> (\<exists>js. json_get ''rules'' doc = Some (JArray js) \<and> parse_rules P 0 js = Inr (acl_rules a))"
  using assms
  by (auto simp: acl_from_value_def bind_eq_Some_conv bind_eq_None_conv
      split: option.splits sum.splits if_splits)

lemma applicable_iff:
  "r \<in> set (applicable a who) \<longleftrightarrow> r \<in> set (acl_rules a) \<and> (r_identity r = who \<or> r_identity r = ANY)"
  by (auto simp: applicable_def)

lemma rule_grant:
  assumes "parse_rule P i j = Inr r"
  shows "Q (r_identity r) \<and> f \<in> set (r_publish r) \<longleftrightarrow>
         (\<exists>who arr. json_get ''identity'' j = Some (JString who) \<and> Q who
            \<and> json_get ''publish'' j = Some (JArray arr) \<and> JString f \<in> set arr)"
    and "Q (r_identity r) \<and> f \<in> set (r_subscribe r) \<longleftrightarrow>
         (\<exists>who arr. json_get ''identity'' j = Some (JString who) \<and> Q who
            \<and> json_get ''subscribe'' j = Some (JArray arr) \<and> JString f \<in> set arr)"
  using parse_rule_doc [OF assms] by auto

lemma rules_grant:
  "parse_rules P i js = Inr rs \<Longrightarrow>
   (\<exists>r \<in> set rs. Q (r_identity r) \<and> f \<in> set (r_publish r)) \<longleftrightarrow>
     (\<exists>j \<in> set js. \<exists>who arr. json_get ''identity'' j = Some (JString who) \<and> Q who
        \<and> json_get ''publish'' j = Some (JArray arr) \<and> JString f \<in> set arr)"
  "parse_rules P i js = Inr rs \<Longrightarrow>
   (\<exists>r \<in> set rs. Q (r_identity r) \<and> f \<in> set (r_subscribe r)) \<longleftrightarrow>
     (\<exists>j \<in> set js. \<exists>who arr. json_get ''identity'' j = Some (JString who) \<and> Q who
        \<and> json_get ''subscribe'' j = Some (JArray arr) \<and> JString f \<in> set arr)"
proof (induction js arbitrary: i rs)
  case Nil
  { case 1 then show ?case by simp next case 2 then show ?case by simp }
next
  case (Cons j js)
  have split: "\<exists>r rs'. parse_rule P i j = Inr r \<and> parse_rules P (Suc i) js = Inr rs' \<and> rs = r # rs'"
    if "parse_rules P i (j # js) = Inr rs" for i rs
    using that by (auto split: sum.splits)
  {
    case 1
    from split [OF 1] obtain r rs' where "parse_rule P i j = Inr r" "parse_rules P (Suc i) js = Inr rs'"
      "rs = r # rs'" by blast
    with Cons.IH(1) rule_grant(1) show ?case by simp
  next
    case 2
    from split [OF 2] obtain r rs' where "parse_rule P i j = Inr r" "parse_rules P (Suc i) js = Inr rs'"
      "rs = r # rs'" by blast
    with Cons.IH(2) rule_grant(2) show ?case by simp
  }
qed

lemma acl_doc_grants:
  assumes "acl_from_value P doc = Inr a"
  shows "(\<exists>r \<in> set (applicable a who). f \<in> set (r_publish r)) \<longleftrightarrow> doc_grants doc ''publish'' who f"
    and "(\<exists>r \<in> set (applicable a who). f \<in> set (r_subscribe r)) \<longleftrightarrow> doc_grants doc ''subscribe'' who f"
proof -
  have app: "(\<exists>r \<in> set (applicable a who). A r) \<longleftrightarrow>
      (\<exists>r \<in> set (acl_rules a). (r_identity r = who \<or> r_identity r = ANY) \<and> A r)" for A
    by (auto simp: applicable_def)
  let ?Q = "\<lambda>i. i = who \<or> i = ANY"
  have "((\<exists>r \<in> set (acl_rules a). ?Q (r_identity r) \<and> f \<in> set (r_publish r)) \<longleftrightarrow> doc_grants doc ''publish'' who f)
      \<and> ((\<exists>r \<in> set (acl_rules a). ?Q (r_identity r) \<and> f \<in> set (r_subscribe r)) \<longleftrightarrow> doc_grants doc ''subscribe'' who f)"
  proof (cases "json_get ''rules'' doc")
    case None
    then show ?thesis using acl_from_value_rules(3) [OF assms] by (simp add: doc_grants_def)
  next
    case (Some v)
    then obtain js where v: "v = JArray js" and "parse_rules P 0 js = Inr (acl_rules a)"
      using acl_from_value_rules(3) [OF assms] by auto
    from rules_grant [OF this(2), where Q = ?Q and f = f] Some v show ?thesis
      by (auto simp: doc_grants_def)
  qed
  then show "(\<exists>r \<in> set (applicable a who). f \<in> set (r_publish r)) \<longleftrightarrow> doc_grants doc ''publish'' who f"
    and "(\<exists>r \<in> set (applicable a who). f \<in> set (r_subscribe r)) \<longleftrightarrow> doc_grants doc ''subscribe'' who f"
    by (simp_all add: app)
qed


definition demo_policy :: json where
  "demo_policy = JObject
     [(''rules'', JArray [JObject [(''identity'', JString ''ann''), (''publish'', JArray [JString ''t''])]])]"


end
