(* ===== verification/Auth.thy ===== *)
theory Auth
  imports Acl
begin

section \<open>Username and password authentication\<close>

text \<open>
  \<^verbatim>\<open>src/src/auth.rs\<close>: the credential file, its entries and the verification of a password. The key
  derivation belongs to the crate \<^verbatim>\<open>ring\<close>: \<open>pbkdf2_verify it salt pw hash\<close> and
  \<open>pbkdf2_derive it salt pw\<close> are arguments, and so is the random salt of a new entry.
\<close>

definition DEFAULT_ITERATIONS :: u32 where
  "DEFAULT_ITERATIONS = 200000"

definition HASH_LEN :: nat where
  "HASH_LEN = 32"

definition SALT_LEN :: nat where
  "SALT_LEN = 16"

definition SCHEME :: string where
  "SCHEME = ''pbkdf2_sha256''"

record stored =
  sd_iterations :: u32
  sd_salt :: bytes
  sd_hash :: bytes

type_synonym credentials = "(string, stored) hashmap"
type_synonym pbkdf2_verify = "u32 \<Rightarrow> bytes \<Rightarrow> bytes \<Rightarrow> bytes \<Rightarrow> bool"
type_synonym pbkdf2_derive = "u32 \<Rightarrow> bytes \<Rightarrow> bytes \<Rightarrow> bytes"

definition decoy :: stored where
  "decoy = \<lparr>sd_iterations = DEFAULT_ITERATIONS, sd_salt = replicate SALT_LEN 0,
            sd_hash = replicate HASH_LEN 0\<rparr>"

definition verify :: "pbkdf2_verify \<Rightarrow> credentials \<Rightarrow> string \<Rightarrow> bytes \<Rightarrow> bool" where
  "verify kdf creds username password =
     (let (st, known) = (case hm_get username creds of Some s \<Rightarrow> (s, True) | None \<Rightarrow> (decoy, False));
          matched = kdf (sd_iterations st) (sd_salt st) password (sd_hash st)
      in matched \<and> known)"

subsection \<open>Hexadecimal text\<close>

definition hex_digit :: "nat \<Rightarrow> char" where
  "hex_digit d = (if d < 10 then char_of (48 + d) else char_of (87 + d))"

text \<open>\<^verbatim>\<open>char::to_digit(16)\<close> accepts both cases.\<close>

definition hex_val :: "char \<Rightarrow> nat option" where
  "hex_val c =
     (let n = (of_char c :: nat)
      in if 48 \<le> n \<and> n \<le> 57 then Some (n - 48)
         else if 97 \<le> n \<and> n \<le> 102 then Some (n - 87)
         else if 65 \<le> n \<and> n \<le> 70 then Some (n - 55) else None)"

fun to_hex :: "bytes \<Rightarrow> string" where
  "to_hex [] = []"
| "to_hex (b # bs) = hex_digit (unat b div 16) # hex_digit (unat b mod 16) # to_hex bs"

fun hex_pairs :: "string \<Rightarrow> bytes option" where
  "hex_pairs [] = Some []"
| "hex_pairs [_] = None"
| "hex_pairs (h # l # rest) =
     (case hex_val h of
        None \<Rightarrow> None
      | Some hi \<Rightarrow> (case hex_val l of
                     None \<Rightarrow> None
                   | Some lo \<Rightarrow> (case hex_pairs rest of
                                  None \<Rightarrow> None
                                | Some bs \<Rightarrow> Some (of_nat (16 * hi + lo) # bs))))"

definition from_hex :: "string \<Rightarrow> bytes option" where
  "from_hex s = (if s = [] \<or> odd (length s) then None else hex_pairs s)"

subsection \<open>Entries\<close>

definition hash_password :: "pbkdf2_derive \<Rightarrow> bytes \<Rightarrow> bytes \<Rightarrow> string" where
  "hash_password derive salt password =
     SCHEME @ ''$'' @ show_nat (unat DEFAULT_ITERATIONS) @ ''$'' @ to_hex salt @ ''$''
       @ to_hex (derive DEFAULT_ITERATIONS salt password)"

definition format_entry :: "pbkdf2_derive \<Rightarrow> bytes \<Rightarrow> string \<Rightarrow> bytes \<Rightarrow> string" where
  "format_entry derive salt username password = username @ '':'' @ hash_password derive salt password"

datatype entry_error =
    Expected_username_hash | Empty_username | Unsupported_hash | Bad_iterations | Bad_salt | Bad_hash

definition parse_entry :: "string \<Rightarrow> entry_error + (string \<times> stored)" where
  "parse_entry line =
     (case split_once (CHR '':'') line of
        None \<Rightarrow> Inl Expected_username_hash
      | Some (user, rest) \<Rightarrow>
          if user = [] then Inl Empty_username
          else (case split_on (CHR ''$'') rest of
                  [scheme, iters, salt, hash] \<Rightarrow>
                    if scheme \<noteq> SCHEME then Inl Unsupported_hash
                    else (case parse_uint 4294967295 iters of
                            None \<Rightarrow> Inl Bad_iterations
                          | Some n \<Rightarrow>
                              if n = 0 then Inl Bad_iterations
                              else (case from_hex salt of
                                      None \<Rightarrow> Inl Bad_salt
                                    | Some sb \<Rightarrow>
                                        (case from_hex hash of
                                           None \<Rightarrow> Inl Bad_hash
                                         | Some hb \<Rightarrow>
                                             Inr (user, \<lparr>sd_iterations = of_nat n, sd_salt = sb,
                                                         sd_hash = hb\<rparr>))))
                | _ \<Rightarrow> Inl Unsupported_hash))"

text \<open>The lines of the file, numbered from 1 in errors; blank lines and comments are skipped, a later
  entry for a user replaces an earlier one. (\<^verbatim>\<open>str::lines\<close> also drops a trailing carriage return and a
  last empty line; both disappear in \<open>trim\<close> and in the blank-line test.)\<close>

datatype auth_error =
    Auth_path_traversal string
  | Auth_read_failed string string
  | Bad_entry string nat entry_error

fun load_lines :: "string \<Rightarrow> nat \<Rightarrow> string list \<Rightarrow> credentials \<Rightarrow> auth_error + credentials" where
  "load_lines path i [] users = Inr users"
| "load_lines path i (raw # rest) users =
     (let line = trim raw
      in if line = [] \<or> starts_with line ''#'' then load_lines path (Suc i) rest users
         else (case parse_entry line of
                 Inl e \<Rightarrow> Inl (Bad_entry path (Suc i) e)
               | Inr (user, st) \<Rightarrow> load_lines path (Suc i) rest (hm_insert user st users)))"

definition credentials_load ::
    "(string \<Rightarrow> string + string) \<Rightarrow> string \<Rightarrow> auth_error + credentials" where
  "credentials_load read_file path =
     (if has_parent_dir path then Inl (Auth_path_traversal path)
      else (case read_file path of
              Inl e \<Rightarrow> Inl (Auth_read_failed path e)
            | Inr text \<Rightarrow> load_lines path 0 (split_on (CHR ''\<newline>'') text) []))"

subsection \<open>Round trips\<close>

lemma hex_val_digit: "d < 16 \<Longrightarrow> hex_val (hex_digit d) = Some d"
  by (auto simp: hex_val_def hex_digit_def Let_def)

lemma hex_digit_not_dollar: "d < 16 \<Longrightarrow> hex_digit d \<noteq> CHR ''$''"
  using hex_val_digit [of d] by (auto simp: hex_val_def Let_def)

lemma length_to_hex [simp]: "length (to_hex bs) = 2 * length bs"
  by (induction bs) simp_all

lemma unat_u8_less: "unat (b :: u8) < 256"
  using unsigned_less [of b, where 'a = nat] by simp

lemma to_hex_no_dollar: "CHR ''$'' \<notin> set (to_hex bs)"
proof (induction bs)
  case Nil
  then show ?case by simp
next
  case (Cons b bs)
  have "unat b div 16 < 16" using unat_u8_less [of b] by simp
  then have "hex_digit (unat b div 16) \<noteq> CHR ''$''" "hex_digit (unat b mod 16) \<noteq> CHR ''$''"
    by (simp_all add: hex_digit_not_dollar)
  with Cons show ?case by auto
qed

lemma hex_pairs_to_hex: "hex_pairs (to_hex bs) = Some bs"
proof (induction bs)
  case Nil
  then show ?case by simp
next
  case (Cons b bs)
  have "unat b div 16 < 16" using unat_u8_less [of b] by simp
  with Cons show ?case by (simp add: hex_val_digit)
qed

lemma from_hex_to_hex: "bs \<noteq> [] \<Longrightarrow> from_hex (to_hex bs) = Some bs"
  using hex_pairs_to_hex [of bs] by (cases bs) (simp_all add: from_hex_def del: hex_pairs.simps)

lemma digits_no_dollar: "CHR ''$'' \<notin> set (show_nat n)"
  using show_nat_digits [of n] by (auto simp: is_digit_def)

lemma split_hash_password:
  "split_on (CHR ''$'') (hash_password derive salt pw) =
     [SCHEME, show_nat (unat DEFAULT_ITERATIONS), to_hex salt, to_hex (derive DEFAULT_ITERATIONS salt pw)]"
proof -
  have "CHR ''$'' \<notin> set SCHEME" by (simp add: SCHEME_def)
  then show ?thesis
    by (simp add: hash_password_def split_on_append split_on_free digits_no_dollar to_hex_no_dollar)
qed

lemma parse_format_entry:
  assumes "user \<noteq> []" and "CHR '':'' \<notin> set user" and "salt \<noteq> []"
    and "derive DEFAULT_ITERATIONS salt pw \<noteq> []"
  shows "parse_entry (format_entry derive salt user pw) =
    Inr (user, \<lparr>sd_iterations = DEFAULT_ITERATIONS, sd_salt = salt,
                sd_hash = derive DEFAULT_ITERATIONS salt pw\<rparr>)"
proof -
  have "parse_uint 4294967295 (show_nat (unat DEFAULT_ITERATIONS)) = Some (unat DEFAULT_ITERATIONS)"
    by (rule parse_uint_show) (simp add: DEFAULT_ITERATIONS_def)
  moreover have "unat DEFAULT_ITERATIONS \<noteq> 0" by (simp add: DEFAULT_ITERATIONS_def)
  ultimately show ?thesis
    using assms
    by (simp add: parse_entry_def format_entry_def split_once_append split_hash_password from_hex_to_hex
        del: unat_eq_zero)
qed

lemma verify_unknown: "hm_get user creds = None \<Longrightarrow> \<not> verify kdf creds user pw"
  by (simp add: verify_def)

lemma verify_known:
  "hm_get user creds = Some st \<Longrightarrow>
   verify kdf creds user pw \<longleftrightarrow> kdf (sd_iterations st) (sd_salt st) pw (sd_hash st)"
  by (simp add: verify_def)

subsection \<open>Files of generated entries\<close>

text \<open>An entry of a file is the user name, the salt drawn for it and the password.\<close>

type_synonym account = "string \<times> bytes \<times> bytes"

fun entry_line :: "pbkdf2_derive \<Rightarrow> account \<Rightarrow> string" where
  "entry_line derive (user, salt, pw) = format_entry derive salt user pw"

definition password_file :: "pbkdf2_derive \<Rightarrow> account list \<Rightarrow> string" where
  "password_file derive es =
     concat (map (\<lambda>e. entry_line derive e @ ''\<newline>'') es)"

definition account_ok :: "pbkdf2_derive \<Rightarrow> account \<Rightarrow> bool" where
  "account_ok derive e \<longleftrightarrow>
     (let (user, salt, pw) = e
      in user \<noteq> [] \<and> list_all graphic user \<and> CHR '':'' \<notin> set user \<and> hd user \<noteq> CHR ''#''
         \<and> salt \<noteq> [] \<and> derive DEFAULT_ITERATIONS salt pw \<noteq> [])"

definition stored_of :: "pbkdf2_derive \<Rightarrow> bytes \<times> bytes \<Rightarrow> stored" where
  "stored_of derive sp =
     \<lparr>sd_iterations = DEFAULT_ITERATIONS, sd_salt = fst sp,
      sd_hash = derive DEFAULT_ITERATIONS (fst sp) (snd sp)\<rparr>"

definition lookup_account :: "pbkdf2_derive \<Rightarrow> account list \<Rightarrow> credentials \<Rightarrow> string \<Rightarrow> stored option" where
  "lookup_account derive es acc u =
     (case map_of (rev es) u of None \<Rightarrow> hm_get u acc | Some sp \<Rightarrow> Some (stored_of derive sp))"

lemma lookup_account_Cons:
  "lookup_account derive ((user, salt, pw) # es) acc =
   lookup_account derive es (hm_insert user (stored_of derive (salt, pw)) acc)"
  by (simp add: lookup_account_def fun_eq_iff map_add_def split: option.split)

lemma graphic_hex_digit: "d < 16 \<Longrightarrow> graphic (hex_digit d)"
  by (auto simp: graphic_def hex_digit_def)

lemma graphic_to_hex: "list_all graphic (to_hex bs)"
proof (induction bs)
  case Nil
  then show ?case by simp
next
  case (Cons b bs)
  have "unat b div 16 < 16" using unat_u8_less [of b] by simp
  with Cons show ?case by (simp add: graphic_hex_digit)
qed

lemma graphic_show_nat: "list_all graphic (show_nat n)"
  using show_nat_digits [of n] by (auto simp: list_all_iff is_digit_def graphic_def)

lemma graphic_format_entry:
  "list_all graphic user \<Longrightarrow> list_all graphic (format_entry derive salt user pw)"
  by (simp add: format_entry_def hash_password_def graphic_to_hex graphic_show_nat SCHEME_def)
    (simp add: graphic_def)

lemma format_entry_line:
  assumes "account_ok derive (user, salt, pw)"
  shows "trim (format_entry derive salt user pw) = format_entry derive salt user pw"
    and "format_entry derive salt user pw \<noteq> []"
    and "\<not> starts_with (format_entry derive salt user pw) ''#''"
proof -
  let ?l = "format_entry derive salt user pw"
  from assms have user: "user \<noteq> []" "list_all graphic user" "hd user \<noteq> CHR ''#''"
    by (simp_all add: account_ok_def)
  from user(1) show ne: "?l \<noteq> []" by (simp add: format_entry_def)
  have "\<forall>c \<in> set ?l. graphic c" using graphic_format_entry [OF user(2)] by (simp add: list_all_iff)
  then have "graphic (hd ?l)" "graphic (last ?l)"
    using hd_in_set [OF ne] last_in_set [OF ne] by blast+
  with ne show "trim ?l = ?l" by (rule trim_graphic)
  from user(1,3) show "\<not> starts_with ?l ''#''"
    by (cases user) (simp_all add: format_entry_def starts_with_def)
qed

lemma split_password_file:
  "list_all (account_ok derive) es \<Longrightarrow>
   split_on (CHR ''\<newline>'') (password_file derive es) =
     map (entry_line derive) es @ [[]]"
proof (induction es)
  case Nil
  then show ?case by (simp add: password_file_def)
next
  case (Cons e es)
  obtain user salt pw where e: "e = (user, salt, pw)" by (metis prod.exhaust)
  from Cons.prems have "list_all graphic user" by (simp add: e account_ok_def)
  from graphic_no_newline [OF graphic_format_entry [OF this]] Cons show ?case
    by (simp add: password_file_def e split_on_append)
qed

lemma load_password_lines:
  "list_all (account_ok derive) es \<Longrightarrow>
   \<exists>creds. load_lines path i (map (entry_line derive) es @ [[]]) acc = Inr creds
     \<and> (\<forall>u. hm_get u creds = lookup_account derive es acc u)"
proof (induction es arbitrary: i acc)
  case Nil
  have "trim [] = []" by (simp add: trim_def strip_all.simps strip_one_None white_space_def starts_with_def)
  then show ?case by (simp add: lookup_account_def)
next
  case (Cons e es)
  obtain user salt pw where e: "e = (user, salt, pw)" by (metis prod.exhaust)
  from Cons.prems have ok: "account_ok derive (user, salt, pw)" by (simp add: e)
  then have "parse_entry (format_entry derive salt user pw) = Inr (user, stored_of derive (salt, pw))"
    by (simp add: account_ok_def parse_format_entry stored_of_def)
  with format_entry_line [OF ok]
    Cons.IH [of "Suc i" "hm_insert user (stored_of derive (salt, pw)) acc"] Cons.prems
  show ?case by (simp add: e lookup_account_Cons)
qed

text \<open>
  C36. Credentials round trip: a password file of generated entries (one \<^verbatim>\<open>--hash-password\<close> line per
  account, in any number, a later line for a user overriding an earlier one) always loads, and the
  loaded table accepts a login exactly when the user has an entry and the key derivation confirms the
  offered password against the hash derived from the password of the user's last entry.
\<close>

theorem password_file_roundtrip:
  assumes "\<not> has_parent_dir path" and "read_file path = Inr (password_file derive es)"
    and "list_all (account_ok derive) es"
  shows "\<exists>creds. credentials_load read_file path = Inr creds
    \<and> (\<forall>user pw. verify kdf creds user pw \<longleftrightarrow>
         (case map_of (rev es) user of
            None \<Rightarrow> False
          | Some (salt, own) \<Rightarrow> kdf DEFAULT_ITERATIONS salt pw (derive DEFAULT_ITERATIONS salt own)))"
proof -
  from load_password_lines [OF assms(3), of path 0 "[]"] obtain creds
    where "load_lines path 0 (map (entry_line derive) es @ [[]]) [] = Inr creds"
      and g: "\<forall>u. hm_get u creds = lookup_account derive es [] u"
    by blast
  then have l: "credentials_load read_file path = Inr creds"
    using assms(1,2) by (simp add: credentials_load_def split_password_file [OF assms(3)])
  have "verify kdf creds user pw \<longleftrightarrow>
      (case map_of (rev es) user of
         None \<Rightarrow> False
       | Some (salt, own) \<Rightarrow> kdf DEFAULT_ITERATIONS salt pw (derive DEFAULT_ITERATIONS salt own))"
    for user pw
    by (auto simp: verify_def g lookup_account_def stored_of_def split: option.splits)
  with l show ?thesis by blast
qed

theorem password_file_roundtrip_witness:
  "\<exists>creds. credentials_load
       (\<lambda>_. Inr (password_file (\<lambda>n salt pw. salt @ pw) [(''ann'', [1], [2]), (''bob'', [3], [4])])) ''pw''
       = Inr creds
     \<and> verify (\<lambda>n salt pw h. salt @ pw = h) creds ''bob'' [4]
     \<and> \<not> verify (\<lambda>n salt pw h. salt @ pw = h) creds ''bob'' [2]
     \<and> \<not> verify (\<lambda>n salt pw h. salt @ pw = h) creds ''eve'' [4]"
proof -
  let ?d = "\<lambda>(n :: u32) salt pw. salt @ pw"
  have "list_all (account_ok ?d) [(''ann'', [1], [2]), (''bob'', [3], [4])]"
    by (simp add: account_ok_def graphic_def)
  with password_file_roundtrip [of "''pw''"
      "\<lambda>_. Inr (password_file ?d [(''ann'', [1], [2]), (''bob'', [3], [4])])" ?d
      "[(''ann'', [1], [2]), (''bob'', [3], [4])]" "\<lambda>n salt pw h. salt @ pw = h"]
  show ?thesis by (auto simp: has_parent_dir_def)
qed

end
