(* ===== verification/Errors.thy ===== *)
theory Errors
  imports Protocol
begin

section \<open>Error values\<close>

text \<open>
  \<^verbatim>\<open>src/src/error.rs\<close>: the crate's error type, the reason code a CONNACK or DISCONNECT carries for
  it, its rendering and the conversions into it. The payload of an I/O error is its rendered text. The
  names of the reason codes in the rendering are the protocol crate's \<^verbatim>\<open>Debug\<close> output, the argument \<open>rc_debug\<close>.
\<close>

datatype mqtt_error =
    Malformed string
  | Protocol string
  | Reason reason_code string
  | Io string
  | Storage string
  | Config string

fun error_reason_code :: "mqtt_error \<Rightarrow> reason_code" where
  "error_reason_code (Malformed _) = MalformedPacket"
| "error_reason_code (Protocol _) = ProtocolError"
| "error_reason_code (Reason rc _) = rc"
| "error_reason_code (Io _) = UnspecifiedError"
| "error_reason_code (Storage _) = ImplementationSpecificError"
| "error_reason_code (Config _) = UnspecifiedError"

fun error_display :: "(reason_code \<Rightarrow> string) \<Rightarrow> mqtt_error \<Rightarrow> string" where
  "error_display rc_debug (Malformed m) = ''malformed packet: '' @ m"
| "error_display rc_debug (Protocol m) = ''protocol error: '' @ m"
| "error_display rc_debug (Reason rc m) = ''protocol error ('' @ rc_debug rc @ ''): '' @ m"
| "error_display rc_debug (Io e) = ''io error: '' @ e"
| "error_display rc_debug (Storage m) = ''storage error: '' @ m"
| "error_display rc_debug (Config m) = ''config error: '' @ m"

text \<open>\<^verbatim>\<open>From<std::io::Error>\<close> and \<^verbatim>\<open>From<rusqlite::Error>\<close>, of the rendered errors, and the two convenience
  constructors.\<close>

definition error_from_io :: "string \<Rightarrow> mqtt_error" where
  "error_from_io e = Io e"

definition error_from_sqlite :: "string \<Rightarrow> mqtt_error" where
  "error_from_sqlite e = Storage e"

definition malformed :: "string \<Rightarrow> mqtt_error" where
  "malformed msg = Malformed msg"

definition protocol_violation :: "string \<Rightarrow> mqtt_error" where
  "protocol_violation msg = Protocol msg"

text \<open>The one-for-one embedding of the protocol crate's error type.\<close>

fun error_from_protocol :: "protocol_error \<Rightarrow> mqtt_error" where
  "error_from_protocol (P_Malformed m) = Malformed m"
| "error_from_protocol (P_Protocol m) = Protocol m"
| "error_from_protocol (P_Reason rc m) = Reason rc m"
| "error_from_protocol (P_Io e) = Io e"

lemma error_from_protocol_inject: "error_from_protocol e = error_from_protocol e' \<longleftrightarrow> e = e'"
  by (cases e; cases e') simp_all

text \<open>The rendering keeps errors apart: two errors with the same text are the same error, if no two reason
  codes have the same name and names have no closing parenthesis. In a rendered \<open>Reason\<close> the part in
  parentheses ends at the first one.\<close>

lemma display_reason_inject:
  assumes "\<And>rc. CHR '')'' \<notin> set (rc_debug rc)"
    and "rc_debug rc @ ''): '' @ m = rc_debug rc' @ ''): '' @ m'"
  shows "rc_debug rc = rc_debug rc' \<and> m = m'"
proof -
  have "takeWhile (\<lambda>c. c \<noteq> CHR '')'') (rc_debug r @ ''): '' @ x) = rc_debug r" for r x
    using assms(1) [of r] by (subst takeWhile_append2) auto
  with assms(2) have "rc_debug rc = rc_debug rc'" by metis
  with assms(2) show ?thesis by simp
qed

lemma error_display_inject:
  assumes "\<And>rc. CHR '')'' \<notin> set (rc_debug rc)" and "inj rc_debug"
    and "error_display rc_debug e = error_display rc_debug e'"
  shows "e = e'"
proof (cases "\<exists>rc m rc' m'. e = Reason rc m \<and> e' = Reason rc' m'")
  case True
  then obtain rc m rc' m' where e: "e = Reason rc m" "e' = Reason rc' m'" by blast
  with assms(3) have "rc_debug rc @ ''): '' @ m = rc_debug rc' @ ''): '' @ m'" by simp
  from display_reason_inject [OF assms(1) this] injD [OF assms(2), of rc rc'] e show ?thesis by simp
next
  case False
  with assms(3) show ?thesis by (cases e; cases e') auto
qed

end
