(* ===== verification/Config.thy ===== *)
theory Config
  imports Errors Json
begin

section \<open>Configuration\<close>

text \<open>
  \<^verbatim>\<open>src/src/config.rs\<close>: the resolved configuration, its defaults, and the two checks that run once
  after all layers are applied. The record of a bridge comes from \<^verbatim>\<open>src/src/bridge.rs\<close>. A socket
  address is its textual host and its port. A \<^verbatim>\<open>Secret\<close> is wrapped, so that the plain value is only
  reached through \<open>expose\<close>.
\<close>

datatype direction = Out | In | Both

fun forwards_out :: "direction \<Rightarrow> bool" where
  "forwards_out Out = True"
| "forwards_out Both = True"
| "forwards_out In = False"

fun forwards_in :: "direction \<Rightarrow> bool" where
  "forwards_in In = True"
| "forwards_in Both = True"
| "forwards_in Out = False"

record bridge_topic =
  bt_pattern :: string
  bt_direction :: direction
  bt_qos :: qos

record bridge_config =
  bc_name :: string
  bc_address :: string
  bc_client_id :: string
  bc_username :: "string option"
  bc_password :: "string option"
  bc_keepalive :: u16
  bc_protocol_version :: protocol_version
  bc_tls_ca :: "string option"
  bc_tls_cert :: "string option"
  bc_tls_key :: "string option"
  bc_tls_insecure :: bool
  bc_topics :: "bridge_topic list"

datatype secret = Secret (expose: string)

record socket_addr =
  sa_host :: string
  sa_port :: u16

record config =
  cfg_listen_addr :: "socket_addr option"
  cfg_admin_addr :: socket_addr
  cfg_admin_token :: "secret option"
  cfg_tls_listen_addr :: "socket_addr option"
  cfg_tls_cert :: "string option"
  cfg_tls_key :: "string option"
  cfg_tls_client_ca :: "string option"
  cfg_ws_listen_addr :: "socket_addr option"
  cfg_ws_tls_listen_addr :: "socket_addr option"
  cfg_ws_tls_cert :: "string option"
  cfg_ws_tls_key :: "string option"
  cfg_ws_tls_client_ca :: "string option"
  cfg_admin_tls_cert :: "string option"
  cfg_admin_tls_key :: "string option"
  cfg_admin_tls_client_ca :: "string option"
  cfg_acl_path :: "string option"
  cfg_password_file :: "string option"
  cfg_allow_anonymous :: bool
  cfg_db_path :: string
  cfg_max_packet_size :: u32
  cfg_receive_maximum :: u16
  cfg_maximum_qos :: qos
  cfg_retain_available :: bool
  cfg_topic_alias_maximum :: u16
  cfg_server_keep_alive :: "u16 option"
  cfg_max_session_expiry :: u32
  cfg_max_queued_messages :: u32
  cfg_max_connections_per_ip :: u32
  cfg_connection_rate_window_secs :: u32
  cfg_sys_interval :: u32
  cfg_bridges :: "bridge_config list"
  cfg_otlp_endpoint :: "string option"
  cfg_otlp_protocol :: string
  cfg_otlp_headers :: "(string \<times> secret) list"
  cfg_otlp_interval :: u32
  cfg_otlp_metrics :: bool
  cfg_otlp_logs :: bool
  cfg_service_name :: string
  cfg_ha_discovery :: bool
  cfg_ha_discovery_prefix :: string
  cfg_config_file :: "string option"

definition config_default :: config where
  "config_default =
     \<lparr>cfg_listen_addr = Some \<lparr>sa_host = ''0.0.0.0'', sa_port = 1883\<rparr>,
      cfg_admin_addr = \<lparr>sa_host = ''127.0.0.1'', sa_port = 9001\<rparr>, cfg_admin_token = None,
      cfg_tls_listen_addr = None, cfg_tls_cert = None, cfg_tls_key = None, cfg_tls_client_ca = None,
      cfg_ws_listen_addr = None, cfg_ws_tls_listen_addr = None, cfg_ws_tls_cert = None,
      cfg_ws_tls_key = None, cfg_ws_tls_client_ca = None, cfg_admin_tls_cert = None,
      cfg_admin_tls_key = None, cfg_admin_tls_client_ca = None, cfg_acl_path = None,
      cfg_password_file = None, cfg_allow_anonymous = False, cfg_db_path = ''mqtt_broker.db'',
      cfg_max_packet_size = 1024 * 1024, cfg_receive_maximum = 64, cfg_maximum_qos = ExactlyOnce,
      cfg_retain_available = True, cfg_topic_alias_maximum = 16, cfg_server_keep_alive = None,
      cfg_max_session_expiry = 3600, cfg_max_queued_messages = 1000, cfg_max_connections_per_ip = 0,
      cfg_connection_rate_window_secs = 10, cfg_sys_interval = 10, cfg_bridges = [],
      cfg_otlp_endpoint = None, cfg_otlp_protocol = ''http'', cfg_otlp_headers = [],
      cfg_otlp_interval = 60, cfg_otlp_metrics = True, cfg_otlp_logs = True,
      cfg_service_name = ''wispmq'', cfg_ha_discovery = False,
      cfg_ha_discovery_prefix = ''homeassistant'', cfg_config_file = None\<rparr>"

definition drop_port_zero :: "socket_addr option \<Rightarrow> socket_addr option" where
  "drop_port_zero a = (case a of None \<Rightarrow> None | Some x \<Rightarrow> if sa_port x = 0 then None else Some x)"

definition normalize :: "config \<Rightarrow> config" where
  "normalize c =
     c\<lparr>cfg_listen_addr := drop_port_zero (cfg_listen_addr c),
       cfg_tls_listen_addr := drop_port_zero (cfg_tls_listen_addr c),
       cfg_ws_listen_addr := drop_port_zero (cfg_ws_listen_addr c),
       cfg_ws_tls_listen_addr := drop_port_zero (cfg_ws_tls_listen_addr c)\<rparr>"

datatype config_error =
    Tls_listener_without_cert
  | Tls_cert_without_listener
  | Ws_tls_listener_without_cert
  | Ws_tls_cert_without_listener

definition validate :: "config \<Rightarrow> config_error option" where
  "validate c =
     (if cfg_tls_listen_addr c \<noteq> None \<and> (cfg_tls_cert c = None \<or> cfg_tls_key c = None)
      then Some Tls_listener_without_cert
      else if (cfg_tls_cert c \<noteq> None \<or> cfg_tls_key c \<noteq> None) \<and> cfg_tls_listen_addr c = None
      then Some Tls_cert_without_listener
      else if cfg_ws_tls_listen_addr c \<noteq> None \<and> (cfg_ws_tls_cert c = None \<or> cfg_ws_tls_key c = None)
      then Some Ws_tls_listener_without_cert
      else if (cfg_ws_tls_cert c \<noteq> None \<or> cfg_ws_tls_key c \<noteq> None) \<and> cfg_ws_tls_listen_addr c = None
      then Some Ws_tls_cert_without_listener
      else None)"

lemma drop_port_zero_idem [simp]: "drop_port_zero (drop_port_zero a) = drop_port_zero a"
  by (auto simp: drop_port_zero_def split: option.splits)

lemma normalize_idem: "normalize (normalize c) = normalize c"
  by (simp add: normalize_def)

lemma normalize_port: "drop_port_zero a = Some x \<Longrightarrow> sa_port x \<noteq> 0"
  by (auto simp: drop_port_zero_def split: option.splits if_splits)

lemma validate_None:
  "validate c = None \<longleftrightarrow>
     (cfg_tls_listen_addr c \<noteq> None \<longleftrightarrow> cfg_tls_cert c \<noteq> None)
     \<and> (cfg_tls_listen_addr c \<noteq> None \<longleftrightarrow> cfg_tls_key c \<noteq> None)
     \<and> (cfg_ws_tls_listen_addr c \<noteq> None \<longleftrightarrow> cfg_ws_tls_cert c \<noteq> None)
     \<and> (cfg_ws_tls_listen_addr c \<noteq> None \<longleftrightarrow> cfg_ws_tls_key c \<noteq> None)"
  by (auto simp: validate_def split: if_splits)

text \<open>
  A configuration that passes the start-up checks has consistent listeners: no listener is left on
  port 0, and a dedicated TLS listener exists exactly where both its certificate and its key are
  configured, so that a listener meant to speak TLS is never bound without it and a certificate is
  never silently unused.
\<close>

lemma validated_listeners:
  assumes "validate (normalize c) = None"
  shows "list_all (\<lambda>a. map_option sa_port a \<noteq> Some 0)
      [cfg_listen_addr (normalize c), cfg_tls_listen_addr (normalize c), cfg_ws_listen_addr (normalize c),
       cfg_ws_tls_listen_addr (normalize c)]
    \<and> (cfg_tls_listen_addr (normalize c) \<noteq> None \<longleftrightarrow> cfg_tls_cert c \<noteq> None \<and> cfg_tls_key c \<noteq> None)
    \<and> (cfg_ws_tls_listen_addr (normalize c) \<noteq> None \<longleftrightarrow> cfg_ws_tls_cert c \<noteq> None \<and> cfg_ws_tls_key c \<noteq> None)"
proof -
  have "list_all (\<lambda>a. map_option sa_port a \<noteq> Some 0) (map drop_port_zero as)" for as
    by (induction as) (auto dest: normalize_port)
  from this [of "[cfg_listen_addr c, cfg_tls_listen_addr c, cfg_ws_listen_addr c, cfg_ws_tls_listen_addr c]"]
  have "list_all (\<lambda>a. map_option sa_port a \<noteq> Some 0)
      [cfg_listen_addr (normalize c), cfg_tls_listen_addr (normalize c), cfg_ws_listen_addr (normalize c),
       cfg_ws_tls_listen_addr (normalize c)]" by (simp add: normalize_def)
  moreover have "cfg_tls_cert (normalize c) = cfg_tls_cert c" "cfg_tls_key (normalize c) = cfg_tls_key c"
    "cfg_ws_tls_cert (normalize c) = cfg_ws_tls_cert c" "cfg_ws_tls_key (normalize c) = cfg_ws_tls_key c"
    by (simp_all add: normalize_def)
  ultimately show ?thesis using assms unfolding validate_None by metis
qed

end
