(* ===== verification/Storage.thy ===== *)
theory Storage
  imports Errors Message
begin

section \<open>Persistence\<close>

text \<open>
  \<^verbatim>\<open>src/src/storage.rs\<close>: the commands the broker sends to the writer thread, the three tables they
  are applied to, and the loader run at startup. A table is a map from its primary key; an
  \<^verbatim>\<open>INSERT ... ON CONFLICT DO UPDATE\<close> overwrites the non-key columns of the row, a
  \<^verbatim>\<open>DELETE ... WHERE\<close> drops the matching rows, and the foreign key of \<^verbatim>\<open>subscriptions\<close> (switched on by
  \<^verbatim>\<open>PRAGMA foreign_keys = ON\<close>) refuses a subscription whose session has no row. Integer columns hold
  \<^verbatim>\<open>i64\<close> values, here \<open>int\<close>, with the casts of the source written out. The string codec of the protocol
  crate is the argument \<open>C\<close>: \<open>put_utf8\<close> appends one string, \<open>utf8_pair\<close> reads two and returns the rest.
\<close>

record codec =
  put_utf8 :: "string \<Rightarrow> bytes"
  utf8_pair :: "bytes \<Rightarrow> ((string \<times> string) \<times> bytes) option"

record sub_record =
  sr_filter :: string
  sr_qos :: qos
  sr_no_local :: bool
  sr_retain_as_published :: bool
  sr_retain_handling :: retain_handling
  sr_subscription_identifier :: "u32 option"

record session_record =
  se_client_id :: string
  se_session_expiry_interval :: u32
  se_owner_identity :: "string option"
  se_subscriptions :: "sub_record list"

record loaded_state =
  ld_retained :: "(string \<times> message) list"
  ld_sessions :: "session_record list"

datatype command =
    UpsertRetained string message
  | DeleteRetained string
  | UpsertSession string u32 "string option"
  | DeleteSession string
  | UpsertSubscription string sub_record
  | DeleteSubscription string string
  | ClearSubscriptions string

definition to_topic_filter :: "sub_record \<Rightarrow> topic_filter" where
  "to_topic_filter r =
     \<lparr>tf_filter = sr_filter r, tf_qos = sr_qos r, tf_no_local = sr_no_local r,
      tf_retain_as_published = sr_retain_as_published r, tf_retain_handling = sr_retain_handling r\<rparr>"

subsection \<open>Tables\<close>

record retained_row =
  rr_payload :: bytes
  rr_qos :: int
  rr_payload_format :: "int option"
  rr_content_type :: "string option"
  rr_response_topic :: "string option"
  rr_correlation_data :: "bytes option"
  rr_user_properties :: "bytes option"
  rr_expires_at :: "int option"

record session_row =
  sw_session_expiry :: int
  sw_owner_identity :: "string option"

record sub_row =
  bw_qos :: int
  bw_no_local :: int
  bw_retain_as_published :: int
  bw_retain_handling :: int
  bw_sub_id :: "int option"

record db =
  db_retained :: "(string, retained_row) hashmap"
  db_sessions :: "(string, session_row) hashmap"
  db_subscriptions :: "(string \<times> string, sub_row) hashmap"

definition db_empty :: db where
  "db_empty = \<lparr>db_retained = [], db_sessions = [], db_subscriptions = []\<rparr>"

definition encode_user_props :: "codec \<Rightarrow> (string \<times> string) list \<Rightarrow> bytes" where
  "encode_user_props C props = concat (map (\<lambda>(k, v). put_utf8 C k @ put_utf8 C v) props)"

text \<open>The reader loop; the first argument bounds the iterations, and the length of the blob is
  enough because every pair read consumes at least one byte (\<open>codec_ok\<close> below).\<close>

fun decode_loop :: "codec \<Rightarrow> nat \<Rightarrow> bytes \<Rightarrow> (string \<times> string) list" where
  "decode_loop C 0 blob = []"
| "decode_loop C (Suc n) blob =
     (if blob = [] then []
      else (case utf8_pair C blob of
              None \<Rightarrow> []
            | Some (pair, rest) \<Rightarrow> pair # decode_loop C n rest))"

definition decode_user_props :: "codec \<Rightarrow> bytes \<Rightarrow> (string \<times> string) list" where
  "decode_user_props C blob = decode_loop C (length blob) blob"

fun retain_handling_code :: "retain_handling \<Rightarrow> int" where
  "retain_handling_code SendAtSubscribe = 0"
| "retain_handling_code SendIfNewSubscription = 1"
| "retain_handling_code DoNotSend = 2"

definition bool_code :: "bool \<Rightarrow> int" where
  "bool_code b = (if b then 1 else 0)"

definition retained_row_of :: "codec \<Rightarrow> message \<Rightarrow> retained_row" where
  "retained_row_of C m =
     \<lparr>rr_payload = m_payload m, rr_qos = uint (qos_as_u8 (m_qos m)),
      rr_payload_format = map_option uint (m_payload_format_indicator m),
      rr_content_type = m_content_type m, rr_response_topic = m_response_topic m,
      rr_correlation_data = m_correlation_data m,
      rr_user_properties = Some (encode_user_props C (m_user_properties m)),
      rr_expires_at = map_option sint (m_expires_at m)\<rparr>"

definition sub_row_of :: "sub_record \<Rightarrow> sub_row" where
  "sub_row_of r =
     \<lparr>bw_qos = uint (qos_as_u8 (sr_qos r)), bw_no_local = bool_code (sr_no_local r),
      bw_retain_as_published = bool_code (sr_retain_as_published r),
      bw_retain_handling = retain_handling_code (sr_retain_handling r),
      bw_sub_id = map_option uint (sr_subscription_identifier r)\<rparr>"

datatype db_error = Foreign_key_failed

definition delete_subs :: "(string \<times> string \<Rightarrow> bool) \<Rightarrow> db \<Rightarrow> db" where
  "delete_subs P d = d\<lparr>db_subscriptions := filter (\<lambda>(k, _). \<not> P k) (db_subscriptions d)\<rparr>"

fun apply_command :: "codec \<Rightarrow> db \<Rightarrow> command \<Rightarrow> db_error + db" where
  "apply_command C d (UpsertRetained topic m) =
     Inr (d\<lparr>db_retained := hm_insert topic (retained_row_of C m) (db_retained d)\<rparr>)"
| "apply_command C d (DeleteRetained topic) = Inr (d\<lparr>db_retained := hm_remove topic (db_retained d)\<rparr>)"
| "apply_command C d (UpsertSession cid expiry owner) =
     Inr (d\<lparr>db_sessions := hm_insert cid \<lparr>sw_session_expiry = uint expiry, sw_owner_identity = owner\<rparr>
                             (db_sessions d)\<rparr>)"
| "apply_command C d (DeleteSession cid) =
     (let d' = delete_subs (\<lambda>(c, _). c = cid) d
      in Inr (d'\<lparr>db_sessions := hm_remove cid (db_sessions d')\<rparr>))"
| "apply_command C d (UpsertSubscription cid r) =
     (if hm_get cid (db_sessions d) = None then Inl Foreign_key_failed
      else Inr (d\<lparr>db_subscriptions :=
                    hm_insert (cid, sr_filter r) (sub_row_of r) (db_subscriptions d)\<rparr>))"
| "apply_command C d (DeleteSubscription cid flt) = Inr (delete_subs (\<lambda>k. k = (cid, flt)) d)"
| "apply_command C d (ClearSubscriptions cid) = Inr (delete_subs (\<lambda>(c, _). c = cid) d)"

text \<open>The writer thread: a failed command is logged and skipped.\<close>

fun writer_loop :: "codec \<Rightarrow> db \<Rightarrow> command list \<Rightarrow> db" where
  "writer_loop C d [] = d"
| "writer_loop C d (c # cs) =
     (case apply_command C d c of Inl _ \<Rightarrow> writer_loop C d cs | Inr d' \<Rightarrow> writer_loop C d' cs)"

definition load_message :: "codec \<Rightarrow> string \<Rightarrow> retained_row \<Rightarrow> message" where
  "load_message C topic row =
     \<lparr>m_topic = topic, m_payload = rr_payload row,
      m_qos = (case qos_from_u8 (word_of_int (rr_qos row)) of None \<Rightarrow> AtMostOnce | Some q \<Rightarrow> q),
      m_retain = True, m_payload_format_indicator = map_option word_of_int (rr_payload_format row),
      m_content_type = rr_content_type row, m_response_topic = rr_response_topic row,
      m_correlation_data = rr_correlation_data row,
      m_user_properties = (case rr_user_properties row of None \<Rightarrow> [] | Some b \<Rightarrow> decode_user_props C b),
      m_expires_at = map_option word_of_int (rr_expires_at row)\<rparr>"

definition load_sub :: "string \<Rightarrow> sub_row \<Rightarrow> sub_record" where
  "load_sub flt row =
     \<lparr>sr_filter = flt,
      sr_qos = (case qos_from_u8 (word_of_int (bw_qos row)) of None \<Rightarrow> AtMostOnce | Some q \<Rightarrow> q),
      sr_no_local = (bw_no_local row \<noteq> 0), sr_retain_as_published = (bw_retain_as_published row \<noteq> 0),
      sr_retain_handling = (if bw_retain_handling row = 1 then SendIfNewSubscription
                            else if bw_retain_handling row = 2 then DoNotSend else SendAtSubscribe),
      sr_subscription_identifier = map_option word_of_int (bw_sub_id row)\<rparr>"

definition load_session :: "db \<Rightarrow> string \<Rightarrow> session_row \<Rightarrow> session_record" where
  "load_session d cid row =
     \<lparr>se_client_id = cid, se_session_expiry_interval = word_of_int (sw_session_expiry row),
      se_owner_identity = sw_owner_identity row,
      se_subscriptions =
        map (\<lambda>((_, flt), r). load_sub flt r) (filter (\<lambda>((c, _), _). c = cid) (db_subscriptions d))\<rparr>"

definition load_all :: "codec \<Rightarrow> u64 \<Rightarrow> db \<Rightarrow> loaded_state" where
  "load_all C now d =
     \<lparr>ld_retained = filter (\<lambda>(_, m). \<not> is_expired now m)
                      (map (\<lambda>(t, row). (t, load_message C t row)) (db_retained d)),
      ld_sessions = map (\<lambda>(cid, row). load_session d cid row) (db_sessions d)\<rparr>"

subsection \<open>Opening the database\<close>

text \<open>
  A database file as it is found: tables may be missing, and an older \<^verbatim>\<open>sessions\<close> table has no
  \<^verbatim>\<open>owner_identity\<close> column. \<open>migrate\<close> creates what is missing and leaves what is there; the added column
  is NULL in every row. Each call into SQLite can fail with a rendered error, which the \<^verbatim>\<open>?\<close> operator turns
  into \<open>Storage\<close>; the \<open>sqlite\<close> record says which do, \<open>sq_spawn\<close> is the start of the writer thread.
\<close>

record db_file =
  df_retained :: "(string, retained_row) hashmap option"
  df_sessions :: "(string, session_row) hashmap option"
  df_has_owner_identity :: bool
  df_subscriptions :: "(string \<times> string, sub_row) hashmap option"

definition create_if_missing :: "('k, 'v) hashmap option \<Rightarrow> ('k, 'v) hashmap" where
  "create_if_missing t = (case t of None \<Rightarrow> [] | Some rows \<Rightarrow> rows)"

definition migrate :: "db_file \<Rightarrow> db" where
  "migrate f =
     \<lparr>db_retained = create_if_missing (df_retained f),
      db_sessions =
        (case df_sessions f of
           None \<Rightarrow> []
         | Some rows \<Rightarrow> if df_has_owner_identity f then rows
                       else hm_map (\<lambda>_ row. row\<lparr>sw_owner_identity := None\<rparr>) rows),
      db_subscriptions = create_if_missing (df_subscriptions f)\<rparr>"

record sqlite =
  sq_connect :: "string \<Rightarrow> string + db_file"
  sq_pragmas :: "string option"
  sq_migrate :: "string option"
  sq_load :: "string option"
  sq_spawn :: "string option"

definition storage_open :: "sqlite \<Rightarrow> codec \<Rightarrow> u64 \<Rightarrow> string \<Rightarrow> mqtt_error + db \<times> loaded_state" where
  "storage_open S C now path =
     (case sq_connect S path of
        Inl e \<Rightarrow> Inl (error_from_sqlite e)
      | Inr f \<Rightarrow>
          (case sq_pragmas S of Some e \<Rightarrow> Inl (error_from_sqlite e)
           | None \<Rightarrow>
          (case sq_migrate S of Some e \<Rightarrow> Inl (error_from_sqlite e)
           | None \<Rightarrow>
          (case sq_load S of Some e \<Rightarrow> Inl (error_from_sqlite e)
           | None \<Rightarrow>
          (case sq_spawn S of Some e \<Rightarrow> Inl (Storage (''spawn storage thread: '' @ e))
           | None \<Rightarrow> let d = migrate f in Inr (d, load_all C now d))))))"

text \<open>The handle. A command goes into the channel of the writer thread; once that thread is gone the command is
  dropped and the loss is logged, the first time only (\<open>True\<close> in the result).\<close>

record storage =
  st_channel :: "command list"
  st_writer_alive :: bool
  st_writer_lost :: bool

definition storage_new :: storage where
  "storage_new = \<lparr>st_channel = [], st_writer_alive = True, st_writer_lost = False\<rparr>"

definition storage_send :: "command \<Rightarrow> storage \<Rightarrow> bool \<times> storage" where
  "storage_send cmd st =
     (if st_writer_alive st then (False, st\<lparr>st_channel := st_channel st @ [cmd]\<rparr>)
      else (\<not> st_writer_lost st, st\<lparr>st_writer_lost := True\<rparr>))"

primrec storage_send_all :: "command list \<Rightarrow> storage \<Rightarrow> bool list \<times> storage" where
  "storage_send_all [] st = ([], st)"
| "storage_send_all (c # cs) st =
     (let (logged, st1) = storage_send c st; (rest, st2) = storage_send_all cs st1 in (logged # rest, st2))"

text \<open>With a live writer every command arrives, in order and silently; without one the first command, and no later
  one, is reported, and none arrives.\<close>

lemma storage_send_all_alive:
  "st_writer_alive st \<Longrightarrow> storage_send_all cs st = (replicate (length cs) False, st\<lparr>st_channel := st_channel st @ cs\<rparr>)"
  by (induction cs arbitrary: st) (simp_all add: storage_send_def)

lemma storage_send_all_lost:
  assumes "\<not> st_writer_alive st" and "\<not> st_writer_lost st"
  shows "storage_send_all (c # cs) st = (True # replicate (length cs) False, st\<lparr>st_writer_lost := True\<rparr>)"
proof -
  have "storage_send_all cs t = (replicate (length cs) False, t)" if "\<not> st_writer_alive t" "st_writer_lost t" for t :: storage and cs
  proof -
    from that obtain q where t: "t = \<lparr>st_channel = q, st_writer_alive = False, st_writer_lost = True\<rparr>" by (cases t) simp
    show ?thesis unfolding t by (induction cs) (simp_all add: storage_send_def)
  qed
  with assms show ?thesis by (simp add: storage_send_def)
qed

text \<open>A migrated database migrates to itself, and a session of an older schema comes out without an owner.\<close>

definition file_of :: "db \<Rightarrow> db_file" where
  "file_of d = \<lparr>df_retained = Some (db_retained d), df_sessions = Some (db_sessions d), df_has_owner_identity = True,
     df_subscriptions = Some (db_subscriptions d)\<rparr>"

lemma migrate_file_of: "migrate (file_of d) = d"
  by (simp add: migrate_def file_of_def create_if_missing_def)

lemma migrate_sessions:
  "hm_get c (db_sessions (migrate f)) =
     map_option (\<lambda>row. if df_has_owner_identity f then row else row\<lparr>sw_owner_identity := None\<rparr>)
       (Option.bind (df_sessions f) (hm_get c))"
  by (simp add: migrate_def option.map_ident split: option.split)

lemma storage_open_loaded: "storage_open S C now path = Inr (d, ld) \<Longrightarrow> ld = load_all C now d"
  by (auto simp: storage_open_def Let_def split: sum.splits option.splits)

subsection \<open>Column round trips\<close>

text \<open>What the storage code relies on of the string codec: a pair of MQTT strings (at most 65535 bytes
  each) is read back as it was written, with what follows it untouched, and a written string is never
  empty (it has a length prefix).\<close>

definition codec_ok :: "codec \<Rightarrow> bool" where
  "codec_ok C \<longleftrightarrow>
     (\<forall>k v rest. length k \<le> 65535 \<longrightarrow> length v \<le> 65535 \<longrightarrow>
        utf8_pair C (put_utf8 C k @ put_utf8 C v @ rest) = Some ((k, v), rest))
     \<and> (\<forall>k. put_utf8 C k \<noteq> [])"

definition props_ok :: "(string \<times> string) list \<Rightarrow> bool" where
  "props_ok ps \<longleftrightarrow> (\<forall>(k, v) \<in> set ps. length k \<le> 65535 \<and> length v \<le> 65535)"

lemma decode_loop_encode:
  assumes "codec_ok C"
  shows "props_ok ps \<Longrightarrow> length (encode_user_props C ps) \<le> n \<Longrightarrow>
    decode_loop C n (encode_user_props C ps) = ps"
proof (induction ps arbitrary: n)
  case Nil
  then show ?case by (cases n) (simp_all add: encode_user_props_def)
next
  case (Cons p ps)
  obtain k v where p: "p = (k, v)" by force
  let ?rest = "encode_user_props C ps"
  have enc: "encode_user_props C ((k, v) # ps) = put_utf8 C k @ put_utf8 C v @ ?rest"
    by (simp add: encode_user_props_def)
  from assms have ne: "put_utf8 C k \<noteq> []" by (simp add: codec_ok_def)
  then have "length ?rest < length (encode_user_props C (p # ps))" by (simp add: p enc)
  with Cons.prems(2) obtain n' where n: "n = Suc n'" and len: "length ?rest \<le> n'"
    by (cases n) auto
  from Cons.prems(1) have "props_ok ps" and kv: "length k \<le> 65535" "length v \<le> 65535"
    by (simp_all add: props_ok_def p)
  from Cons.IH [OF this(1) len] have "decode_loop C n' ?rest = ps" .
  moreover from assms kv
  have "utf8_pair C (put_utf8 C k @ put_utf8 C v @ ?rest) = Some ((k, v), ?rest)"
    by (simp add: codec_ok_def)
  ultimately show ?case using ne by (simp add: n p enc)
qed

lemma decode_encode_user_props:
  "codec_ok C \<Longrightarrow> props_ok ps \<Longrightarrow> decode_user_props C (encode_user_props C ps) = ps"
  by (simp add: decode_user_props_def decode_loop_encode)

lemma load_message_row:
  assumes "codec_ok C" and "props_ok (m_user_properties m)"
  shows "load_message C (m_topic m) (retained_row_of C m) = m\<lparr>m_retain := True\<rparr>"
  using assms
  by (simp add: load_message_def retained_row_of_def decode_encode_user_props option.map_comp comp_def
      option.map_ident)

lemma load_sub_row: "load_sub (sr_filter r) (sub_row_of r) = r"
proof -
  have "(case qos_from_u8 (word_of_int (uint (qos_as_u8 (sr_qos r)))) of None \<Rightarrow> AtMostOnce | Some q \<Rightarrow> q)
        = sr_qos r" by simp
  then show ?thesis
    by (cases "sr_retain_handling r")
      (simp_all add: load_sub_def sub_row_of_def bool_code_def option.map_comp comp_def option.map_ident)
qed

text \<open>A codec that meets this: a string is two length bytes, most significant first, and its bytes.\<close>

fun take_utf8 :: "bytes \<Rightarrow> (string \<times> bytes) option" where
  "take_utf8 (h # l # rest) =
     (let n = unat h * 256 + unat l
      in if length rest < n then None
         else Some (map (\<lambda>b. char_of (unat b)) (take n rest), drop n rest))"
| "take_utf8 _ = None"

definition prefix_codec :: codec where
  "prefix_codec =
     \<lparr>put_utf8 = (\<lambda>s. of_nat (length s div 256) # of_nat (length s mod 256)
                       # map (\<lambda>c. of_nat (of_char c)) s),
      utf8_pair = (\<lambda>blob. case take_utf8 blob of
                             None \<Rightarrow> None
                           | Some (k, rest) \<Rightarrow> (case take_utf8 rest of
                                                 None \<Rightarrow> None
                                               | Some (v, rest') \<Rightarrow> Some ((k, v), rest')))\<rparr>"

lemma unat_small_u8: "n < 256 \<Longrightarrow> unat (of_nat n :: u8) = n"
  by (simp add: unat_of_nat)

lemma char_of_stored: "char_of (unat (of_nat (of_char c) :: u8)) = c"
proof -
  have "of_char c < (256 :: nat)" by simp
  then show ?thesis by (simp add: unat_small_u8)
qed

lemma take_put_utf8:
  assumes "length k \<le> 65535"
  shows "take_utf8 (put_utf8 prefix_codec k @ rest) = Some (k, rest)"
proof -
  from assms have "length k div 256 < 256" by simp
  then show ?thesis
    by (simp add: prefix_codec_def unat_small_u8 char_of_stored comp_def)
qed

lemma prefix_codec_ok: "codec_ok prefix_codec"
proof -
  have pair: "utf8_pair prefix_codec blob =
     (case take_utf8 blob of
        None \<Rightarrow> None
      | Some (k, rest) \<Rightarrow> (case take_utf8 rest of
                            None \<Rightarrow> None | Some (v, rest') \<Rightarrow> Some ((k, v), rest')))" for blob
    by (simp add: prefix_codec_def)
  have "put_utf8 prefix_codec k \<noteq> []" for k by (simp add: prefix_codec_def)
  then show ?thesis by (simp add: codec_ok_def pair take_put_utf8)
qed

subsection \<open>What a log of commands leaves behind\<close>

text \<open>The abstract content of the database: the retained message of every topic, and of every stored
  session its expiry, its owner and its subscriptions by filter. \<open>replay\<close> is the effect of one command
  on it.\<close>

type_synonym session_view = "u32 \<times> string option \<times> (string \<Rightarrow> sub_record option)"

record store_view =
  sv_retained :: "string \<Rightarrow> message option"
  sv_sessions :: "string \<Rightarrow> session_view option"

definition empty_view :: store_view where
  "empty_view = \<lparr>sv_retained = (\<lambda>_. None), sv_sessions = (\<lambda>_. None)\<rparr>"

definition with_subs ::
    "((string \<Rightarrow> sub_record option) \<Rightarrow> (string \<Rightarrow> sub_record option)) \<Rightarrow> string \<Rightarrow> store_view \<Rightarrow> store_view"
  where
  "with_subs f cid v =
     v\<lparr>sv_sessions := (sv_sessions v)(cid := map_option (\<lambda>(e, ow, subs). (e, ow, f subs)) (sv_sessions v cid))\<rparr>"

fun replay :: "command \<Rightarrow> store_view \<Rightarrow> store_view" where
  "replay (UpsertRetained topic m) v =
     v\<lparr>sv_retained := (sv_retained v)(topic := Some (m\<lparr>m_topic := topic, m_retain := True\<rparr>))\<rparr>"
| "replay (DeleteRetained topic) v = v\<lparr>sv_retained := (sv_retained v)(topic := None)\<rparr>"
| "replay (UpsertSession cid e ow) v =
     v\<lparr>sv_sessions := (sv_sessions v)(cid := Some (e, ow, case sv_sessions v cid of
                                                    None \<Rightarrow> (\<lambda>_. None) | Some (_, _, subs) \<Rightarrow> subs))\<rparr>"
| "replay (DeleteSession cid) v = v\<lparr>sv_sessions := (sv_sessions v)(cid := None)\<rparr>"
| "replay (UpsertSubscription cid r) v = with_subs (\<lambda>subs. subs(sr_filter r := Some r)) cid v"
| "replay (DeleteSubscription cid flt) v = with_subs (\<lambda>subs. subs(flt := None)) cid v"
| "replay (ClearSubscriptions cid) v = with_subs (\<lambda>_ _. None) cid v"

definition view_of :: "codec \<Rightarrow> db \<Rightarrow> store_view" where
  "view_of C d =
     \<lparr>sv_retained = (\<lambda>t. map_option (load_message C t) (hm_get t (db_retained d))),
      sv_sessions = (\<lambda>cid. map_option
         (\<lambda>row. (word_of_int (sw_session_expiry row), sw_owner_identity row,
                 \<lambda>flt. map_option (load_sub flt) (hm_get (cid, flt) (db_subscriptions d))))
         (hm_get cid (db_sessions d)))\<rparr>"

text \<open>The database invariant: primary keys are unique and every subscription has its session.\<close>

definition db_ok :: "db \<Rightarrow> bool" where
  "db_ok d \<longleftrightarrow> hm_wf (db_retained d) \<and> hm_wf (db_sessions d) \<and> hm_wf (db_subscriptions d)
     \<and> (\<forall>cid flt. hm_get cid (db_sessions d) = None \<longrightarrow> hm_get (cid, flt) (db_subscriptions d) = None)"

fun command_ok :: "command \<Rightarrow> bool" where
  "command_ok (UpsertRetained _ m) = props_ok (m_user_properties m)"
| "command_ok _ = True"

lemma db_ok_empty [simp]: "db_ok db_empty"
  by (simp add: db_ok_def db_empty_def)

lemma delete_subs_simps [simp]:
  "db_retained (delete_subs P d) = db_retained d"
  "db_sessions (delete_subs P d) = db_sessions d"
  by (simp_all add: delete_subs_def)

lemma delete_subs_get:
  "hm_wf (db_subscriptions d) \<Longrightarrow>
   hm_get k (db_subscriptions (delete_subs P d)) =
     (if P k then None else hm_get k (db_subscriptions d))"
  by (simp add: delete_subs_def hm_get_filter [of _ _ "\<lambda>k _. \<not> P k"] split: option.splits)

lemma delete_subs_wf [simp]:
  "hm_wf (db_subscriptions d) \<Longrightarrow> hm_wf (db_subscriptions (delete_subs P d))"
  by (simp add: delete_subs_def)

lemma load_message_stored:
  assumes "codec_ok C" and "props_ok (m_user_properties m)"
  shows "load_message C t (retained_row_of C m) = m\<lparr>m_topic := t, m_retain := True\<rparr>"
  using assms
  by (simp add: load_message_def retained_row_of_def decode_encode_user_props option.map_comp comp_def
      option.map_ident)

lemma apply_command_ok:
  assumes "db_ok d" and "apply_command C d c = Inr d'"
  shows "db_ok d'"
  using assms
  by (cases c) (auto simp: db_ok_def Let_def delete_subs_get split: if_splits)

text \<open>Every command that is applied has the abstract effect, and a refused one has none.\<close>

lemma apply_command_view:
  assumes "codec_ok C" and "db_ok d" and "command_ok c"
  shows "case apply_command C d c of
           Inl _ \<Rightarrow> view_of C d = replay c (view_of C d)
         | Inr d' \<Rightarrow> view_of C d' = replay c (view_of C d)"
  using assms
  by (cases c)
    (auto simp: view_of_def with_subs_def db_ok_def Let_def delete_subs_get load_message_stored
      load_sub_row fun_eq_iff option.map_comp comp_def intro!: option.map_cong split: option.splits)

lemma writer_loop_view:
  assumes "codec_ok C"
  shows "db_ok d \<Longrightarrow> list_all command_ok cs \<Longrightarrow>
    db_ok (writer_loop C d cs) \<and> view_of C (writer_loop C d cs) = fold replay cs (view_of C d)"
proof (induction cs arbitrary: d)
  case Nil
  then show ?case by simp
next
  case (Cons c cs)
  from Cons.prems have c: "command_ok c" and cs: "list_all command_ok cs" by simp_all
  from apply_command_view [OF assms Cons.prems(1) c] apply_command_ok [OF Cons.prems(1)]
    Cons.IH [OF Cons.prems(1) cs] Cons.IH [OF _ cs]
  show ?case by (fastforce split: sum.splits)
qed

text \<open>What the loader returns of a database: the content of its view, less expired messages.\<close>

definition session_view_of :: "session_record \<Rightarrow> string \<times> session_view" where
  "session_view_of s =
     (se_client_id s,
      (se_session_expiry_interval s, se_owner_identity s,
       map_of (map (\<lambda>r. (sr_filter r, r)) (se_subscriptions s))))"

lemma load_retained_get:
  assumes "db_ok d"
  shows "hm_get t (ld_retained (load_all C now d)) =
    (case sv_retained (view_of C d) t of
       None \<Rightarrow> None | Some m \<Rightarrow> if is_expired now m then None else Some m)"
proof -
  let ?m = "hm_map (load_message C) (db_retained d)"
  have "hm_wf ?m" using assms by (simp add: db_ok_def)
  from hm_get_filter [OF this, of t "\<lambda>_ m. \<not> is_expired now m"]
  show ?thesis by (simp add: load_all_def view_of_def hm_map_def [symmetric] split: option.splits)
qed

lemma load_subs_get:
  "map_of (map ((\<lambda>r. (sr_filter r, r)) \<circ> (\<lambda>((_, flt), r). load_sub flt r))
             (filter (\<lambda>((c, _), _). c = cid) subs)) flt
   = map_option (load_sub flt) (hm_get (cid, flt) subs)"
proof (induction subs)
  case Nil
  then show ?case by simp
next
  case (Cons e subs)
  obtain c f r where e: "e = ((c, f), r)" by (metis prod.exhaust)
  have "sr_filter (load_sub f r) = f" by (simp add: load_sub_def)
  with Cons.IH show ?case by (simp add: e hm_get_Cons)
qed

lemma load_sessions_get:
  "map_of (map session_view_of (ld_sessions (load_all C now d))) cid = sv_sessions (view_of C d) cid"
proof -
  have "session_view_of (load_session d c row) =
          (c, (word_of_int (sw_session_expiry row), sw_owner_identity row,
               \<lambda>flt. map_option (load_sub flt) (hm_get (c, flt) (db_subscriptions d))))" for c row
    by (simp add: session_view_of_def load_session_def load_subs_get fun_eq_iff)
  then have "map session_view_of (ld_sessions (load_all C now d)) =
     hm_map (\<lambda>c row. (word_of_int (sw_session_expiry row), sw_owner_identity row,
               \<lambda>flt. map_option (load_sub flt) (hm_get (c, flt) (db_subscriptions d)))) (db_sessions d)"
    by (simp add: load_all_def hm_map_def comp_def case_prod_beta)
  then show ?thesis
    using hm_get_map [of cid _ "db_sessions d"] by (simp add: hm_get_def view_of_def)
qed

lemma view_of_empty [simp]: "view_of C db_empty = empty_view"
  by (simp add: view_of_def db_empty_def empty_view_def)

text \<open>
  C34. Durability: after the writer thread has applied any log of commands to a fresh database, the
  loader returns exactly what the log says. A topic has the message last retained on it and not
  deleted since, marked as retained and left out once it has expired; a session has the expiry and
  owner last stored and exactly the subscriptions stored since its creation and not removed, each with
  all its options, and a subscription stored for a session that has no row is refused without
  disturbing anything else.
\<close>

theorem storage_replays_log:
  assumes "codec_ok C" and "list_all command_ok cs"
  shows "(\<forall>t. hm_get t (ld_retained (load_all C now (writer_loop C db_empty cs))) =
           (case sv_retained (fold replay cs empty_view) t of
              None \<Rightarrow> None | Some m \<Rightarrow> if is_expired now m then None else Some m))
       \<and> (\<forall>cid. map_of (map session_view_of (ld_sessions (load_all C now (writer_loop C db_empty cs)))) cid =
           sv_sessions (fold replay cs empty_view) cid)"
proof -
  from writer_loop_view [OF assms(1) db_ok_empty assms(2)]
  have "db_ok (writer_loop C db_empty cs)"
    and "view_of C (writer_loop C db_empty cs) = fold replay cs empty_view" by simp_all
  then show ?thesis by (simp add: load_retained_get load_sessions_get)
qed

definition demo_stored_message :: message where
  "demo_stored_message =
     \<lparr>m_topic = ''t'', m_payload = [1, 2], m_qos = AtLeastOnce, m_retain = True,
      m_payload_format_indicator = None, m_content_type = Some ''text'', m_response_topic = None,
      m_correlation_data = None, m_user_properties = [(''a'', ''b'')], m_expires_at = Some 9\<rparr>"

definition demo_sub_record :: sub_record where
  "demo_sub_record =
     \<lparr>sr_filter = ''f'', sr_qos = ExactlyOnce, sr_no_local = True, sr_retain_as_published = False,
      sr_retain_handling = DoNotSend, sr_subscription_identifier = Some 7\<rparr>"

definition demo_log :: "command list" where
  "demo_log =
     [UpsertSubscription ''c'' demo_sub_record, UpsertRetained ''t'' demo_stored_message,
      UpsertSession ''c'' 60 (Some ''u''), UpsertSubscription ''c'' demo_sub_record,
      UpsertSubscription ''c'' (demo_sub_record\<lparr>sr_filter := ''g''\<rparr>), DeleteSubscription ''c'' ''f'']"

theorem storage_replays_log_witness:
  "hm_get ''t'' (ld_retained (load_all prefix_codec 8 (writer_loop prefix_codec db_empty demo_log)))
     = Some demo_stored_message
   \<and> hm_get ''t'' (ld_retained (load_all prefix_codec 9 (writer_loop prefix_codec db_empty demo_log))) = None
   \<and> map_of (map session_view_of
        (ld_sessions (load_all prefix_codec 8 (writer_loop prefix_codec db_empty demo_log)))) ''c''
     = Some (60, Some ''u'', [''g'' \<mapsto> demo_sub_record\<lparr>sr_filter := ''g''\<rparr>])"
proof -
  have ok: "list_all command_ok demo_log"
    by (simp add: demo_log_def demo_stored_message_def props_ok_def)
  have live: "\<not> is_expired 8 demo_stored_message" "is_expired 9 demo_stored_message"
    by (simp_all add: is_expired_iff demo_stored_message_def)
  have same: "demo_stored_message\<lparr>m_topic := ''t'', m_retain := True\<rparr> = demo_stored_message"
    by (simp add: demo_stored_message_def)
  have f: "sr_filter demo_sub_record = ''f''" by (simp add: demo_sub_record_def)
  show ?thesis
    using storage_replays_log [OF prefix_codec_ok ok, of 8] storage_replays_log [OF prefix_codec_ok ok, of 9]
    by (simp add: demo_log_def empty_view_def with_subs_def live same f fun_upd_twist)
qed

subsection \<open>Typed rows\<close>

text \<open>SQLite columns are dynamically typed 64-bit integers. A row is well typed when its integers are values of the
  Rust types they are read into; the casts of the loader lose nothing exactly on such rows.\<close>

definition retained_row_typed :: "retained_row \<Rightarrow> bool" where
  "retained_row_typed row \<longleftrightarrow> rr_qos row \<in> {0, 1, 2}
     \<and> (case rr_payload_format row of None \<Rightarrow> True | Some n \<Rightarrow> 0 \<le> n \<and> n < 2 ^ 8)
     \<and> (case rr_expires_at row of None \<Rightarrow> True | Some n \<Rightarrow> - (2 ^ 63) \<le> n \<and> n < 2 ^ 63)"

definition session_row_typed :: "session_row \<Rightarrow> bool" where
  "session_row_typed row \<longleftrightarrow> 0 \<le> sw_session_expiry row \<and> sw_session_expiry row < 2 ^ 32"

definition sub_row_typed :: "sub_row \<Rightarrow> bool" where
  "sub_row_typed row \<longleftrightarrow> bw_qos row \<in> {0, 1, 2} \<and> bw_no_local row \<in> {0, 1} \<and> bw_retain_as_published row \<in> {0, 1}
     \<and> bw_retain_handling row \<in> {0, 1, 2} \<and> (case bw_sub_id row of None \<Rightarrow> True | Some n \<Rightarrow> 0 \<le> n \<and> n < 2 ^ 32)"

definition db_typed :: "db \<Rightarrow> bool" where
  "db_typed d \<longleftrightarrow> list_all (retained_row_typed \<circ> snd) (db_retained d) \<and> list_all (session_row_typed \<circ> snd) (db_sessions d)
     \<and> list_all (sub_row_typed \<circ> snd) (db_subscriptions d)"

lemma qos_column: "uint (qos_as_u8 q) \<in> {0, 1, 2}"
  by (cases q) simp_all

lemma retain_handling_column: "retain_handling_code h \<in> {0, 1, 2}"
  by (cases h) simp_all

lemma signed_column: "- (2 ^ 63) \<le> sint (w :: u64) \<and> sint w < 2 ^ 63"
  using sint_greater_eq [of w] sint_lt [of w] by simp

lemma unsigned_column: "uint (w :: u32) < 2 ^ 32" "uint (v :: u8) < 2 ^ 8"
  using uint_lt2p [of w] uint_lt2p [of v] by simp_all

lemma retained_row_of_typed: "retained_row_typed (retained_row_of C m)"
  using qos_column signed_column unsigned_column
  by (simp add: retained_row_typed_def retained_row_of_def split: option.split)

lemma sub_row_of_typed: "sub_row_typed (sub_row_of r)"
  using qos_column retain_handling_column unsigned_column
  by (simp add: sub_row_typed_def sub_row_of_def bool_code_def split: option.split)

lemma list_all_hm_insert: "list_all (Q \<circ> snd) m \<Longrightarrow> Q v \<Longrightarrow> list_all (Q \<circ> snd) (hm_insert k v m)"
  by (induction m) (auto simp: hm_insert_def)

lemma list_all_hm_remove: "list_all (Q \<circ> snd) m \<Longrightarrow> list_all (Q \<circ> snd) (hm_remove k m)"
  by (simp add: hm_remove_def AList.delete_eq list_all_iff)

lemma list_all_kept: "list_all Q xs \<Longrightarrow> list_all Q (filter R xs)"
  by (simp add: list_all_iff)

lemma apply_command_typed: "db_typed d \<Longrightarrow> apply_command C d c = Inr d' \<Longrightarrow> db_typed d'"
proof (cases c)
  case (UpsertSession cid e owner)
  have "session_row_typed \<lparr>sw_session_expiry = uint e, sw_owner_identity = owner\<rparr>"
    using unsigned_column by (simp add: session_row_typed_def)
  then show "db_typed d \<Longrightarrow> apply_command C d c = Inr d' \<Longrightarrow> db_typed d'"
    using UpsertSession by (auto simp: db_typed_def intro: list_all_hm_insert)
qed (auto simp: db_typed_def Let_def delete_subs_def intro: list_all_kept list_all_hm_remove
    list_all_hm_insert [where Q = retained_row_typed, OF _ retained_row_of_typed]
    list_all_hm_insert [where Q = sub_row_typed, OF _ sub_row_of_typed] split: if_splits)

lemma writer_loop_typed: "db_typed d \<Longrightarrow> db_typed (writer_loop C d cs)"
  by (induction C d cs rule: writer_loop.induct) (auto split: sum.split intro: apply_command_typed)

lemma signed_cast: "- (2 ^ 63) \<le> n \<Longrightarrow> n < 2 ^ 63 \<Longrightarrow> sint (word_of_int n :: u64) = n"
  by (simp add: sint_sbintrunc' signed_take_bit_int_eq_self)

lemma unsigned_cast:
  "0 \<le> n \<Longrightarrow> n < 2 ^ 32 \<Longrightarrow> uint (word_of_int n :: u32) = n" "0 \<le> n \<Longrightarrow> n < 2 ^ 8 \<Longrightarrow> uint (word_of_int n :: u8) = n"
  by (simp_all add: uint_word_of_int)

lemma qos_cast: "n \<in> {0, 1, 2} \<Longrightarrow>
    uint (qos_as_u8 (case qos_from_u8 (word_of_int n) of None \<Rightarrow> AtMostOnce | Some q \<Rightarrow> q)) = n"
  by (auto simp: qos_from_u8_def)

lemma sub_row_exact: "sub_row_typed row \<Longrightarrow> sub_row_of (load_sub flt row) = row"
  by (cases row)
    (auto simp: sub_row_typed_def sub_row_of_def load_sub_def qos_cast bool_code_def unsigned_cast split: option.splits)

lemma retained_row_exact:
  assumes "retained_row_typed row"
  shows "rr_qos (retained_row_of C (load_message C t row)) = rr_qos row"
    "rr_payload_format (retained_row_of C (load_message C t row)) = rr_payload_format row"
    "rr_expires_at (retained_row_of C (load_message C t row)) = rr_expires_at row"
  using assms
  by (auto simp: retained_row_typed_def retained_row_of_def load_message_def qos_cast signed_cast unsigned_cast split: option.splits)

text \<open>
  C40. The rows stay well typed. Whatever the writer applies to a well-typed database, every integer column of every row is
  again a value of the Rust type it is read into, and therefore none of the loader's casts changes it: the QoS, the
  payload format, the expiry time of a message, the expiry interval of a session and every column of a
  subscription read back as the value that is stored.
\<close>

theorem stored_rows_typed:
  assumes "db_typed d" and "d' = writer_loop C d cs"
  shows "db_typed d'
    \<and> list_all (\<lambda>(t, row). let again = retained_row_of C (load_message C t row)
        in rr_qos again = rr_qos row \<and> rr_payload_format again = rr_payload_format row \<and> rr_expires_at again = rr_expires_at row)
      (db_retained d')
    \<and> list_all (\<lambda>(cid, row). uint (se_session_expiry_interval (load_session d' cid row)) = sw_session_expiry row) (db_sessions d')
    \<and> list_all (\<lambda>((_, flt), row). sub_row_of (load_sub flt row) = row) (db_subscriptions d')"
proof -
  have typed: "db_typed d'" using writer_loop_typed [OF assms(1)] assms(2) by simp
  then show ?thesis
    by (auto simp: db_typed_def list_all_iff Let_def retained_row_exact sub_row_exact load_session_def session_row_typed_def unsigned_cast)
qed

theorem stored_rows_typed_witness:
  "db_typed (writer_loop prefix_codec db_empty demo_log)
   \<and> list_all (\<lambda>((_, flt), row). sub_row_of (load_sub flt row) = row) (db_subscriptions (writer_loop prefix_codec db_empty demo_log))"
proof -
  have "db_typed db_empty" by (simp add: db_typed_def db_empty_def)
  from stored_rows_typed [OF this refl, of prefix_codec demo_log] show ?thesis by blast
qed

end
