(* ===== verification/Metrics.thy ===== *)
theory Metrics
  imports Protocol
begin

section \<open>Counters\<close>

text \<open>
  \<^verbatim>\<open>src/src/metrics.rs\<close>, the counting half: the process-wide \<^verbatim>\<open>AtomicU64\<close> counters (which wrap on
  overflow) and the operations of \<^verbatim>\<open>impl Metrics\<close>. An operation of the model is one lock-holding
  step, so an atomic update is a plain update of the field. The compare-and-swap loop of
  \<open>observe_clients_connected\<close> exists for tasks that run it at the same time: \<open>observe_step\<close> is the step
  relation of any number of tasks inside it, one atomic access per step.
\<close>

record metrics =
  mx_connections_total :: u64
  mx_packets_received :: u64
  mx_packets_sent :: u64
  mx_bytes_received :: u64
  mx_bytes_sent :: u64
  mx_publish_received :: u64
  mx_publish_delivered :: u64
  mx_publish_dropped :: u64
  mx_bridge_forwarded_out :: u64
  mx_bridge_forwarded_in :: u64
  mx_bridges_connected :: u64
  mx_publish_bytes_received :: u64
  mx_publish_bytes_sent :: u64
  mx_socket_connections :: u64
  mx_clients_maximum :: u64
  mx_connections_rate_limited :: u64
  mx_clients_expired :: u64
  mx_packet_received :: "u64 list"
  mx_packet_sent :: "u64 list"

definition PACKET_KINDS :: nat where
  "PACKET_KINDS = 16"

definition metrics_default :: metrics where
  "metrics_default =
     \<lparr>mx_connections_total = 0, mx_packets_received = 0, mx_packets_sent = 0, mx_bytes_received = 0,
      mx_bytes_sent = 0, mx_publish_received = 0, mx_publish_delivered = 0, mx_publish_dropped = 0,
      mx_bridge_forwarded_out = 0, mx_bridge_forwarded_in = 0, mx_bridges_connected = 0,
      mx_publish_bytes_received = 0, mx_publish_bytes_sent = 0, mx_socket_connections = 0,
      mx_clients_maximum = 0, mx_connections_rate_limited = 0, mx_clients_expired = 0,
      mx_packet_received = replicate PACKET_KINDS 0, mx_packet_sent = replicate PACKET_KINDS 0\<rparr>"

text \<open>The control packet types are 1 to 15; index 0 of the per-packet arrays is unused.\<close>

fun packet_type :: "packet \<Rightarrow> nat" where
  "packet_type (Connect _) = 1"
| "packet_type (Connack _) = 2"
| "packet_type (Publish _) = 3"
| "packet_type (Puback _) = 4"
| "packet_type (Pubrec _) = 5"
| "packet_type (Pubrel _) = 6"
| "packet_type (Pubcomp _) = 7"
| "packet_type (Subscribe _) = 8"
| "packet_type (Suback _) = 9"
| "packet_type (Unsubscribe _) = 10"
| "packet_type (Unsuback _) = 11"
| "packet_type Pingreq = 12"
| "packet_type Pingresp = 13"
| "packet_type (Disconnect _) = 14"
| "packet_type Auth = 15"

definition record_received :: "nat \<Rightarrow> nat \<Rightarrow> metrics \<Rightarrow> metrics" where
  "record_received kind frame_bytes m =
     m\<lparr>mx_packets_received := mx_packets_received m + 1,
       mx_bytes_received := mx_bytes_received m + of_nat frame_bytes,
       mx_packet_received := (mx_packet_received m)[kind := mx_packet_received m ! kind + 1]\<rparr>"

definition record_sent :: "nat \<Rightarrow> nat \<Rightarrow> metrics \<Rightarrow> metrics" where
  "record_sent kind frame_bytes m =
     m\<lparr>mx_packets_sent := mx_packets_sent m + 1,
       mx_bytes_sent := mx_bytes_sent m + of_nat frame_bytes,
       mx_packet_sent := (mx_packet_sent m)[kind := mx_packet_sent m ! kind + 1]\<rparr>"

definition observe_clients_connected :: "u64 \<Rightarrow> metrics \<Rightarrow> metrics" where
  "observe_clients_connected current m =
     m\<lparr>mx_clients_maximum := max current (mx_clients_maximum m)\<rparr>"

definition add_dropped :: "u64 \<Rightarrow> metrics \<Rightarrow> metrics" where
  "add_dropped n m = (if n > 0 then m\<lparr>mx_publish_dropped := mx_publish_dropped m + n\<rparr> else m)"

lemma observe_max [simp]:
  "mx_clients_maximum (observe_clients_connected c m) = max c (mx_clients_maximum m)"
  by (simp add: observe_clients_connected_def)

subsection \<open>Concurrent observers\<close>

text \<open>A task in \<open>observe_clients_connected\<close> is about to load the counter, is about to test the loop
  condition on the value it has \<open>seen\<close>, or has returned. The counter is the list of the values it has
  had, latest first: all accesses are \<^verbatim>\<open>Relaxed\<close>, so a load, and the value a failed exchange reports,
  may be any value the counter has had, and a weak exchange may fail although the counter still has
  the expected value. Only a successful exchange is bound to the latest value.\<close>

datatype observer = Loading u64 | Testing u64 u64 | Returned u64

fun observed :: "observer \<Rightarrow> u64" where
  "observed (Loading c) = c"
| "observed (Testing c _) = c"
| "observed (Returned c) = c"

inductive observe_step :: "u64 list \<times> observer list \<Rightarrow> u64 list \<times> observer list \<Rightarrow> bool" where
  load: "i < length os \<Longrightarrow> os ! i = Loading c \<Longrightarrow> seen \<in> set h \<Longrightarrow>
    observe_step (h, os) (h, os[i := Testing c seen])"
| leave: "i < length os \<Longrightarrow> os ! i = Testing c seen \<Longrightarrow> \<not> c > seen \<Longrightarrow>
    observe_step (h, os) (h, os[i := Returned c])"
| exchange: "i < length os \<Longrightarrow> os ! i = Testing c seen \<Longrightarrow> c > seen \<Longrightarrow> h = seen # h' \<Longrightarrow>
    observe_step (h, os) (c # h, os[i := Returned c])"
| retry: "i < length os \<Longrightarrow> os ! i = Testing c seen \<Longrightarrow> c > seen \<Longrightarrow> actual \<in> set h \<Longrightarrow>
    observe_step (h, os) (h, os[i := Testing c actual])"

definition observers_start :: "u64 \<Rightarrow> u64 list \<Rightarrow> u64 list \<times> observer list" where
  "observers_start v0 cs = ([v0], map Loading cs)"

definition all_returned :: "observer list \<Rightarrow> bool" where
  "all_returned os \<longleftrightarrow> (\<forall>o' \<in> set os. \<exists>c. o' = Returned c)"

text \<open>The invariant: the history is strictly decreasing towards the past, it holds only the initial value
  and observed counts, every task remembers a value of the history, and a task has only returned when
  the counter has reached its count.\<close>

fun observer_ok :: "u64 list \<Rightarrow> observer \<Rightarrow> bool" where
  "observer_ok h (Loading c) = True"
| "observer_ok h (Testing c seen) = (seen \<in> set h)"
| "observer_ok h (Returned c) = (c \<le> hd h)"

definition observers_inv :: "u64 \<Rightarrow> u64 list \<Rightarrow> u64 list \<times> observer list \<Rightarrow> bool" where
  "observers_inv v0 cs s \<longleftrightarrow>
     (case s of (h, os) \<Rightarrow>
        h \<noteq> [] \<and> sorted_wrt (>) h \<and> last h = v0 \<and> set h \<subseteq> insert v0 (set cs)
        \<and> map observed os = cs \<and> list_all (observer_ok h) os)"

lemma observers_inv_start: "observers_inv v0 cs (observers_start v0 cs)"
  by (simp add: observers_inv_def observers_start_def list_all_iff comp_def)

lemma le_hd_of_sorted: "sorted_wrt (>) h \<Longrightarrow> x \<in> set h \<Longrightarrow> x \<le> hd (h :: u64 list)"
  by (cases h) auto

lemma observer_ok_push:
  "sorted_wrt (>) (c # h) \<Longrightarrow> h \<noteq> [] \<Longrightarrow> observer_ok h ob \<Longrightarrow> observer_ok (c # h) ob"
  by (cases ob) (force dest: hd_in_set)+

lemma map_observed_update:
  assumes "observed x = observed (os ! i)" and "map observed os = cs"
  shows "map observed (os[i := x]) = cs"
proof (cases "i < length os")
  case True
  with assms show ?thesis by (metis list_update_id map_update)
next
  case False
  with assms(2) show ?thesis by (simp add: list_update_beyond)
qed

lemma list_all_observer_update:
  "list_all Q os \<Longrightarrow> Q x \<Longrightarrow> list_all Q (os[i := x])"
  by (auto simp: list_all_iff dest: set_update_subset_insert [THEN subsetD])

lemma observe_step_inv:
  assumes "observe_step s s'" and "observers_inv v0 cs s"
  shows "observers_inv v0 cs s'"
  using assms
proof (cases rule: observe_step.cases)
  case (load i os c seen h)
  with assms(2) show ?thesis
    by (simp add: observers_inv_def list_all_observer_update map_observed_update)
next
  case (leave i os c seen h)
  with assms(2) have "sorted_wrt (>) h" "seen \<in> set h" "map observed os = cs" "list_all (observer_ok h) os"
    by (auto simp: observers_inv_def list_all_length)
  with leave assms(2) le_hd_of_sorted [of h seen] show ?thesis
    by (simp add: observers_inv_def list_all_observer_update map_observed_update)
next
  case (exchange i os c seen h h')
  let ?h = "c # h"
  from exchange assms(2) have h: "sorted_wrt (>) h" "h \<noteq> []" "hd h < c"
    and ok: "list_all (observer_ok h) os" and obs: "map observed os = cs"
    by (auto simp: observers_inv_def)
  from h have sorted: "sorted_wrt (>) ?h" by (auto dest: le_hd_of_sorted)
  have "list_all (observer_ok ?h) os"
    using ok by (auto simp: list_all_iff intro: observer_ok_push [OF sorted h(2)])
  moreover have "c \<in> set cs" using exchange obs by (metis length_map nth_map nth_mem observed.simps(2))
  ultimately show ?thesis
    using exchange assms(2) sorted
    by (simp add: observers_inv_def list_all_observer_update map_observed_update)
next
  case (retry i os c seen actual h)
  with assms(2) show ?thesis
    by (simp add: observers_inv_def list_all_observer_update map_observed_update)
qed

lemma observe_run_inv:
  "observe_step\<^sup>*\<^sup>* (observers_start v0 cs) s \<Longrightarrow> observers_inv v0 cs s"
  by (induction rule: rtranclp_induct) (simp_all add: observers_inv_start observe_step_inv)

text \<open>
  The high-water mark under concurrency: however the atomic accesses of any number of tasks
  observing client counts interleave, stale loads and spurious failures of the weak exchange
  included, the counter is never walked backwards, and once every task has returned it holds exactly
  the largest of its initial value and all the counts observed.
\<close>

lemma high_water_mark_exact:
  assumes "observe_step\<^sup>*\<^sup>* (observers_start v0 cs) (h, os)"
  shows "sorted_wrt (>) h \<and> (all_returned os \<longrightarrow> hd h = Max (insert v0 (set cs)))"
proof -
  from observe_run_inv [OF assms] have inv: "observers_inv v0 cs (h, os)" .
  have "hd h = Max (insert v0 (set cs))" if "all_returned os"
  proof (rule Max_eqI [symmetric])
    from inv have "hd h \<in> set h" and "set h \<subseteq> insert v0 (set cs)" by (simp_all add: observers_inv_def)
    then show "hd h \<in> insert v0 (set cs)" by blast
  next
    fix y
    assume "y \<in> insert v0 (set cs)"
    then consider "y = last h" | ob where "ob \<in> set os" "y = observed ob"
      using inv by (auto simp: observers_inv_def)
    then show "y \<le> hd h"
    proof cases
      case 1
      with inv show ?thesis by (auto simp: observers_inv_def intro: le_hd_of_sorted)
    next
      case (2 ob)
      with that obtain c where "ob = Returned c" by (auto simp: all_returned_def)
      with 2 inv show ?thesis by (auto simp: observers_inv_def list_all_iff)
    qed
  qed simp
  with inv show ?thesis by (simp add: observers_inv_def)
qed

end
