(* ===== verification/Rate_Limit.thy ===== *)
theory Rate_Limit
  imports Prelude
begin

section \<open>Connection-rate limiting\<close>

text \<open>
  \<^verbatim>\<open>src/src/ratelimit.rs\<close>: a fixed-window counter per source address. The monotonic clock
  \<^verbatim>\<open>Instant::now()\<close> is the argument \<open>now\<close>, in nanoseconds; \<^verbatim>\<open>duration_since\<close> is truncated
  subtraction, as in the standard library. The counter is a \<^verbatim>\<open>u32\<close> that wraps in a release build.
\<close>

datatype ip_addr = V4 u32 | V6 "128 word"

record rate_limiter =
  rl_limit :: u32
  rl_window :: nat
  rl_state :: "(ip_addr, nat \<times> u32) hashmap"

definition with_window :: "u32 \<Rightarrow> nat \<Rightarrow> rate_limiter" where
  "with_window limit window = \<lparr>rl_limit = limit, rl_window = window, rl_state = []\<rparr>"

definition rate_limiter_new :: "u32 \<Rightarrow> u32 \<Rightarrow> rate_limiter" where
  "rate_limiter_new limit window_secs = with_window limit (unat window_secs * 10 ^ 9)"

definition check :: "rate_limiter \<Rightarrow> nat \<Rightarrow> ip_addr \<Rightarrow> bool \<times> rate_limiter" where
  "check rl now ip =
     (if rl_limit rl = 0 then (True, rl)
      else
        let (start, count) = (case hm_get ip (rl_state rl) of None \<Rightarrow> (now, 0) | Some e \<Rightarrow> e)
        in if now - start \<ge> rl_window rl
           then (True, rl\<lparr>rl_state := hm_insert ip (now, 1) (rl_state rl)\<rparr>)
           else (count + 1 \<le> rl_limit rl,
                 rl\<lparr>rl_state := hm_insert ip (start, count + 1) (rl_state rl)\<rparr>))"

definition sweep :: "rate_limiter \<Rightarrow> nat \<Rightarrow> rate_limiter" where
  "sweep rl now =
     rl\<lparr>rl_state := filter (\<lambda>(_, (start, _)). now - start < rl_window rl * 2) (rl_state rl)\<rparr>"

text \<open>The limiter at work: connection attempts and the sweeps of the cleanup task \<^verbatim>\<open>run\<close>, with the time
  each reads. The result lists the addresses that asked and the answers they got.\<close>

datatype limiter_event = Attempt nat ip_addr | Sweep nat

fun event_time :: "limiter_event \<Rightarrow> nat" where
  "event_time (Attempt now _) = now"
| "event_time (Sweep now) = now"

fun run_events :: "rate_limiter \<Rightarrow> limiter_event list \<Rightarrow> (ip_addr \<times> bool) list" where
  "run_events rl [] = []"
| "run_events rl (Attempt now ip # es) =
     (let (ok, rl') = check rl now ip in (ip, ok) # run_events rl' es)"
| "run_events rl (Sweep now # es) = run_events (sweep rl now) es"

subsection \<open>Frame and well-formedness\<close>

lemma check_frame [simp]:
  "rl_limit (snd (check rl now ip)) = rl_limit rl"
  "rl_window (snd (check rl now ip)) = rl_window rl"
  by (auto simp: check_def Let_def split: prod.splits option.splits)

lemma check_other: "ip' \<noteq> ip \<Longrightarrow> hm_get ip' (rl_state (snd (check rl now ip))) = hm_get ip' (rl_state rl)"
  by (auto simp: check_def Let_def split: prod.splits option.splits)

lemma check_wf: "hm_wf (rl_state rl) \<Longrightarrow> hm_wf (rl_state (snd (check rl now ip)))"
  by (auto simp: check_def Let_def split: prod.splits option.splits)

text \<open>The decision and the new entry depend on the address's own entry only.\<close>

definition decide :: "u32 \<Rightarrow> nat \<Rightarrow> nat \<Rightarrow> (nat \<times> u32) option \<Rightarrow> bool \<times> (nat \<times> u32)" where
  "decide limit window now e =
     (let (start, count) = (case e of None \<Rightarrow> (now, 0) | Some x \<Rightarrow> x)
      in if now - start \<ge> window then (True, (now, 1)) else (count + 1 \<le> limit, (start, count + 1)))"

lemma check_decide:
  assumes "rl_limit rl \<noteq> 0"
  shows "check rl now ip =
    (fst (decide (rl_limit rl) (rl_window rl) now (hm_get ip (rl_state rl))),
     rl\<lparr>rl_state := hm_insert ip
           (snd (decide (rl_limit rl) (rl_window rl) now (hm_get ip (rl_state rl)))) (rl_state rl)\<rparr>)"
  using assms by (auto simp: check_def decide_def Let_def split: prod.splits option.splits)

text \<open>An entry that a sweep drops is older than twice the window, so the next attempt would have
  reset it anyway.\<close>

lemma sweep_decide:
  assumes "hm_wf (rl_state rl)" and "t \<le> now" and "0 < rl_window rl" and "rl_limit rl \<noteq> 0"
  shows "fst (decide (rl_limit rl) (rl_window rl) now (hm_get ip (rl_state (sweep rl t))))
       = fst (decide (rl_limit rl) (rl_window rl) now (hm_get ip (rl_state rl)))"
proof (cases "hm_get ip (rl_state rl)")
  case None
  then show ?thesis using assms(1) by (simp add: sweep_def hm_get_filter)
next
  case (Some e)
  obtain start count where e: "e = (start, count)" by force
  show ?thesis
  proof (cases "t - start < rl_window rl * 2")
    case True
    then show ?thesis using assms(1) Some by (simp add: sweep_def hm_get_filter e)
  next
    case False
    then have dropped: "hm_get ip (rl_state (sweep rl t)) = None"
      using assms(1) Some by (simp add: sweep_def hm_get_filter e)
    from False assms(2,3) have "rl_window rl \<le> now - start" by linarith
    moreover have "(1 :: u32) \<le> rl_limit rl"
      using assms(4) by (simp add: word_le_nat_alt unat_gt_0 Suc_le_eq)
    ultimately show ?thesis
      using assms(3) by (simp add: dropped Some e decide_def Let_def)
  qed
qed

subsection \<open>The budget of a window\<close>

definition answers :: "ip_addr \<Rightarrow> (ip_addr \<times> bool) list \<Rightarrow> bool list" where
  "answers ip rs = map snd (filter (\<lambda>r. fst r = ip) rs)"

definition attempts :: "ip_addr \<Rightarrow> limiter_event list \<Rightarrow> nat" where
  "attempts ip es = length (filter (\<lambda>e. case e of Attempt _ j \<Rightarrow> j = ip | Sweep _ \<Rightarrow> False) es)"

lemma answers_simps [simp]:
  "answers ip [] = []"
  "answers ip ((j, ok) # rs) = (if j = ip then ok # answers ip rs else answers ip rs)"
  by (simp_all add: answers_def)

lemma attempts_simps [simp]:
  "attempts ip [] = 0"
  "attempts ip (Attempt t j # es) = (if j = ip then Suc (attempts ip es) else attempts ip es)"
  "attempts ip (Sweep t # es) = attempts ip es"
  by (simp_all add: attempts_def)

definition budget :: "nat \<Rightarrow> nat \<Rightarrow> bool list" where
  "budget left n = replicate (min n left) True @ replicate (n - left) False"

lemma budget_Suc: "budget left (Suc n) = (0 < left) # budget (left - 1) n"
  by (cases left) (simp_all add: budget_def)

lemma sweep_keeps:
  assumes "hm_wf (rl_state rl)" and "hm_get ip (rl_state rl) = Some (start, c)"
    and "t < start + rl_window rl" and "0 < rl_window rl"
  shows "hm_get ip (rl_state (sweep rl t)) = Some (start, c)"
  using assms by (simp add: sweep_def hm_get_filter)

lemma sweep_frame [simp]:
  "rl_limit (sweep rl t) = rl_limit rl" "rl_window (sweep rl t) = rl_window rl"
  "hm_wf (rl_state rl) \<Longrightarrow> hm_wf (rl_state (sweep rl t))"
  by (simp_all add: sweep_def)

text \<open>One attempt of an address within its open window.\<close>

lemma check_open_window:
  assumes "rl_limit rl \<noteq> 0" and "hm_get ip (rl_state rl) = Some (start, c)" and "t - start < rl_window rl"
  shows "check rl t ip =
    (c + 1 \<le> rl_limit rl, rl\<lparr>rl_state := hm_insert ip (start, c + 1) (rl_state rl)\<rparr>)"
  using assms(2,3) by (simp add: check_decide [OF assms(1)] decide_def)

text \<open>Within the window that an address's entry has open, what is left of the limit is spent attempt by
  attempt, whatever other addresses do and whenever the sweep runs.\<close>

lemma open_window_budget:
  assumes "rl_limit rl \<noteq> 0" and "0 < rl_window rl" and "hm_wf (rl_state rl)"
    and "hm_get ip (rl_state rl) = Some (start, c)"
    and "\<forall>e \<in> set es. event_time e < start + rl_window rl"
    and "unat c + attempts ip es < 2 ^ 32"
  shows "answers ip (run_events rl es) = budget (unat (rl_limit rl) - unat c) (attempts ip es)"
  using assms
proof (induction es arbitrary: rl c)
  case Nil
  then show ?case by (simp add: budget_def)
next
  case (Cons e es)
  show ?case
  proof (cases e)
    case (Sweep t)
    with Cons.prems Cons.IH [of "sweep rl t" c] sweep_keeps [of rl ip start c t]
    show ?thesis by simp
  next
    case (Attempt t j)
    let ?rl = "snd (check rl t j)"
    have wf: "hm_wf (rl_state ?rl)" using Cons.prems(3) by (rule check_wf)
    show ?thesis
    proof (cases "j = ip")
      case False
      then have "hm_get ip (rl_state ?rl) = Some (start, c)"
        using Cons.prems(4) by (simp add: check_other)
      with Cons.prems Cons.IH [of ?rl c] wf Attempt False show ?thesis
        by (simp add: case_prod_beta)
    next
      case True
      from Cons.prems(5) Attempt have open_now: "t - start < rl_window rl"
        using Cons.prems(2) by auto
      note chk = check_open_window [OF Cons.prems(1,4) open_now]
      from Cons.prems(6) Attempt True have fits: "Suc (unat c) + attempts ip es < 2 ^ 32" by simp
      then have c1: "unat (c + 1) = Suc (unat c)"
        by (simp add: unat_word_ariths)
      have "answers ip (run_events ?rl es) =
          budget (unat (rl_limit rl) - unat (c + 1)) (attempts ip es)"
        using Cons.prems fits Cons.IH [of ?rl "c + 1"] by (simp add: True chk c1)
      then show ?thesis
        using Attempt True by (simp add: chk budget_Suc c1 word_le_nat_alt Suc_le_eq)
    qed
  qed
qed



end
