(* ===== verification/Broker.thy ===== *)
theory Broker
  imports Delivery Auth Config Storage Metrics Rate_Limit
begin

section \<open>The broker state\<close>

text \<open>
  \<^verbatim>\<open>src/src/broker/mod.rs\<close>: the shared state, its construction from storage, and the small operations
  every handler uses. The struct \<^verbatim>\<open>Inner\<close> and the \<^verbatim>\<open>State\<close> behind its mutex are one record: a handler
  of the model is one lock-holding section of the source, or several in sequence where the source
  releases the lock in between. Three fields stand for what the code hands to other threads:
  \<^item> \<open>b_storage\<close> is the sequence of commands sent to the storage writer (an unbounded channel);
  \<^item> \<open>b_tasks\<close> the timers started with \<^verbatim>\<open>tokio::spawn\<close>, as the code points they will resume from;
  \<^item> \<open>b_detached\<close> the channels of replaced connections, whose sending half a takeover has dropped: the
    connection task still drains what is buffered and then sees the channel closed.
\<close>

definition ANONYMOUS :: string where
  "ANONYMOUS = ''anonymous''"

definition SYS_PREFIX :: string where
  "SYS_PREFIX = ''$SYS/''"

datatype action =
    Continue
  | ServerDisconnect reason_code
  | ClientDisconnect bool

record accepted =
  ac_client_id :: string
  ac_epoch :: u64
  ac_keep_alive :: u16
  ac_identity :: "string option"
  ac_connack :: connack

text \<open>A timer: a Will that waits for its delay (with the client and epoch it checks then), a Will that
  is about to be published (with its owner's identity), a session that waits for its expiry.\<close>

datatype task =
    WillSleeping string u64 message u32 string
  | WillReady message string
  | ExpirySleeping string u64 u32

record broker =
  b_config :: config
  b_acl :: acl
  b_auth :: "credentials option"
  b_rate_limiter :: rate_limiter
  b_metrics :: metrics
  b_sessions :: "(string, session) hashmap"
  b_retained :: "(string, message) hashmap"
  b_shared_rr :: "(string \<times> string, u64) hashmap"
  b_next_epoch :: u64
  b_auto_id_counter :: u64
  b_storage :: "command list"
  b_tasks :: "task list"
  b_detached :: "((string \<times> u64) \<times> outtx) list"

definition reserved_id :: "string \<Rightarrow> bool" where
  "reserved_id c \<longleftrightarrow> starts_with c ''$bridge/'' \<or> starts_with c ''$SYS/''"

definition restore_subscription :: "protocol \<Rightarrow> sub_record \<Rightarrow> subscription" where
  "restore_subscription P r =
     (let (share_name, flt) = (case parse_filter P (sr_filter r) of
                                 Some p \<Rightarrow> p
                               | None \<Rightarrow> (None, sr_filter r))
      in \<lparr>sub_filter = flt, sub_share_name = share_name, sub_qos = sr_qos r,
          sub_no_local = sr_no_local r, sub_retain_as_published = sr_retain_as_published r,
          sub_subscription_identifier = sr_subscription_identifier r\<rparr>)"

definition restore_session :: "protocol \<Rightarrow> session_record \<Rightarrow> session" where
  "restore_session P rec =
     (session_new (se_client_id rec) (se_session_expiry_interval rec))
       \<lparr>ss_persistent := True, ss_identity := se_owner_identity rec,
        ss_subscriptions := map (restore_subscription P) (se_subscriptions rec)\<rparr>"

fun restore_sessions ::
    "protocol \<Rightarrow> session_record list \<Rightarrow> (string, session) hashmap \<Rightarrow> (string, session) hashmap" where
  "restore_sessions P [] m = m"
| "restore_sessions P (rec # recs) m =
     (if reserved_id (se_client_id rec) then restore_sessions P recs m
      else restore_sessions P recs (hm_insert (se_client_id rec) (restore_session P rec) m))"

definition broker_new ::
    "protocol \<Rightarrow> config \<Rightarrow> loaded_state \<Rightarrow> acl \<Rightarrow> credentials option \<Rightarrow> broker" where
  "broker_new P cfg loaded a auth =
     \<lparr>b_config = cfg, b_acl = a, b_auth = auth,
      b_rate_limiter =
        rate_limiter_new (cfg_max_connections_per_ip cfg) (cfg_connection_rate_window_secs cfg),
      b_metrics = metrics_default,
      b_sessions = restore_sessions P (ld_sessions loaded) [],
      b_retained = foldl (\<lambda>m (t, msg). hm_insert t msg m) [] (ld_retained loaded),
      b_shared_rr = [], b_next_epoch = 1, b_auto_id_counter = 1, b_storage = [], b_tasks = [],
      b_detached = []\<rparr>"

subsection \<open>Access to sessions, storage and counters\<close>

abbreviation get_session :: "string \<Rightarrow> broker \<Rightarrow> session option" where
  "get_session c b \<equiv> hm_get c (b_sessions b)"

text \<open>\<^verbatim>\<open>st.sessions.get_mut(c)\<close> and a change of the session it finds.\<close>

definition update_session :: "string \<Rightarrow> (session \<Rightarrow> session) \<Rightarrow> broker \<Rightarrow> broker" where
  "update_session c f b =
     (case get_session c b of
        None \<Rightarrow> b
      | Some s \<Rightarrow> b\<lparr>b_sessions := hm_insert c (f s) (b_sessions b)\<rparr>)"

definition send_to :: "string \<Rightarrow> outgoing \<Rightarrow> broker \<Rightarrow> broker" where
  "send_to c item b = update_session c (\<lambda>s. session_send s item) b"

definition push_control :: "string \<Rightarrow> packet \<Rightarrow> broker \<Rightarrow> broker" where
  "push_control c p b = update_session c (\<lambda>s. session_send s (Control p)) b"

definition store :: "command \<Rightarrow> broker \<Rightarrow> broker" where
  "store cmd b = b\<lparr>b_storage := b_storage b @ [cmd]\<rparr>"

definition count_dropped :: "u64 \<Rightarrow> broker \<Rightarrow> broker" where
  "count_dropped n b = b\<lparr>b_metrics := add_dropped n (b_metrics b)\<rparr>"

definition spawn :: "task \<Rightarrow> broker \<Rightarrow> broker" where
  "spawn t b = b\<lparr>b_tasks := b_tasks b @ [t]\<rparr>"

definition who_of :: "string option \<Rightarrow> string" where
  "who_of i = (case i of None \<Rightarrow> ANONYMOUS | Some w \<Rightarrow> w)"

definition max_queued :: "broker \<Rightarrow> nat" where
  "max_queued b = unat (cfg_max_queued_messages (b_config b))"

text \<open>Retained-message maintenance (3.3.1.3), the same lines in the PUBLISH handler, the Will timer and
  the bridge injection.\<close>

definition store_retained :: "string \<Rightarrow> message \<Rightarrow> broker \<Rightarrow> broker" where
  "store_retained topic m b =
     (if m_payload m = [] then
        store (DeleteRetained topic) (b\<lparr>b_retained := hm_remove topic (b_retained b)\<rparr>)
      else store (UpsertRetained topic m) (b\<lparr>b_retained := hm_insert topic m (b_retained b)\<rparr>))"

subsection \<open>The invariant\<close>

text \<open>
  A session is filed under its own identifier, satisfies the session invariant, keeps its queue within
  the configured bound (0 means unlimited) and has an epoch that was already handed out. A retained
  message is filed under its own topic.
\<close>

definition queue_ok :: "nat \<Rightarrow> session \<Rightarrow> bool" where
  "queue_ok n s \<longleftrightarrow> 0 < n \<longrightarrow> length (ss_queue s) \<le> n"

definition session_ok :: "nat \<Rightarrow> string \<Rightarrow> session \<Rightarrow> bool" where
  "session_ok n c s \<longleftrightarrow> session_inv s \<and> ss_client_id s = c \<and> queue_ok n s"

definition sessions_ok :: "nat \<Rightarrow> (string, session) hashmap \<Rightarrow> bool" where
  "sessions_ok n m \<longleftrightarrow> hm_wf m \<and> (\<forall>c s. hm_get c m = Some s \<longrightarrow> session_ok n c s)"

definition retained_ok :: "(string, message) hashmap \<Rightarrow> bool" where
  "retained_ok m \<longleftrightarrow> hm_wf m \<and> (\<forall>t msg. hm_get t m = Some msg \<longrightarrow> m_topic msg = t)"

definition broker_inv :: "broker \<Rightarrow> bool" where
  "broker_inv b \<longleftrightarrow> sessions_ok (max_queued b) (b_sessions b) \<and> retained_ok (b_retained b)
     \<and> hm_wf (b_shared_rr b)"

definition epochs_ok :: "broker \<Rightarrow> bool" where
  "epochs_ok b \<longleftrightarrow> (\<forall>c s. get_session c b = Some s \<longrightarrow> ss_epoch s < b_next_epoch b)"

lemma max_queued_simps [simp]:
  "max_queued (b\<lparr>b_sessions := x\<rparr>) = max_queued b"
  "max_queued (b\<lparr>b_retained := r\<rparr>) = max_queued b"
  "max_queued (b\<lparr>b_shared_rr := rr\<rparr>) = max_queued b"
  "max_queued (b\<lparr>b_metrics := mx\<rparr>) = max_queued b"
  "max_queued (b\<lparr>b_storage := cs\<rparr>) = max_queued b"
  "max_queued (b\<lparr>b_tasks := ts\<rparr>) = max_queued b"
  by (simp_all add: max_queued_def)

text \<open>What a handler may do to a session it finds under a key: keep its identity in the map, its epoch,
  its invariant and its queue bound.\<close>

locale session_op =
  fixes f :: "session \<Rightarrow> session" and n :: nat
  assumes op_inv: "session_inv s \<Longrightarrow> session_inv (f s)"
    and op_id: "ss_client_id (f s) = ss_client_id s"
    and op_epoch: "ss_epoch (f s) = ss_epoch s"
    and op_queue: "queue_ok n s \<Longrightarrow> queue_ok n (f s)"
begin

lemma op_ok: "session_ok n c s \<Longrightarrow> session_ok n c (f s)"
  by (simp add: session_ok_def op_inv op_id op_queue)

lemma insert_ok:
  "sessions_ok n m \<Longrightarrow> hm_get c m = Some s \<Longrightarrow> sessions_ok n (hm_insert c (f s) m)"
  by (auto simp: sessions_ok_def intro: op_ok)

lemma update_ok:
  assumes n: "max_queued b = n" and inv: "broker_inv b"
  shows "broker_inv (update_session c f b)"
proof (cases "get_session c b")
  case None
  with inv show ?thesis by (simp add: update_session_def)
next
  case (Some s)
  with inv insert_ok [OF _ Some] n show ?thesis by (simp add: update_session_def broker_inv_def)
qed

lemma update_epochs: "epochs_ok b \<Longrightarrow> epochs_ok (update_session c f b)"
  by (auto simp: epochs_ok_def update_session_def op_epoch split: option.splits)

end

text \<open>Every delivery operation of the session component meets that contract.\<close>

lemma queue_ok_le: "length (ss_queue s') \<le> length (ss_queue s) \<Longrightarrow> queue_ok n s \<Longrightarrow> queue_ok n s'"
  by (auto simp: queue_ok_def)

interpretation send_op: session_op "\<lambda>s. session_send s item" n for item n
  by unfold_locales (auto simp: queue_ok_def)

interpretation deliver_op: session_op "\<lambda>s. snd (deliver_to_session P now s m q r ids n)" n
  for P now m q r ids n
  by unfold_locales
    (auto intro: deliver_inv deliver_queue_bound simp: queue_ok_def same_conn_fields [OF same_conn_deliver])

interpretation flush_op: session_op "\<lambda>s. snd (flush_queue P now s)" n for P now n
  by unfold_locales
    (auto intro: flush_queue_inv queue_ok_le [OF flush_queue_len] simp: same_conn_fields [OF flush_queue_conn])

interpretation resume_op: session_op "\<lambda>s. snd (resume_delivery P now s)" n for P now n
  by unfold_locales
    (auto intro: resume_inv queue_ok_le [OF resume_queue_len] simp: same_conn_fields [OF resume_conn])


subsection \<open>Frames of the small operations\<close>

lemma update_session_frame [simp, broker_frame]:
  "b_config (update_session c f b) = b_config b" "b_acl (update_session c f b) = b_acl b"
  "b_auth (update_session c f b) = b_auth b" "b_metrics (update_session c f b) = b_metrics b"
  "b_retained (update_session c f b) = b_retained b" "b_shared_rr (update_session c f b) = b_shared_rr b"
  "b_next_epoch (update_session c f b) = b_next_epoch b"
  "b_auto_id_counter (update_session c f b) = b_auto_id_counter b"
  "b_storage (update_session c f b) = b_storage b" "b_tasks (update_session c f b) = b_tasks b"
  "b_detached (update_session c f b) = b_detached b"
  "max_queued (update_session c f b) = max_queued b"
  by (simp_all add: update_session_def max_queued_def split: option.split)

lemma get_update_session [simp]:
  "get_session d (update_session c f b) =
     (if d = c then map_option f (get_session c b) else get_session d b)"
  by (simp add: update_session_def split: option.split)

lemma send_to_frame [simp, broker_frame]:
  "b_config (send_to c i b) = b_config b" "b_acl (send_to c i b) = b_acl b"
  "b_auth (send_to c i b) = b_auth b" "b_metrics (send_to c i b) = b_metrics b"
  "b_retained (send_to c i b) = b_retained b" "b_shared_rr (send_to c i b) = b_shared_rr b"
  "b_next_epoch (send_to c i b) = b_next_epoch b"
  "b_storage (send_to c i b) = b_storage b" "b_tasks (send_to c i b) = b_tasks b"
  "max_queued (send_to c i b) = max_queued b"
  by (simp_all add: send_to_def)

lemma store_frame [simp, broker_frame]:
  "b_config (store k b) = b_config b" "b_acl (store k b) = b_acl b" "b_auth (store k b) = b_auth b"
  "b_sessions (store k b) = b_sessions b" "b_retained (store k b) = b_retained b"
  "b_shared_rr (store k b) = b_shared_rr b" "b_metrics (store k b) = b_metrics b"
  "b_next_epoch (store k b) = b_next_epoch b" "b_tasks (store k b) = b_tasks b"
  "b_storage (store k b) = b_storage b @ [k]" "max_queued (store k b) = max_queued b"
  by (simp_all add: store_def)

lemma count_dropped_frame [simp, broker_frame]:
  "b_config (count_dropped k b) = b_config b" "b_acl (count_dropped k b) = b_acl b"
  "b_auth (count_dropped k b) = b_auth b"
  "b_sessions (count_dropped k b) = b_sessions b" "b_retained (count_dropped k b) = b_retained b"
  "b_shared_rr (count_dropped k b) = b_shared_rr b" "b_next_epoch (count_dropped k b) = b_next_epoch b"
  "b_storage (count_dropped k b) = b_storage b" "b_tasks (count_dropped k b) = b_tasks b"
  "max_queued (count_dropped k b) = max_queued b"
  by (simp_all add: count_dropped_def)

lemma spawn_frame [simp, broker_frame]:
  "b_config (spawn t b) = b_config b" "b_acl (spawn t b) = b_acl b" "b_sessions (spawn t b) = b_sessions b"
  "b_retained (spawn t b) = b_retained b" "b_shared_rr (spawn t b) = b_shared_rr b"
  "b_next_epoch (spawn t b) = b_next_epoch b" "b_storage (spawn t b) = b_storage b"
  "b_tasks (spawn t b) = b_tasks b @ [t]" "max_queued (spawn t b) = max_queued b"
  by (simp_all add: spawn_def)

lemma store_retained_frame [simp, broker_frame]:
  "b_config (store_retained t m b) = b_config b" "b_acl (store_retained t m b) = b_acl b"
  "b_sessions (store_retained t m b) = b_sessions b" "b_shared_rr (store_retained t m b) = b_shared_rr b"
  "b_next_epoch (store_retained t m b) = b_next_epoch b" "b_metrics (store_retained t m b) = b_metrics b"
  "b_tasks (store_retained t m b) = b_tasks b" "max_queued (store_retained t m b) = max_queued b"
  by (simp_all add: store_retained_def)

text \<open>The retained map after a retained PUBLISH: set, or cleared by an empty payload.\<close>

lemma get_store_retained:
  "hm_get t (b_retained (store_retained topic m b)) =
     (if t = topic then (if m_payload m = [] then None else Some m) else hm_get t (b_retained b))"
  by (simp add: store_retained_def)

lemma inv_store [simp]: "broker_inv (store k b) = broker_inv b"
  by (simp add: broker_inv_def)

lemma inv_dropped [simp]: "broker_inv (count_dropped k b) = broker_inv b"
  by (simp add: broker_inv_def)

lemma inv_spawn [simp]: "broker_inv (spawn t b) = broker_inv b"
  by (simp add: broker_inv_def)

lemma inv_metrics [simp]: "broker_inv (b\<lparr>b_metrics := mx\<rparr>) = broker_inv b"
  by (simp add: broker_inv_def)

lemma inv_send_to: "broker_inv b \<Longrightarrow> broker_inv (send_to c i b)"
  unfolding send_to_def by (rule send_op.update_ok) simp_all

lemma inv_push_control: "broker_inv b \<Longrightarrow> broker_inv (push_control c p b)"
  unfolding push_control_def by (rule send_op.update_ok) simp_all

lemma inv_store_retained: "broker_inv b \<Longrightarrow> m_topic m = t \<Longrightarrow> broker_inv (store_retained t m b)"
  by (auto simp: broker_inv_def store_retained_def retained_ok_def)

lemma epochs_frame [simp]:
  "epochs_ok (store k b) = epochs_ok b" "epochs_ok (count_dropped n b) = epochs_ok b"
  "epochs_ok (spawn t b) = epochs_ok b" "epochs_ok (b\<lparr>b_metrics := mx\<rparr>) = epochs_ok b"
  "epochs_ok (store_retained tp m b) = epochs_ok b"
  by (simp_all add: epochs_ok_def)

lemma epochs_send_to [simp]: "epochs_ok b \<Longrightarrow> epochs_ok (send_to c i b)"
  by (simp add: send_to_def send_op.update_epochs)

subsection \<open>Start-up\<close>

lemma restore_session_ok: "session_ok n (se_client_id rec) (restore_session P rec)"
proof -
  have "session_inv (restore_session P rec)"
    using session_new_inv [of "se_client_id rec" "se_session_expiry_interval rec"]
    by (simp add: session_inv_def restore_session_def inflight_ids_def)
  then show ?thesis by (simp add: session_ok_def queue_ok_def restore_session_def session_new_def)
qed

lemma sessions_ok_insert: "sessions_ok n m \<Longrightarrow> session_ok n c s \<Longrightarrow> sessions_ok n (hm_insert c s m)"
  by (simp add: sessions_ok_def)

lemma retained_ok_insert: "retained_ok m \<Longrightarrow> m_topic msg = t \<Longrightarrow> retained_ok (hm_insert t msg m)"
  by (simp add: retained_ok_def)

lemma restore_sessions_ok: "sessions_ok n m \<Longrightarrow> sessions_ok n (restore_sessions P recs m)"
  by (induction recs arbitrary: m) (simp_all add: sessions_ok_insert restore_session_ok)

text \<open>A restored session is offline, has the epoch no connection ever has, and is not reserved.\<close>

definition all_cold :: "(string, session) hashmap \<Rightarrow> bool" where
  "all_cold m \<longleftrightarrow>
     (\<forall>c s. hm_get c m = Some s \<longrightarrow> ss_epoch s = 0 \<and> \<not> is_online s \<and> \<not> reserved_id c)"

lemma all_cold_insert:
  "all_cold m \<Longrightarrow> \<not> reserved_id c \<Longrightarrow> all_cold (hm_insert c (restore_session P rec) m)"
  by (simp add: all_cold_def restore_session_def session_new_def is_online_def)

lemma restore_sessions_cold: "all_cold m \<Longrightarrow> all_cold (restore_sessions P recs m)"
  by (induction recs arbitrary: m) (simp_all add: all_cold_insert)

lemma collect_retained_ok:
  "\<forall>(t, msg) \<in> set xs. m_topic msg = t \<Longrightarrow> retained_ok m \<Longrightarrow>
   retained_ok (foldl (\<lambda>m (t, msg). hm_insert t msg m) m xs)"
  by (induction xs arbitrary: m) (simp_all add: retained_ok_insert case_prod_beta)

lemma load_all_topics: "\<forall>(t, msg) \<in> set (ld_retained (load_all C now d)). m_topic msg = t"
  by (auto simp: load_all_def load_message_def)

lemma broker_new_inv:
  assumes "\<forall>(t, msg) \<in> set (ld_retained loaded). m_topic msg = t"
  shows "broker_inv (broker_new P cfg loaded a auth)" and "epochs_ok (broker_new P cfg loaded a auth)"
proof -
  have "sessions_ok n (restore_sessions P (ld_sessions loaded) [])" for n
    by (rule restore_sessions_ok) (simp add: sessions_ok_def)
  moreover have "retained_ok (foldl (\<lambda>m (t, msg). hm_insert t msg m) [] (ld_retained loaded))"
    using assms by (rule collect_retained_ok) (simp add: retained_ok_def)
  ultimately show "broker_inv (broker_new P cfg loaded a auth)"
    by (simp add: broker_inv_def broker_new_def)
  show "epochs_ok (broker_new P cfg loaded a auth)"
    using restore_sessions_cold [of "[]" P "ld_sessions loaded"]
    by (simp add: epochs_ok_def broker_new_def all_cold_def)
qed


subsection \<open>The contract of a packet handler\<close>

text \<open>
  A connection is stale for a client identifier when the session is gone or belongs to a newer
  connection. The contract of every handler of client packets: a stale connection changes nothing but
  counters, the invariant and the epoch discipline are kept, no epoch is handed out.
\<close>

definition stale :: "string \<Rightarrow> u64 \<Rightarrow> broker \<Rightarrow> bool" where
  "stale c e b \<longleftrightarrow> (\<forall>s. get_session c b = Some s \<longrightarrow> ss_epoch s \<noteq> e)"

definition same_but_metrics :: "broker \<Rightarrow> broker \<Rightarrow> bool" where
  "same_but_metrics b b' \<longleftrightarrow> b' = b\<lparr>b_metrics := b_metrics b'\<rparr>"

lemma same_but_metrics_refl [simp]: "same_but_metrics b b"
  by (simp add: same_but_metrics_def)

lemma same_but_metrics_upd [simp]: "same_but_metrics b (b\<lparr>b_metrics := mx\<rparr>)"
  by (simp add: same_but_metrics_def)

lemma same_but_metrics_trans: "same_but_metrics a b \<Longrightarrow> same_but_metrics b c \<Longrightarrow> same_but_metrics a c"
  by (cases a; cases b; cases c) (simp add: same_but_metrics_def)

lemma same_but_metrics_sessions:
  assumes "same_but_metrics b b'"
  shows "b_sessions b' = b_sessions b" "b_retained b' = b_retained b" "b_storage b' = b_storage b"
    "b_tasks b' = b_tasks b" "b_next_epoch b' = b_next_epoch b"
proof -
  from assms have eq: "b' = b\<lparr>b_metrics := b_metrics b'\<rparr>" by (simp add: same_but_metrics_def)
  show "b_sessions b' = b_sessions b" "b_retained b' = b_retained b" "b_storage b' = b_storage b"
    "b_tasks b' = b_tasks b" "b_next_epoch b' = b_next_epoch b"
    by (subst eq; simp)+
qed

locale packet_handler =
  fixes handle :: "string \<Rightarrow> u64 \<Rightarrow> 'p \<Rightarrow> broker \<Rightarrow> action \<times> broker"
  assumes fenced: "stale c e b \<Longrightarrow> same_but_metrics b (snd (handle c e p b))"
    and keeps_inv: "broker_inv b \<Longrightarrow> broker_inv (snd (handle c e p b))"
    and keeps_epoch: "map_option ss_epoch (get_session d (snd (handle c e p b))) = map_option ss_epoch (get_session d b)"
    and keeps_counter: "b_next_epoch (snd (handle c e p b)) = b_next_epoch b"
begin

primrec handle_all :: "string \<Rightarrow> u64 \<Rightarrow> 'p list \<Rightarrow> broker \<Rightarrow> broker" where
  "handle_all c e [] b = b"
| "handle_all c e (p # ps) b = handle_all c e ps (snd (handle c e p b))"

lemma stale_persists: "stale c e (snd (handle c' e' p b)) = stale c e b"
  using keeps_epoch [of c c' e' p b]
  by (cases "get_session c b"; cases "get_session c (snd (handle c' e' p b))") (auto simp: stale_def)

lemma keeps_epochs: "epochs_ok b \<Longrightarrow> epochs_ok (snd (handle c e p b))"
  unfolding epochs_ok_def
proof (intro allI impI)
  fix d s
  assume ok: "\<forall>c s. get_session c b = Some s \<longrightarrow> ss_epoch s < b_next_epoch b"
    and s: "get_session d (snd (handle c e p b)) = Some s"
  from keeps_epoch [of d c e p b] s obtain s0 where "get_session d b = Some s0" "ss_epoch s0 = ss_epoch s"
    by (cases "get_session d b") auto
  with ok show "ss_epoch s < b_next_epoch (snd (handle c e p b))" by (metis keeps_counter)
qed

lemma stale_run: "stale c e b \<Longrightarrow> same_but_metrics b (handle_all c e ps b)"
proof (induction ps arbitrary: b)
  case Nil
  then show ?case by simp
next
  case (Cons p ps)
  from Cons.prems have "stale c e (snd (handle c e p b))" by (simp add: stale_persists)
  from same_but_metrics_trans [OF fenced [OF Cons.prems] Cons.IH [OF this]] show ?case by simp
qed

lemma run_inv: "broker_inv b \<Longrightarrow> broker_inv (handle_all c e ps b)"
  by (induction ps arbitrary: b) (simp_all add: keeps_inv)

end

text \<open>The shape of the handlers that change one session and maybe drop messages.\<close>

lemma epoch_insert:
  "get_session c b = Some s \<Longrightarrow> ss_epoch s' = ss_epoch s \<Longrightarrow>
   map_option ss_epoch (hm_get d (hm_insert c s' (b_sessions b))) = map_option ss_epoch (get_session d b)"
  by simp

lemma inv_insert:
  assumes "broker_inv b" and "session_ok (max_queued b) c s"
  shows "broker_inv (b\<lparr>b_sessions := hm_insert c s (b_sessions b)\<rparr>)"
  using assms by (simp add: broker_inv_def sessions_ok_insert)

lemma inv_session_ok: "broker_inv b \<Longrightarrow> get_session c b = Some s \<Longrightarrow> session_ok (max_queued b) c s"
  by (simp add: broker_inv_def sessions_ok_def)

end
