(* ===== verification/Routing.thy ===== *)
theory Routing
  imports Broker
begin

section \<open>Routing a publication\<close>

text \<open>
  \<^verbatim>\<open>Broker::route\<close> of \<^verbatim>\<open>src/src/broker/routing.rs\<close>: one pass over the sessions that delivers the
  ordinary subscriptions and collects the shared ones, then one member per shared group, chosen by the
  group's round-robin cursor. \<open>scan_sub\<close> is the body of the loop over one session's subscriptions,
  \<open>route_pass\<close> the loop over the sessions, \<open>choose_members\<close> the loop over the groups and \<open>deliver_chosen\<close>
  the loop over their winners. The local counters are natural numbers that are cast to \<^verbatim>\<open>u64\<close> where the
  source reads them, which is the same as counting modulo \<open>2 ^ 64\<close>.
\<close>

record candidate =
  cd_client_id :: string
  cd_qos :: qos
  cd_retain :: bool
  cd_sub_ids :: "u32 list"

type_synonym groups = "(string \<times> string, candidate list) hashmap"

record scan =
  sc_best :: "qos option"
  sc_sub_ids :: "u32 list"
  sc_retain :: bool
  sc_shared :: groups

definition opt_list :: "'a option \<Rightarrow> 'a list" where
  "opt_list x = (case x of None \<Rightarrow> [] | Some y \<Rightarrow> [y])"

text \<open>\<^verbatim>\<open>shared.entry(key).or_default().push(candidate)\<close>\<close>

definition push_group :: "string \<times> string \<Rightarrow> candidate \<Rightarrow> groups \<Rightarrow> groups" where
  "push_group k c g = hm_insert k ((case hm_get k g of None \<Rightarrow> [] | Some cs \<Rightarrow> cs) @ [c]) g"

definition candidate_of :: "message \<Rightarrow> string \<Rightarrow> subscription \<Rightarrow> candidate" where
  "candidate_of m cid sub =
     \<lparr>cd_client_id = cid, cd_qos = min (m_qos m) (sub_qos sub),
      cd_retain = (if sub_retain_as_published sub then m_retain m else False),
      cd_sub_ids = opt_list (sub_subscription_identifier sub)\<rparr>"

definition scan_sub ::
    "protocol \<Rightarrow> string option \<Rightarrow> message \<Rightarrow> string \<Rightarrow> scan \<Rightarrow> subscription \<Rightarrow> scan" where
  "scan_sub P publisher m cid acc sub =
     (if \<not> topic_matches P (sub_filter sub) (m_topic m) then acc
      else if sub_no_local sub \<and> publisher = Some cid then acc
      else
        let eff = min (m_qos m) (sub_qos sub)
        in case sub_share_name sub of
             Some share \<Rightarrow>
               acc\<lparr>sc_shared := push_group (share, sub_filter sub) (candidate_of m cid sub) (sc_shared acc)\<rparr>
           | None \<Rightarrow>
               acc\<lparr>sc_best := Some (case sc_best acc of
                                      Some b \<Rightarrow> if qos_as_u8 eff \<le> qos_as_u8 b then b else eff
                                    | None \<Rightarrow> eff),
                   sc_sub_ids := sc_sub_ids acc @ opt_list (sub_subscription_identifier sub),
                   sc_retain := (sc_retain acc \<or> sub_retain_as_published sub)\<rparr>)"

definition scan_subs ::
    "protocol \<Rightarrow> string option \<Rightarrow> message \<Rightarrow> string \<Rightarrow> groups \<Rightarrow> subscription list \<Rightarrow> scan" where
  "scan_subs P publisher m cid shared subs =
     foldl (scan_sub P publisher m cid)
       \<lparr>sc_best = None, sc_sub_ids = [], sc_retain = False, sc_shared = shared\<rparr> subs"

record tally =
  ty_shared :: groups
  ty_delivered :: nat
  ty_dropped :: nat

definition add_tally :: "bool \<Rightarrow> tally \<Rightarrow> tally" where
  "add_tally dropped t = t\<lparr>ty_delivered := ty_delivered t + 1,
     ty_dropped := ty_dropped t + (if dropped then 1 else 0)\<rparr>"

fun route_pass ::
    "protocol \<Rightarrow> u64 \<Rightarrow> string option \<Rightarrow> message \<Rightarrow> nat \<Rightarrow> (string, session) hashmap \<Rightarrow> tally \<Rightarrow>
     (string, session) hashmap \<times> tally" where
  "route_pass P now publisher m n [] t = ([], t)"
| "route_pass P now publisher m n ((cid, s) # rest) t =
     (let sc = scan_subs P publisher m cid (ty_shared t) (ss_subscriptions s);
          t1 = t\<lparr>ty_shared := sc_shared sc\<rparr>;
          (s', t2) = (case sc_best sc of
                        None \<Rightarrow> (s, t1)
                      | Some q \<Rightarrow>
                          let retain = (if sc_retain sc then m_retain m else False);
                              (dropped, s') = deliver_to_session P now s m q retain (sc_sub_ids sc) n
                          in (s', add_tally dropped t1));
          (rest', t3) = route_pass P now publisher m n rest t2
      in ((cid, s') # rest', t3))"

fun choose_members ::
    "groups \<Rightarrow> (string \<times> string, u64) hashmap \<Rightarrow> candidate list \<times> (string \<times> string, u64) hashmap" where
  "choose_members [] rr = ([], rr)"
| "choose_members ((key, cs) # gs) rr =
     (if cs = [] then choose_members gs rr
      else
        let cursor = (case hm_get key rr of None \<Rightarrow> 0 | Some c \<Rightarrow> c);
            idx = unat cursor mod length cs;
            (chosen, rr') = choose_members gs (hm_insert key (cursor + 1) rr)
        in (cs ! idx # chosen, rr'))"

fun deliver_chosen ::
    "protocol \<Rightarrow> u64 \<Rightarrow> message \<Rightarrow> nat \<Rightarrow> candidate list \<Rightarrow> (string, session) hashmap \<Rightarrow> nat \<Rightarrow>
     (string, session) hashmap \<times> nat" where
  "deliver_chosen P now m n [] ss dropped = (ss, dropped)"
| "deliver_chosen P now m n (c # cs) ss dropped =
     (case hm_get (cd_client_id c) ss of
        None \<Rightarrow> deliver_chosen P now m n cs ss dropped
      | Some s \<Rightarrow>
          let (d, s') = deliver_to_session P now s m (cd_qos c) (cd_retain c) (cd_sub_ids c) n
          in deliver_chosen P now m n cs (hm_insert (cd_client_id c) s' ss)
               (if d then dropped + 1 else dropped))"

definition route :: "protocol \<Rightarrow> u64 \<Rightarrow> string option \<Rightarrow> message \<Rightarrow> broker \<Rightarrow> bool \<times> broker" where
  "route P now publisher m b =
     (if is_expired now m then (False, b)
      else
        let n = max_queued b;
            (ss1, t) = route_pass P now publisher m n (b_sessions b)
                         \<lparr>ty_shared = [], ty_delivered = 0, ty_dropped = 0\<rparr>;
            (chosen, rr) = choose_members (ty_shared t) (b_shared_rr b);
            (ss2, dropped) = deliver_chosen P now m n chosen ss1 (ty_dropped t);
            delivered = (of_nat (ty_delivered t + length chosen) :: u64);
            mx = (b_metrics b)\<lparr>mx_publish_delivered := mx_publish_delivered (b_metrics b) + delivered\<rparr>
        in (delivered > 0,
            b\<lparr>b_sessions := ss2, b_shared_rr := rr, b_metrics := add_dropped (of_nat dropped) mx\<rparr>))"

subsection \<open>The ordinary subscriptions, without the loop\<close>

text \<open>The subscriptions of a session that apply to a publication.\<close>

definition eligible :: "protocol \<Rightarrow> string option \<Rightarrow> message \<Rightarrow> string \<Rightarrow> subscription \<Rightarrow> bool" where
  "eligible P publisher m cid sub \<longleftrightarrow>
     topic_matches P (sub_filter sub) (m_topic m) \<and> \<not> (sub_no_local sub \<and> publisher = Some cid)"

definition plain_subs ::
    "protocol \<Rightarrow> string option \<Rightarrow> message \<Rightarrow> string \<Rightarrow> subscription list \<Rightarrow> subscription list" where
  "plain_subs P publisher m cid subs =
     filter (\<lambda>x. eligible P publisher m cid x \<and> sub_share_name x = None) subs"

definition shared_subs ::
    "protocol \<Rightarrow> string option \<Rightarrow> message \<Rightarrow> string \<Rightarrow> subscription list \<Rightarrow> subscription list" where
  "shared_subs P publisher m cid subs =
     filter (\<lambda>x. eligible P publisher m cid x \<and> sub_share_name x \<noteq> None) subs"

text \<open>The reference: one delivery per session with a matching ordinary subscription, at the highest of
  the effective QoS levels, with the identifiers of all matching subscriptions.\<close>

definition direct_delivery ::
    "protocol \<Rightarrow> u64 \<Rightarrow> string option \<Rightarrow> message \<Rightarrow> nat \<Rightarrow> string \<Rightarrow> session \<Rightarrow> bool \<times> session" where
  "direct_delivery P now publisher m n cid s =
     (let subs = plain_subs P publisher m cid (ss_subscriptions s)
      in if subs = [] then (False, s)
         else deliver_to_session P now s m
                (Max (set (map (\<lambda>x. min (m_qos m) (sub_qos x)) subs)))
                (m_retain m \<and> (\<exists>x \<in> set subs. sub_retain_as_published x))
                (concat (map (\<lambda>x. opt_list (sub_subscription_identifier x)) subs)) n)"

definition max_qos_opt :: "qos option \<Rightarrow> qos list \<Rightarrow> qos option" where
  "max_qos_opt b qs = (if b = None \<and> qs = [] then None else Some (Max (set (opt_list b @ qs))))"

lemma max_qos_opt_step:
  "max_qos_opt (Some (case b of Some q \<Rightarrow> if qos_as_u8 e \<le> qos_as_u8 q then q else e | None \<Rightarrow> e)) qs
     = max_qos_opt b (e # qs)"
proof -
  have "Max (insert (max e q) (set qs)) = Max (insert q (insert e (set qs)))" for q
    by (cases "qs = []") (simp_all add: max.assoc max.left_commute max.commute)
  then show ?thesis
    by (cases b) (auto simp: max_qos_opt_def opt_list_def max_def insert_commute)
qed

text \<open>The scan of one session: its ordinary part is the reference, its shared part pushes one
  candidate per matching shared subscription.\<close>

definition push_all_groups :: "message \<Rightarrow> string \<Rightarrow> subscription list \<Rightarrow> groups \<Rightarrow> groups" where
  "push_all_groups m cid subs g =
     foldl (\<lambda>g x. push_group (the (sub_share_name x), sub_filter x) (candidate_of m cid x) g) g subs"

lemma scan_fold:
  "foldl (scan_sub P publisher m cid) acc subs =
     (let plain = plain_subs P publisher m cid subs
      in \<lparr>sc_best = max_qos_opt (sc_best acc) (map (\<lambda>x. min (m_qos m) (sub_qos x)) plain),
          sc_sub_ids = sc_sub_ids acc @ concat (map (\<lambda>x. opt_list (sub_subscription_identifier x)) plain),
          sc_retain = (sc_retain acc \<or> (\<exists>x \<in> set plain. sub_retain_as_published x)),
          sc_shared = push_all_groups m cid (shared_subs P publisher m cid subs) (sc_shared acc)\<rparr>)"
proof (induction subs arbitrary: acc)
  case Nil
  then show ?case
    by (cases acc) (auto simp: plain_subs_def shared_subs_def max_qos_opt_def push_all_groups_def
        opt_list_def split: option.split)
next
  case (Cons x subs)
  let ?el = "eligible P publisher m cid"
  consider (skip) "\<not> ?el x" | (share) k where "?el x" "sub_share_name x = Some k"
    | (plain) "?el x" "sub_share_name x = None"
    by fastforce
  then show ?case
  proof cases
    case skip
    then have "scan_sub P publisher m cid acc x = acc"
      by (auto simp: scan_sub_def eligible_def)
    with Cons skip show ?thesis by (simp add: plain_subs_def shared_subs_def)
  next
    case share
    then have "scan_sub P publisher m cid acc x =
        acc\<lparr>sc_shared := push_group (k, sub_filter x) (candidate_of m cid x) (sc_shared acc)\<rparr>"
      by (auto simp: scan_sub_def eligible_def Let_def)
    with Cons share show ?thesis by (simp add: plain_subs_def shared_subs_def push_all_groups_def)
  next
    case plain
    then have "scan_sub P publisher m cid acc x =
        acc\<lparr>sc_best := Some (case sc_best acc of
                 Some b \<Rightarrow> if qos_as_u8 (min (m_qos m) (sub_qos x)) \<le> qos_as_u8 b then b else min (m_qos m) (sub_qos x)
               | None \<Rightarrow> min (m_qos m) (sub_qos x)),
            sc_sub_ids := sc_sub_ids acc @ opt_list (sub_subscription_identifier x),
            sc_retain := (sc_retain acc \<or> sub_retain_as_published x)\<rparr>"
      by (auto simp: scan_sub_def eligible_def Let_def)
    with Cons plain show ?thesis
      by (simp add: plain_subs_def shared_subs_def max_qos_opt_step Let_def del: qos_as_u8_less)
  qed
qed

lemma scan_subs_eq:
  "sc_shared (scan_subs P publisher m cid g subs) = push_all_groups m cid (shared_subs P publisher m cid subs) g"
  "sc_best (scan_subs P publisher m cid g subs) =
     max_qos_opt None (map (\<lambda>x. min (m_qos m) (sub_qos x)) (plain_subs P publisher m cid subs))"
  "sc_sub_ids (scan_subs P publisher m cid g subs) =
     concat (map (\<lambda>x. opt_list (sub_subscription_identifier x)) (plain_subs P publisher m cid subs))"
  "sc_retain (scan_subs P publisher m cid g subs) =
     (\<exists>x \<in> set (plain_subs P publisher m cid subs). sub_retain_as_published x)"
  by (simp_all add: scan_subs_def scan_fold Let_def)

text \<open>The groups collected over all sessions, and the whole pass as independent deliveries.\<close>

fun collect_groups :: "protocol \<Rightarrow> string option \<Rightarrow> message \<Rightarrow> (string, session) hashmap \<Rightarrow> groups \<Rightarrow> groups" where
  "collect_groups P publisher m [] g = g"
| "collect_groups P publisher m ((cid, s) # rest) g =
     collect_groups P publisher m rest
       (push_all_groups m cid (shared_subs P publisher m cid (ss_subscriptions s)) g)"

definition matched :: "protocol \<Rightarrow> string option \<Rightarrow> message \<Rightarrow> (string, session) hashmap \<Rightarrow> string list" where
  "matched P publisher m ss =
     map fst (filter (\<lambda>(cid, s). plain_subs P publisher m cid (ss_subscriptions s) \<noteq> []) ss)"

lemma route_pass_eq:
  "route_pass P now publisher m n ss t =
     (hm_map (\<lambda>cid s. snd (direct_delivery P now publisher m n cid s)) ss,
      \<lparr>ty_shared = collect_groups P publisher m ss (ty_shared t),
       ty_delivered = ty_delivered t + length (matched P publisher m ss),
       ty_dropped = ty_dropped t
         + length (filter (\<lambda>(cid, s). fst (direct_delivery P now publisher m n cid s)) ss)\<rparr>)"
proof (induction ss arbitrary: t)
  case Nil
  then show ?case by (cases t) (simp add: hm_map_def matched_def)
next
  case (Cons x ss)
  obtain cid s where x: "x = (cid, s)" by force
  let ?subs = "plain_subs P publisher m cid (ss_subscriptions s)"
  show ?case
  proof (cases "?subs = []")
    case True
    with Cons show ?thesis
      by (simp add: x Let_def scan_subs_eq max_qos_opt_def hm_map_def matched_def direct_delivery_def)
  next
    case False
    then have "(if \<exists>x \<in> set ?subs. sub_retain_as_published x then m_retain m else False)
        = (m_retain m \<and> (\<exists>x \<in> set ?subs. sub_retain_as_published x))" by simp
    with Cons False show ?thesis
      by (simp add: x Let_def scan_subs_eq max_qos_opt_def opt_list_def hm_map_def matched_def
          direct_delivery_def add_tally_def split: prod.split)
  qed
qed


subsection \<open>Shared groups\<close>

text \<open>The members of one group, over all sessions in iteration order.\<close>

definition group_key :: "subscription \<Rightarrow> string \<times> string" where
  "group_key x = (the (sub_share_name x), sub_filter x)"

definition session_members ::
    "protocol \<Rightarrow> string option \<Rightarrow> message \<Rightarrow> string \<times> string \<Rightarrow> string \<times> session \<Rightarrow> candidate list" where
  "session_members P publisher m k cs =
     map (candidate_of m (fst cs))
       (filter (\<lambda>x. group_key x = k) (shared_subs P publisher m (fst cs) (ss_subscriptions (snd cs))))"

definition group_members ::
    "protocol \<Rightarrow> string option \<Rightarrow> message \<Rightarrow> (string, session) hashmap \<Rightarrow> string \<times> string \<Rightarrow> candidate list" where
  "group_members P publisher m ss k = concat (map (session_members P publisher m k) ss)"

definition members :: "string \<times> string \<Rightarrow> groups \<Rightarrow> candidate list" where
  "members k g = (case hm_get k g of None \<Rightarrow> [] | Some cs \<Rightarrow> cs)"

definition groups_ok :: "groups \<Rightarrow> bool" where
  "groups_ok g \<longleftrightarrow> hm_wf g \<and> (\<forall>k cs. hm_get k g = Some cs \<longrightarrow> cs \<noteq> [])"

lemma members_push [simp]:
  "members k (push_group j c g) = members k g @ (if k = j then [c] else [])"
  by (simp add: members_def push_group_def)

lemma groups_ok_push: "groups_ok g \<Longrightarrow> groups_ok (push_group k c g)"
  by (simp add: groups_ok_def push_group_def)

lemma push_all_groups_members:
  "members k (push_all_groups m cid subs g) =
     members k g @ map (candidate_of m cid) (filter (\<lambda>x. group_key x = k) subs)"
proof (induction subs arbitrary: g)
  case Nil
  then show ?case by (simp add: push_all_groups_def)
next
  case (Cons x subs)
  have "push_all_groups m cid (x # subs) g
      = push_all_groups m cid subs (push_group (group_key x) (candidate_of m cid x) g)"
    by (simp add: push_all_groups_def group_key_def)
  with Cons [of "push_group (group_key x) (candidate_of m cid x) g"] show ?case by auto
qed

lemma push_all_groups_ok: "groups_ok g \<Longrightarrow> groups_ok (push_all_groups m cid subs g)"
  by (induction subs arbitrary: g) (simp_all add: push_all_groups_def groups_ok_push)

lemma collect_groups_members:
  "members k (collect_groups P publisher m ss g) = members k g @ group_members P publisher m ss k"
  by (induction P publisher m ss g rule: collect_groups.induct)
    (simp_all add: group_members_def session_members_def push_all_groups_members)

lemma collect_groups_ok: "groups_ok g \<Longrightarrow> groups_ok (collect_groups P publisher m ss g)"
  by (induction P publisher m ss g rule: collect_groups.induct) (simp_all add: push_all_groups_ok)

definition cursor_of :: "string \<times> string \<Rightarrow> (string \<times> string, u64) hashmap \<Rightarrow> u64" where
  "cursor_of k rr = (case hm_get k rr of None \<Rightarrow> 0 | Some c \<Rightarrow> c)"

lemma groups_ok_set: "groups_ok g \<longleftrightarrow> hm_wf g \<and> (\<forall>x \<in> set g. snd x \<noteq> [])"
proof (cases "hm_wf g")
  case True
  then show ?thesis by (force simp: groups_ok_def hm_get_iff)
next
  case False
  then show ?thesis by (simp add: groups_ok_def)
qed

lemma groups_ok_Cons: "groups_ok ((key, cs) # gs) \<longleftrightarrow> groups_ok gs \<and> cs \<noteq> [] \<and> key \<notin> fst ` set gs"
  by (auto simp: groups_ok_set hm_wf_def)

text \<open>The round-robin choice: exactly one member of every group, at the group's cursor, which advances
  by one; the cursors of other groups stay.\<close>

lemma choose_members_step:
  "cs \<noteq> [] \<Longrightarrow> choose_members ((key, cs) # gs) rr =
     (let rr' = hm_insert key (cursor_of key rr + 1) rr
      in (cs ! (unat (cursor_of key rr) mod length cs) # fst (choose_members gs rr'), snd (choose_members gs rr')))"
  by (simp add: Let_def cursor_of_def split: prod.split)

lemma choose_members_fst:
  "groups_ok g \<Longrightarrow>
   fst (choose_members g rr) = map (\<lambda>(k, cs). cs ! (unat (cursor_of k rr) mod length cs)) g"
proof (induction g arbitrary: rr)
  case Nil
  then show ?case by simp
next
  case (Cons x gs)
  obtain key cs where x: "x = (key, cs)" by (cases x)
  with Cons.prems have ok: "groups_ok gs" "cs \<noteq> []" "key \<notin> fst ` set gs" by (simp_all add: groups_ok_Cons)
  let ?rr = "hm_insert key (cursor_of key rr + 1) rr"
  have "map (\<lambda>(k, cs). cs ! (unat (cursor_of k ?rr) mod length cs)) gs
      = map (\<lambda>(k, cs). cs ! (unat (cursor_of k rr) mod length cs)) gs"
    using ok(3) by (force simp: cursor_of_def)
  with Cons.IH [OF ok(1), of ?rr] ok(2) show ?case by (simp add: x choose_members_step Let_def del: choose_members.simps)
qed

lemma choose_members_snd:
  "groups_ok g \<Longrightarrow>
   hm_get k (snd (choose_members g rr)) = (if hm_get k g = None then hm_get k rr else Some (cursor_of k rr + 1))"
proof (induction g arbitrary: rr)
  case Nil
  then show ?case by simp
next
  case (Cons x gs)
  obtain key cs where x: "x = (key, cs)" by (cases x)
  with Cons.prems have ok: "groups_ok gs" "cs \<noteq> []" "key \<notin> fst ` set gs" by (simp_all add: groups_ok_Cons)
  then have "hm_get key gs = None" by (simp add: hm_get_None_iff)
  with Cons.IH [OF ok(1), of "hm_insert key (cursor_of key rr + 1) rr"] ok(2) show ?case
    by (auto simp: x choose_members_step Let_def hm_get_Cons cursor_of_def simp del: choose_members.simps)
qed

lemma choose_members_wf: "hm_wf rr \<Longrightarrow> hm_wf (snd (choose_members g rr))"
  by (induction g rr rule: choose_members.induct) (auto simp: Let_def split: prod.split)

subsection \<open>The whole operation\<close>

definition route_groups :: "protocol \<Rightarrow> string option \<Rightarrow> message \<Rightarrow> broker \<Rightarrow> groups" where
  "route_groups P publisher m b = collect_groups P publisher m (b_sessions b) []"

definition route_chosen :: "protocol \<Rightarrow> string option \<Rightarrow> message \<Rightarrow> broker \<Rightarrow> candidate list" where
  "route_chosen P publisher m b =
     map (\<lambda>(k, cs). cs ! (unat (cursor_of k (b_shared_rr b)) mod length cs)) (route_groups P publisher m b)"

lemma route_groups_ok: "groups_ok (route_groups P publisher m b)"
  unfolding route_groups_def by (rule collect_groups_ok) (simp add: groups_ok_def)

lemma route_groups_get:
  "hm_get k (route_groups P publisher m b) =
     (let cs = group_members P publisher m (b_sessions b) k in if cs = [] then None else Some cs)"
proof -
  have "members k (route_groups P publisher m b) = group_members P publisher m (b_sessions b) k"
    by (simp add: route_groups_def collect_groups_members) (simp add: members_def)
  moreover have "hm_get k (route_groups P publisher m b) \<noteq> Some []"
    using route_groups_ok [of P publisher m b] by (force simp: groups_ok_set dest: hm_get_in)
  ultimately show ?thesis by (auto simp: members_def split: option.splits)
qed

text \<open>\<open>deliver_chosen\<close> seen by one session: the deliveries addressed to it, in order.\<close>

definition deliver_candidate :: "protocol \<Rightarrow> u64 \<Rightarrow> message \<Rightarrow> nat \<Rightarrow> session \<Rightarrow> candidate \<Rightarrow> session" where
  "deliver_candidate P now m n s c =
     snd (deliver_to_session P now s m (cd_qos c) (cd_retain c) (cd_sub_ids c) n)"

lemma deliver_chosen_get:
  "hm_get c (fst (deliver_chosen P now m n cs ss d)) =
     map_option (\<lambda>s. foldl (deliver_candidate P now m n) s (filter (\<lambda>x. cd_client_id x = c) cs)) (hm_get c ss)"
proof (induction cs arbitrary: ss d)
  case Nil
  then show ?case by (cases "hm_get c ss") simp_all
next
  case (Cons x cs)
  show ?case
  proof (cases "hm_get (cd_client_id x) ss")
    case None
    with Cons show ?thesis by auto
  next
    case (Some s)
    let ?r = "deliver_to_session P now s m (cd_qos x) (cd_retain x) (cd_sub_ids x) n"
    have "deliver_chosen P now m n (x # cs) ss d =
        deliver_chosen P now m n cs (hm_insert (cd_client_id x) (snd ?r) ss) (if fst ?r then d + 1 else d)"
      using Some by (simp add: case_prod_beta)
    with Cons Some show ?thesis by (simp add: deliver_candidate_def)
  qed
qed

text \<open>Routing seen by one session: its ordinary delivery, then the shared ones it was chosen for. The
  result does not depend on the order in which the map is iterated.\<close>

definition routed_session ::
    "protocol \<Rightarrow> u64 \<Rightarrow> string option \<Rightarrow> message \<Rightarrow> nat \<Rightarrow> candidate list \<Rightarrow> string \<Rightarrow> session \<Rightarrow> session" where
  "routed_session P now publisher m n chosen c s =
     foldl (deliver_candidate P now m n) (snd (direct_delivery P now publisher m n c s))
       (filter (\<lambda>x. cd_client_id x = c) chosen)"

lemma route_get:
  assumes "\<not> is_expired now m"
  shows "get_session c (snd (route P now publisher m b)) =
     map_option (routed_session P now publisher m (max_queued b) (route_chosen P publisher m b) c) (get_session c b)"
proof -
  let ?g = "route_groups P publisher m b"
  have "fst (choose_members ?g (b_shared_rr b)) = route_chosen P publisher m b"
    by (simp add: choose_members_fst [OF route_groups_ok] route_chosen_def)
  then show ?thesis
    using assms
    by (cases "get_session c b")
      (simp_all add: route_def route_pass_eq Let_def deliver_chosen_get routed_session_def
        case_prod_beta flip: route_groups_def)
qed


lemma candidate_conn [simp]: "same_conn s (deliver_candidate P now m n s c)"
  by (simp add: deliver_candidate_def)

lemma direct_conn [simp]: "same_conn s (snd (direct_delivery P now publisher m n c s))"
  by (simp add: direct_delivery_def Let_def)

lemma candidates_conn [simp]: "same_conn s (foldl (deliver_candidate P now m n) s cs)"
  by (induction cs rule: rev_induct) (auto intro: same_conn_trans)

lemma routed_conn [simp]: "same_conn s (routed_session P now publisher m n chosen c s)"
  unfolding routed_session_def by (rule same_conn_trans [OF direct_conn candidates_conn])

lemma candidates_ok:
  "session_inv s \<Longrightarrow> session_inv (foldl (deliver_candidate P now m n) s cs)"
  "queue_ok n s \<Longrightarrow> queue_ok n (foldl (deliver_candidate P now m n) s cs)"
  by (induction cs rule: rev_induct)
    (auto simp: deliver_candidate_def intro: deliver_op.op_inv deliver_op.op_queue)

interpretation routed_op: session_op "routed_session P now publisher m n chosen c" n
  for P now publisher m n chosen c
proof unfold_locales
  fix s
  have direct: "session_inv s \<Longrightarrow> session_inv (snd (direct_delivery P now publisher m n c s))"
    "queue_ok n s \<Longrightarrow> queue_ok n (snd (direct_delivery P now publisher m n c s))"
    by (auto simp: direct_delivery_def Let_def intro: deliver_op.op_inv deliver_op.op_queue)
  show "session_inv s \<Longrightarrow> session_inv (routed_session P now publisher m n chosen c s)"
    "queue_ok n s \<Longrightarrow> queue_ok n (routed_session P now publisher m n chosen c s)"
    by (simp_all add: routed_session_def candidates_ok direct)
  show "ss_client_id (routed_session P now publisher m n chosen c s) = ss_client_id s"
    "ss_epoch (routed_session P now publisher m n chosen c s) = ss_epoch s"
    by (rule same_conn_fields [OF routed_conn])+
qed

lemma route_frame [simp, broker_frame]:
  "b_config (snd (route P now publisher m b)) = b_config b"
  "b_acl (snd (route P now publisher m b)) = b_acl b"
  "b_auth (snd (route P now publisher m b)) = b_auth b"
  "b_retained (snd (route P now publisher m b)) = b_retained b"
  "b_next_epoch (snd (route P now publisher m b)) = b_next_epoch b"
  "b_auto_id_counter (snd (route P now publisher m b)) = b_auto_id_counter b"
  "b_storage (snd (route P now publisher m b)) = b_storage b"
  "b_tasks (snd (route P now publisher m b)) = b_tasks b"
  "b_detached (snd (route P now publisher m b)) = b_detached b"
  "max_queued (snd (route P now publisher m b)) = max_queued b"
  by (simp_all add: route_def Let_def case_prod_beta max_queued_def)

text \<open>Routing keeps the keys of the session map, in their order, and every subscription.\<close>

definition subs_view :: "(string, session) hashmap \<Rightarrow> (string \<times> subscription list) list" where
  "subs_view ss = map (\<lambda>(c, s). (c, ss_subscriptions s)) ss"

lemma subs_view_insert:
  "hm_get c ss = Some s \<Longrightarrow> ss_subscriptions s' = ss_subscriptions s \<Longrightarrow>
   subs_view (hm_insert c s' ss) = subs_view ss"
  by (induction ss) (auto simp: subs_view_def hm_insert_def hm_get_def split: if_splits)

lemma deliver_chosen_view: "subs_view (fst (deliver_chosen P now m n cs ss d)) = subs_view ss"
proof (induction cs arbitrary: ss d)
  case Nil
  then show ?case by simp
next
  case (Cons x cs)
  have "ss_subscriptions (snd (deliver_to_session P now s m q r ids n)) = ss_subscriptions s" for s q r ids
    by (rule same_conn_fields [OF same_conn_deliver])
  with Cons show ?case by (auto simp: case_prod_beta subs_view_insert split: option.split)
qed

lemma route_view: "subs_view (b_sessions (snd (route P now publisher m b))) = subs_view (b_sessions b)"
proof -
  have "ss_subscriptions (snd (direct_delivery P now publisher m n c s)) = ss_subscriptions s" for n c s
    by (rule same_conn_fields [OF direct_conn])
  then have "subs_view (hm_map (\<lambda>c s. snd (direct_delivery P now publisher m n c s)) ss) = subs_view ss" for n ss
    by (simp add: subs_view_def hm_map_def case_prod_beta)
  then show ?thesis
    by (simp add: route_def route_pass_eq Let_def case_prod_beta deliver_chosen_view)
qed

lemma view_wf: "subs_view ss = subs_view ss' \<Longrightarrow> hm_wf ss = hm_wf ss'"
proof -
  have "map fst ss = map fst (subs_view ss)" for ss by (simp add: subs_view_def comp_def case_prod_beta)
  then show "subs_view ss = subs_view ss' \<Longrightarrow> hm_wf ss = hm_wf ss'" by (metis hm_wf_def)
qed

lemma inv_route: 
  assumes "broker_inv b"
  shows "broker_inv (snd (route P now publisher m b))"
proof (cases "is_expired now m")
  case True
  with assms show ?thesis by (simp add: route_def)
next
  case False
  have "hm_wf (b_shared_rr (snd (route P now publisher m b)))"
    using assms False by (simp add: route_def Let_def case_prod_beta choose_members_wf broker_inv_def)
  moreover have "hm_wf (b_sessions (snd (route P now publisher m b)))"
    using assms view_wf [OF route_view] by (auto simp: broker_inv_def sessions_ok_def)
  moreover have "session_ok (max_queued b) c s" if "get_session c (snd (route P now publisher m b)) = Some s" for c s
    using that assms routed_op.op_ok
    by (auto simp: route_get [OF False] broker_inv_def sessions_ok_def)
  ultimately show ?thesis
    using assms by (simp add: broker_inv_def sessions_ok_def)
qed

lemma route_epoch:
  "map_option ss_epoch (get_session c (snd (route P now publisher m b))) = map_option ss_epoch (get_session c b)"
proof (cases "is_expired now m")
  case True
  then show ?thesis by (simp add: route_def)
next
  case False
  then show ?thesis by (cases "get_session c b") (simp_all add: route_get routed_op.op_epoch)
qed

lemma route_same_conn:
  assumes "get_session c b = Some s"
  shows "\<exists>s'. get_session c (snd (route P now publisher m b)) = Some s' \<and> same_conn s s'"
proof (cases "is_expired now m")
  case True
  with assms show ?thesis by (auto simp: route_def)
next
  case False
  with assms show ?thesis by (simp add: route_get)
qed

lemma route_epochs: "epochs_ok b \<Longrightarrow> epochs_ok (snd (route P now publisher m b))"
  unfolding epochs_ok_def
proof (intro allI impI)
  fix c s assume ok: "\<forall>c s. get_session c b = Some s \<longrightarrow> ss_epoch s < b_next_epoch b"
    and s: "get_session c (snd (route P now publisher m b)) = Some s"
  from route_epoch [of c P now publisher m b] s obtain s0 where "get_session c b = Some s0" "ss_epoch s0 = ss_epoch s"
    by (cases "get_session c b") auto
  with ok show "ss_epoch s < b_next_epoch (snd (route P now publisher m b))" by (metis route_frame(5))
qed


subsection \<open>Who receives a publication\<close>

lemma group_members_in:
  assumes "x \<in> set (group_members P publisher m ss k)"
  shows "\<exists>s sub. (cd_client_id x, s) \<in> set ss \<and> sub \<in> set (ss_subscriptions s)
     \<and> eligible P publisher m (cd_client_id x) sub \<and> sub_share_name sub = Some (fst k) \<and> sub_filter sub = snd k
     \<and> x = candidate_of m (cd_client_id x) sub"
  using assms
  by (force simp: group_members_def session_members_def shared_subs_def candidate_of_def group_key_def)

lemma chosen_member:
  assumes "x \<in> set (route_chosen P publisher m b)"
  shows "\<exists>k. x \<in> set (group_members P publisher m (b_sessions b) k)"
proof -
  from assms obtain k cs where kcs: "(k, cs) \<in> set (route_groups P publisher m b)"
    and x: "x = cs ! (unat (cursor_of k (b_shared_rr b)) mod length cs)"
    by (auto simp: route_chosen_def)
  from route_groups_ok [of P publisher m b] kcs have "cs \<noteq> []" by (auto simp: groups_ok_set)
  then have "x \<in> set cs" by (simp add: x)
  moreover from kcs route_groups_ok [of P publisher m b]
  have "hm_get k (route_groups P publisher m b) = Some cs" by (simp add: groups_ok_set hm_get_iff)
  then have "cs = group_members P publisher m (b_sessions b) k"
    by (simp add: route_groups_get Let_def split: if_splits)
  ultimately show ?thesis by blast
qed

lemma route_unmatched:
  assumes "get_session c b = Some s" and "hm_wf (b_sessions b)"
    and none: "\<forall>sub \<in> set (ss_subscriptions s). \<not> eligible P publisher m c sub"
  shows "get_session c (snd (route P now publisher m b)) = Some s"
proof (cases "is_expired now m")
  case True
  with assms show ?thesis by (simp add: route_def)
next
  case False
  have "filter (\<lambda>x. cd_client_id x = c) (route_chosen P publisher m b) = []"
  proof (rule ccontr)
    assume "\<not> ?thesis"
    then obtain x where x: "x \<in> set (route_chosen P publisher m b)" "cd_client_id x = c"
      by (auto simp: filter_empty_conv)
    from chosen_member [OF x(1)] x(2) obtain s' sub where "(c, s') \<in> set (b_sessions b)"
      "sub \<in> set (ss_subscriptions s')" "eligible P publisher m c sub"
      by (auto dest!: group_members_in)
    with assms show False by (metis hm_get_iff option.inject)
  qed
  moreover have "plain_subs P publisher m c (ss_subscriptions s) = []"
    using none by (auto simp: plain_subs_def filter_empty_conv)
  ultimately show ?thesis
    using assms(1) by (simp add: route_get [OF False] routed_session_def direct_delivery_def)
qed

text \<open>The winners: one per group that has a member, taken from that group.\<close>

lemma route_one_per_group:
  shows "distinct (map fst (route_groups P publisher m b))"
    and "k \<in> fst ` set (route_groups P publisher m b) \<longleftrightarrow> group_members P publisher m (b_sessions b) k \<noteq> []"
    and "route_chosen P publisher m b =
           map (\<lambda>k. let cs = group_members P publisher m (b_sessions b) k
                     in cs ! (unat (cursor_of k (b_shared_rr b)) mod length cs))
             (map fst (route_groups P publisher m b))"
proof -
  show wf: "distinct (map fst (route_groups P publisher m b))"
    using route_groups_ok [of P publisher m b] by (simp add: groups_ok_def hm_wf_def)
  show "k \<in> fst ` set (route_groups P publisher m b) \<longleftrightarrow> group_members P publisher m (b_sessions b) k \<noteq> []"
    using hm_get_None_iff [of k "route_groups P publisher m b"] by (auto simp: route_groups_get Let_def split: if_splits)
  have "cs = group_members P publisher m (b_sessions b) k" if "(k, cs) \<in> set (route_groups P publisher m b)" for k cs
    using that wf hm_get_iff [of "route_groups P publisher m b" k cs]
    by (simp add: hm_wf_def route_groups_get Let_def split: if_splits)
  then show "route_chosen P publisher m b =
      map (\<lambda>k. let cs = group_members P publisher m (b_sessions b) k
                in cs ! (unat (cursor_of k (b_shared_rr b)) mod length cs))
        (map fst (route_groups P publisher m b))"
    by (auto simp: route_chosen_def Let_def)
qed

lemma route_cursor:
  assumes "\<not> is_expired now m"
  shows "cursor_of k (b_shared_rr (snd (route P now publisher m b))) =
     cursor_of k (b_shared_rr b) + (if group_members P publisher m (b_sessions b) k = [] then 0 else 1)"
proof -
  have "b_shared_rr (snd (route P now publisher m b))
      = snd (choose_members (route_groups P publisher m b) (b_shared_rr b))"
    using assms by (simp add: route_def route_pass_eq Let_def case_prod_beta flip: route_groups_def)
  then show ?thesis
    by (auto simp: cursor_of_def route_groups_get Let_def choose_members_snd [OF route_groups_ok]
        split: option.split)
qed

subsection \<open>Round-robin fairness\<close>

definition member_ids :: "protocol \<Rightarrow> string option \<Rightarrow> message \<Rightarrow> broker \<Rightarrow> string \<times> string \<Rightarrow> string list" where
  "member_ids P publisher m b k = map cd_client_id (group_members P publisher m (b_sessions b) k)"

text \<open>The client of group \<open>k\<close> that is chosen for a publication.\<close>

definition winner :: "protocol \<Rightarrow> string option \<Rightarrow> message \<Rightarrow> broker \<Rightarrow> string \<times> string \<Rightarrow> string" where
  "winner P publisher m b k =
     (let ids = member_ids P publisher m b k in ids ! (unat (cursor_of k (b_shared_rr b)) mod length ids))"

lemma group_members_view:
  "group_members P publisher m ss k =
     concat (map (\<lambda>(c, subs). map (candidate_of m c)
       (filter (\<lambda>x. group_key x = k) (shared_subs P publisher m c subs))) (subs_view ss))"
  by (simp add: group_members_def session_members_def [abs_def] subs_view_def comp_def case_prod_beta)

primrec route_times :: "nat \<Rightarrow> protocol \<Rightarrow> u64 \<Rightarrow> string option \<Rightarrow> message \<Rightarrow> broker \<Rightarrow> broker" where
  "route_times 0 P now publisher m b = b"
| "route_times (Suc i) P now publisher m b = snd (route P now publisher m (route_times i P now publisher m b))"

lemma route_times_view: "subs_view (b_sessions (route_times i P now publisher m b)) = subs_view (b_sessions b)"
  by (induction i) (simp_all add: route_view)

lemma route_times_members:
  "group_members P publisher m (b_sessions (route_times i P now publisher m b)) k
     = group_members P publisher m (b_sessions b) k"
  by (simp add: group_members_view route_times_view)

lemma route_times_cursor:
  assumes "\<not> is_expired now m" and "group_members P publisher m (b_sessions b) k \<noteq> []"
  shows "cursor_of k (b_shared_rr (route_times i P now publisher m b)) = cursor_of k (b_shared_rr b) + of_nat i"
  using assms by (induction i) (simp_all add: route_cursor route_times_members)

lemma winners_rotate:
  assumes "\<not> is_expired now m" and "ids = member_ids P publisher m b k" and "ids \<noteq> []"
    and "unat (cursor_of k (b_shared_rr b)) + length ids \<le> 2 ^ 64"
  shows "map (\<lambda>i. winner P publisher m (route_times i P now publisher m b) k) [0..<length ids]
           = rotate (unat (cursor_of k (b_shared_rr b))) ids"
proof (rule nth_equalityI)
  fix i assume "i < length (map (\<lambda>i. winner P publisher m (route_times i P now publisher m b) k) [0..<length ids])"
  then have i: "i < length ids" by simp
  let ?c = "cursor_of k (b_shared_rr b)"
  from assms have ne: "group_members P publisher m (b_sessions b) k \<noteq> []" by (simp add: member_ids_def)
  have "unat (?c + of_nat i) = unat ?c + i"
    using i assms(4) by (simp add: unat_word_ariths unat_of_nat)
  moreover have "member_ids P publisher m (route_times i P now publisher m b) k = ids"
    by (simp add: member_ids_def route_times_members assms(2))
  ultimately show "map (\<lambda>i. winner P publisher m (route_times i P now publisher m b) k) [0..<length ids] ! i
      = rotate (unat ?c) ids ! i"
    using i by (simp add: winner_def Let_def route_times_cursor [OF assms(1) ne] nth_rotate)
qed simp


subsection \<open>The result of routing\<close>

definition has_match :: "protocol \<Rightarrow> string option \<Rightarrow> message \<Rightarrow> broker \<Rightarrow> bool" where
  "has_match P publisher m b \<longleftrightarrow>
     (\<exists>(c, s) \<in> set (b_sessions b). \<exists>sub \<in> set (ss_subscriptions s). eligible P publisher m c sub)"

lemma members_nonempty:
  assumes "(c, s) \<in> set ss" and "sub \<in> set (ss_subscriptions s)" and "eligible P publisher m c sub"
    and "sub_share_name sub \<noteq> None"
  shows "group_members P publisher m ss (group_key sub) \<noteq> []"
proof -
  have "candidate_of m c sub \<in> set (session_members P publisher m (group_key sub) (c, s))"
    using assms by (auto simp: session_members_def shared_subs_def)
  with assms(1) show ?thesis by (force simp: group_members_def)
qed

lemma has_match_iff:
  "has_match P publisher m b \<longleftrightarrow>
     matched P publisher m (b_sessions b) \<noteq> [] \<or> route_groups P publisher m b \<noteq> []"
proof
  assume "has_match P publisher m b"
  then obtain c s sub where x: "(c, s) \<in> set (b_sessions b)" "sub \<in> set (ss_subscriptions s)"
    "eligible P publisher m c sub" by (auto simp: has_match_def)
  show "matched P publisher m (b_sessions b) \<noteq> [] \<or> route_groups P publisher m b \<noteq> []"
  proof (cases "sub_share_name sub")
    case None
    with x have "plain_subs P publisher m c (ss_subscriptions s) \<noteq> []"
      by (auto simp: plain_subs_def filter_empty_conv)
    with x(1) show ?thesis by (force simp: matched_def filter_empty_conv)
  next
    case (Some k)
    with members_nonempty [OF x] route_one_per_group(2) [of "group_key sub" P publisher m b] show ?thesis by auto
  qed
next
  assume "matched P publisher m (b_sessions b) \<noteq> [] \<or> route_groups P publisher m b \<noteq> []"
  then show "has_match P publisher m b"
  proof
    assume "matched P publisher m (b_sessions b) \<noteq> []"
    then show ?thesis by (fastforce simp: matched_def has_match_def plain_subs_def filter_empty_conv)
  next
    assume "route_groups P publisher m b \<noteq> []"
    then have "fst (hd (route_groups P publisher m b)) \<in> fst ` set (route_groups P publisher m b)" by simp
    then obtain k where "group_members P publisher m (b_sessions b) k \<noteq> []"
      using route_one_per_group(2) by blast
    then obtain x where "x \<in> set (group_members P publisher m (b_sessions b) k)" by (meson list.set_sel(1))
    from group_members_in [OF this] show ?thesis by (auto simp: has_match_def)
  qed
qed

lemma route_result:
  assumes "\<not> is_expired now m"
  shows "fst (route P now publisher m b) \<longleftrightarrow>
     (of_nat (length (matched P publisher m (b_sessions b)) + length (route_groups P publisher m b)) :: u64) > 0"
proof -
  have "length (fst (choose_members (route_groups P publisher m b) (b_shared_rr b))) = length (route_groups P publisher m b)"
    by (simp add: choose_members_fst [OF route_groups_ok])
  with assms show ?thesis
    by (simp add: route_def route_pass_eq Let_def case_prod_beta flip: route_groups_def)
qed

subsection \<open>Properties\<close>

text \<open>C10: routing, seen by one session, is what the reference definitions say: one delivery for all its
  matching ordinary subscriptions together (highest effective QoS, all subscription identifiers, RETAIN
  only where a subscription asks for it), then one delivery for every shared group it was chosen for. No
  session appears or disappears, and an expired message changes nothing.\<close>

theorem route_per_session:
  "get_session c (snd (route P now publisher m b)) =
     (if is_expired now m then get_session c b
      else map_option (routed_session P now publisher m (max_queued b) (route_chosen P publisher m b) c)
             (get_session c b))"
  by (cases "is_expired now m") (simp_all add: route_get, simp add: route_def)

text \<open>Isolation. A session none of whose subscriptions applies is left exactly as it was: another
  filter, or a No Local subscription of the publisher itself. So a client never sees a message it did not
  subscribe to, nor its own message on a No Local subscription.\<close>

lemma route_isolation:
  assumes "broker_inv b" and "get_session c b = Some s"
    and "\<forall>sub \<in> set (ss_subscriptions s).
           \<not> topic_matches P (sub_filter sub) (m_topic m) \<or> sub_no_local sub \<and> publisher = Some c"
  shows "get_session c (snd (route P now publisher m b)) = Some s"
proof (rule route_unmatched [OF assms(2)])
  show "hm_wf (b_sessions b)" using assms(1) by (simp add: broker_inv_def sessions_ok_def)
  show "\<forall>sub \<in> set (ss_subscriptions s). \<not> eligible P publisher m c sub"
    using assms(3) by (auto simp: eligible_def)
qed

definition demo_sub :: subscription where
  "demo_sub = \<lparr>sub_filter = ''t'', sub_share_name = None, sub_qos = AtLeastOnce, sub_no_local = True,
     sub_retain_as_published = False, sub_subscription_identifier = None\<rparr>"

definition demo_shared :: subscription where
  "demo_shared = demo_sub\<lparr>sub_share_name := Some ''g'', sub_no_local := False\<rparr>"

definition demo_broker :: broker where
  "demo_broker = (broker_new plain_protocol config_default \<lparr>ld_retained = [], ld_sessions = []\<rparr> permit_all None)
     \<lparr>b_sessions := [(''c'', demo_session\<lparr>ss_subscriptions := [demo_sub]\<rparr>)]\<rparr>"

lemma demo_broker_inv [simp]: "broker_inv demo_broker"
proof -
  have "session_inv (demo_session\<lparr>ss_subscriptions := [demo_sub]\<rparr>)" by simp
  then show ?thesis
    by (auto simp: broker_inv_def demo_broker_def broker_new_def sessions_ok_def session_ok_def retained_ok_def
        hm_get_Cons queue_ok_def hm_wf_def demo_session_def session_new_def split: if_splits)
qed

lemma demo_broker_get: "get_session ''c'' demo_broker = Some (demo_session\<lparr>ss_subscriptions := [demo_sub]\<rparr>)"
  by (simp add: demo_broker_def hm_get_Cons)


definition demo_group :: broker where
  "demo_group = demo_broker\<lparr>b_sessions :=
     [(''c'', demo_session\<lparr>ss_subscriptions := [demo_shared]\<rparr>),
      (''d'', demo_session\<lparr>ss_client_id := ''d'', ss_subscriptions := [demo_shared]\<rparr>)]\<rparr>"

lemma demo_message_live [simp]: "\<not> is_expired now demo_message"
  by (simp add: demo_message_def)

lemma demo_group_ids: "member_ids plain_protocol None demo_message demo_group (''g'', ''t'') = [''c'', ''d'']"
  by (simp add: member_ids_def group_members_def session_members_def shared_subs_def eligible_def demo_group_def
      demo_shared_def demo_sub_def demo_message_def group_key_def candidate_of_def)




text \<open>The answer of routing is truthful. It reports a match exactly when some subscription of some
  session applies to the publication (the counter of deliveries does not wrap below \<open>2 ^ 64\<close>).\<close>

lemma route_reports_match:
  assumes "\<not> is_expired now m"
    and "length (matched P publisher m (b_sessions b)) + length (route_groups P publisher m b) < 2 ^ 64"
  shows "fst (route P now publisher m b) \<longleftrightarrow> has_match P publisher m b"
proof -
  let ?n = "length (matched P publisher m (b_sessions b)) + length (route_groups P publisher m b)"
  have cast: "unat (of_nat n :: u64) = n" if "n < 2 ^ 64" for n
    using that by (simp add: unat_of_nat)
  from cast [OF assms(2)] have "(of_nat ?n :: u64) > 0 \<longleftrightarrow> 0 < ?n" by (simp only: word_less_nat_alt) simp
  then show ?thesis by (auto simp: route_result [OF assms(1)] has_match_iff)
qed

end
