(* ===== verification/Publishing.thy ===== *)
theory Publishing
  imports Routing
begin

section \<open>PUBLISH and the acknowledgement state machines\<close>

text \<open>
  \<^verbatim>\<open>src/src/broker/publish.rs\<close>. \<open>handle_publish\<close> is split where the source has its comments: the
  checks before the lock, the epoch check, alias resolution (\<open>resolve_alias\<close>), topic checks and
  authorization, and the part that runs for an authorized message (\<open>accept_publish\<close>). The session
  halves of the acknowledgement handlers are the \<open>*_session\<close> functions.
\<close>

text \<open>Topic Alias resolution: an error, or the publish with its topic and the updated state.\<close>

definition resolve_alias :: "string \<Rightarrow> session \<Rightarrow> publish \<Rightarrow> broker \<Rightarrow> reason_code + publish \<times> broker" where
  "resolve_alias c s p b =
     (case pr_topic_alias (pub_properties p) of
        None \<Rightarrow> Inr (p, b)
      | Some alias \<Rightarrow>
          if cfg_topic_alias_maximum (b_config b) < alias then Inl TopicAliasInvalid
          else if pub_topic p = [] then
            (case hm_get alias (ss_inbound_aliases s) of
               Some t \<Rightarrow> Inr (p\<lparr>pub_topic := t\<rparr>, b)
             | None \<Rightarrow> Inl TopicAliasInvalid)
          else Inr (p, update_session c
                         (\<lambda>s. s\<lparr>ss_inbound_aliases := hm_insert alias (pub_topic p) (ss_inbound_aliases s)\<rparr>) b))"

definition packet_id_or_0 :: "publish \<Rightarrow> u16" where
  "packet_id_or_0 p = (case pub_packet_id p of None \<Rightarrow> 0 | Some i \<Rightarrow> i)"

definition refuse_publish :: "string \<Rightarrow> publish \<Rightarrow> broker \<Rightarrow> broker" where
  "refuse_publish c p b =
     (case pub_qos p of
        AtMostOnce \<Rightarrow> b
      | AtLeastOnce \<Rightarrow> send_to c (Control (Puback (puback_new (packet_id_or_0 p) NotAuthorized))) b
      | ExactlyOnce \<Rightarrow> send_to c (Control (Pubrec (puback_new (packet_id_or_0 p) NotAuthorized))) b)"

definition match_code :: "bool \<Rightarrow> reason_code" where
  "match_code hit = (if hit then Success else NoMatchingSubscribers)"

text \<open>The last match of the handler, on the QoS level; the retained store is already up to date.\<close>

definition route_publish :: "protocol \<Rightarrow> u64 \<Rightarrow> string \<Rightarrow> publish \<Rightarrow> message \<Rightarrow> broker \<Rightarrow> action \<times> broker" where
  "route_publish P now c p m b =
     (let i = packet_id_or_0 p
      in case pub_qos p of
           AtMostOnce \<Rightarrow> (Continue, snd (route P now (Some c) m b))
         | AtLeastOnce \<Rightarrow>
             let (hit, b2) = route P now (Some c) m b
             in (Continue, send_to c (Control (Puback (puback_new i (match_code hit)))) b2)
         | ExactlyOnce \<Rightarrow>
             (case get_session c b of
                None \<Rightarrow> (ServerDisconnect UnspecifiedError, b)
              | Some s \<Rightarrow>
                  if i \<in> set (ss_inbound_qos2 s)
                  then (Continue, send_to c (Control (Pubrec (puback_new i Success))) b)
                  else
                    let b2 = update_session c (\<lambda>s. s\<lparr>ss_inbound_qos2 := i # ss_inbound_qos2 s\<rparr>) b;
                        (hit, b3) = route P now (Some c) m b2
                    in (Continue, send_to c (Control (Pubrec (puback_new i (match_code hit)))) b3)))"

definition accept_publish :: "protocol \<Rightarrow> u64 \<Rightarrow> string \<Rightarrow> publish \<Rightarrow> broker \<Rightarrow> action \<times> broker" where
  "accept_publish P now c p b =
     (let m = from_publish now p
      in route_publish P now c p m (if pub_retain p then store_retained (pub_topic p) m b else b))"

definition authorize_publish :: "protocol \<Rightarrow> u64 \<Rightarrow> string \<Rightarrow> publish \<Rightarrow> broker \<Rightarrow> action \<times> broker" where
  "authorize_publish P now c p b =
     (if \<not> valid_topic_name P (pub_topic p) then (ServerDisconnect TopicNameInvalid, b)
      else if starts_with (pub_topic p) SYS_PREFIX then (ServerDisconnect TopicNameInvalid, b)
      else
        let who = who_of (Option.bind (get_session c b) ss_identity)
        in if acl_enforced (b_acl b) \<and> \<not> can_publish P (b_acl b) who (pub_topic p)
           then (Continue, refuse_publish c p b)
           else accept_publish P now c p b)"

definition handle_publish ::
    "protocol \<Rightarrow> u64 \<Rightarrow> string \<Rightarrow> u64 \<Rightarrow> publish \<Rightarrow> broker \<Rightarrow> action \<times> broker" where
  "handle_publish P now c epoch p b0 =
     (let mx = b_metrics b0;
          b = b0\<lparr>b_metrics := mx\<lparr>mx_publish_received := mx_publish_received mx + 1\<rparr>\<rparr>
      in if qos_as_u8 (cfg_maximum_qos (b_config b)) < qos_as_u8 (pub_qos p)
         then (ServerDisconnect QoSNotSupported, b)
         else if pub_retain p \<and> \<not> cfg_retain_available (b_config b)
         then (ServerDisconnect RetainNotSupported, b)
         else
           (case get_session c b of
              None \<Rightarrow> (ServerDisconnect UnspecifiedError, b)
            | Some s \<Rightarrow>
                if ss_epoch s \<noteq> epoch then (ServerDisconnect UnspecifiedError, b)
                else (case resolve_alias c s p b of
                        Inl rc \<Rightarrow> (ServerDisconnect rc, b)
                      | Inr (p', b') \<Rightarrow> authorize_publish P now c p' b')))"

subsection \<open>Acknowledgements\<close>

text \<open>The frame the four handlers share: no session, a stale epoch, or the session's own change together
  with the number of dropped messages.\<close>

definition on_ack :: "string \<Rightarrow> u64 \<Rightarrow> (session \<Rightarrow> u64 \<times> session) \<Rightarrow> broker \<Rightarrow> action \<times> broker" where
  "on_ack c epoch f b =
     (case get_session c b of
        None \<Rightarrow> (Continue, b)
      | Some s \<Rightarrow>
          if ss_epoch s \<noteq> epoch then (ServerDisconnect UnspecifiedError, b)
          else let (dropped, s') = f s
               in (Continue, count_dropped dropped (b\<lparr>b_sessions := hm_insert c s' (b_sessions b)\<rparr>)))"

definition puback_session :: "protocol \<Rightarrow> u64 \<Rightarrow> puback \<Rightarrow> session \<Rightarrow> u64 \<times> session" where
  "puback_session P now ack s =
     flush_queue P now (s\<lparr>ss_awaiting_puback := hm_remove (ack_packet_id ack) (ss_awaiting_puback s)\<rparr>)"

definition handle_puback :: "protocol \<Rightarrow> u64 \<Rightarrow> string \<Rightarrow> u64 \<Rightarrow> puback \<Rightarrow> broker \<Rightarrow> action \<times> broker" where
  "handle_puback P now c epoch ack b = on_ack c epoch (puback_session P now ack) b"

definition pubrec_session :: "protocol \<Rightarrow> puback \<Rightarrow> session \<Rightarrow> u64 \<times> session" where
  "pubrec_session P ack s =
     (let i = ack_packet_id ack;
          known = (hm_get i (ss_awaiting_pubrec s) \<noteq> None);
          s1 = s\<lparr>ss_awaiting_pubrec := hm_remove i (ss_awaiting_pubrec s)\<rparr>;
          err = rc_is_error P (ack_reason_code ack)
      in if known \<and> err then (0, s1)
         else if known then
           (0, session_send (s1\<lparr>ss_awaiting_pubcomp := List.insert i (ss_awaiting_pubcomp s1)\<rparr>)
                 (Control (Pubrel (puback_new i Success))))
         else if err then (0, s1)
         else (0, session_send s1 (Control (Pubrel (puback_new i PacketIdentifierNotFound)))))"

definition handle_pubrec :: "protocol \<Rightarrow> string \<Rightarrow> u64 \<Rightarrow> puback \<Rightarrow> broker \<Rightarrow> action \<times> broker" where
  "handle_pubrec P c epoch ack b = on_ack c epoch (pubrec_session P ack) b"

definition pubrel_session :: "puback \<Rightarrow> session \<Rightarrow> u64 \<times> session" where
  "pubrel_session ack s =
     (let i = ack_packet_id ack;
          existed = (i \<in> set (ss_inbound_qos2 s));
          s1 = s\<lparr>ss_inbound_qos2 := removeAll i (ss_inbound_qos2 s)\<rparr>;
          rc = (if existed then Success else PacketIdentifierNotFound)
      in (0, session_send s1 (Control (Pubcomp (puback_new i rc)))))"

definition handle_pubrel :: "string \<Rightarrow> u64 \<Rightarrow> puback \<Rightarrow> broker \<Rightarrow> action \<times> broker" where
  "handle_pubrel c epoch ack b = on_ack c epoch (pubrel_session ack) b"

definition pubcomp_session :: "protocol \<Rightarrow> u64 \<Rightarrow> puback \<Rightarrow> session \<Rightarrow> u64 \<times> session" where
  "pubcomp_session P now ack s =
     flush_queue P now (s\<lparr>ss_awaiting_pubcomp := removeAll (ack_packet_id ack) (ss_awaiting_pubcomp s)\<rparr>)"

definition handle_pubcomp :: "protocol \<Rightarrow> u64 \<Rightarrow> string \<Rightarrow> u64 \<Rightarrow> puback \<Rightarrow> broker \<Rightarrow> action \<times> broker" where
  "handle_pubcomp P now c epoch ack b = on_ack c epoch (pubcomp_session P now ack) b"

subsection \<open>The acknowledgement handlers meet the handler contract\<close>

lemma count_dropped_metrics: "count_dropped d b = b\<lparr>b_metrics := add_dropped d (b_metrics b)\<rparr>"
  by (simp add: count_dropped_def)

lemma on_ack_stale: "stale c e b \<Longrightarrow> snd (on_ack c e f b) = b"
  by (auto simp: on_ack_def stale_def split: option.split)

lemma on_ack_next_epoch [simp]: "b_next_epoch (snd (on_ack c e f b)) = b_next_epoch b"
  by (simp add: on_ack_def case_prod_beta split: option.split)

text \<open>A session operation that also reports dropped messages: the acknowledgement frame turns it into a
  packet handler.\<close>

locale ack_op =
  fixes f :: "puback \<Rightarrow> session \<Rightarrow> u64 \<times> session"
  assumes ack_session: "session_op (\<lambda>s. snd (f ack s)) n"
begin

lemmas ack_ok = session_op.op_ok [OF ack_session] and ack_epoch = session_op.op_epoch [OF ack_session]

lemma on_ack_inv: "broker_inv b \<Longrightarrow> broker_inv (snd (on_ack c e (f ack) b))"
  by (auto simp: on_ack_def case_prod_beta intro!: inv_insert ack_ok dest: inv_session_ok split: option.split)

lemma on_ack_epoch:
  "map_option ss_epoch (get_session d (snd (on_ack c e (f ack) b))) = map_option ss_epoch (get_session d b)"
  by (auto simp: on_ack_def case_prod_beta ack_epoch split: option.split)

end

sublocale ack_op \<subseteq> handler: packet_handler "\<lambda>c e ack b. on_ack c e (f ack) b"
  by unfold_locales (simp_all add: on_ack_stale on_ack_inv on_ack_epoch)

text \<open>The session invariant over the three tables as sets of identifiers.\<close>

lemma session_inv_sets:
  "session_inv s \<longleftrightarrow>
     hm_wf (ss_awaiting_puback s) \<and> hm_wf (ss_awaiting_pubrec s) \<and> distinct (ss_awaiting_pubcomp s)
     \<and> fst ` set (ss_awaiting_puback s) \<inter> fst ` set (ss_awaiting_pubrec s) = {}
     \<and> fst ` set (ss_awaiting_puback s) \<inter> set (ss_awaiting_pubcomp s) = {}
     \<and> fst ` set (ss_awaiting_pubrec s) \<inter> set (ss_awaiting_pubcomp s) = {}
     \<and> 0 \<notin> fst ` set (ss_awaiting_puback s) \<and> 0 \<notin> fst ` set (ss_awaiting_pubrec s)
     \<and> 0 \<notin> set (ss_awaiting_pubcomp s) \<and> ss_next_packet_id s \<noteq> 0
     \<and> stored_ok AtLeastOnce (ss_awaiting_puback s) \<and> stored_ok ExactlyOnce (ss_awaiting_pubrec s)
     \<and> (\<forall>pd \<in> set (ss_queue s). pd_qos pd \<noteq> AtMostOnce)
     \<and> (\<forall>tx. ss_out s = Some tx \<longrightarrow> channel_ok tx)"
proof -
  have "distinct (inflight_ids s) \<longleftrightarrow>
      hm_wf (ss_awaiting_puback s) \<and> hm_wf (ss_awaiting_pubrec s) \<and> distinct (ss_awaiting_pubcomp s)
      \<and> fst ` set (ss_awaiting_puback s) \<inter> fst ` set (ss_awaiting_pubrec s) = {}
      \<and> fst ` set (ss_awaiting_puback s) \<inter> set (ss_awaiting_pubcomp s) = {}
      \<and> fst ` set (ss_awaiting_pubrec s) \<inter> set (ss_awaiting_pubcomp s) = {}"
    unfolding inflight_ids_def distinct_append set_append set_map hm_wf_def by blast
  moreover have "0 \<notin> set (inflight_ids s) \<longleftrightarrow> 0 \<notin> fst ` set (ss_awaiting_puback s)
      \<and> 0 \<notin> fst ` set (ss_awaiting_pubrec s) \<and> 0 \<notin> set (ss_awaiting_pubcomp s)"
    unfolding inflight_ids_def set_append set_map by blast
  ultimately show ?thesis unfolding session_inv_def by (simp only: conj_assoc)
qed

lemma stored_ok_remove: "stored_ok q m \<Longrightarrow> stored_ok q (hm_remove i m)"
  by (auto simp: stored_ok_def set_hm_remove)

lemma session_inv_remove_puback:
  assumes "session_inv s"
  shows "session_inv (s\<lparr>ss_awaiting_puback := hm_remove i (ss_awaiting_puback s)\<rparr>)"
  using assms unfolding session_inv_sets by (simp add: stored_ok_remove) blast

lemma session_inv_remove_pubrec:
  assumes "session_inv s"
  shows "session_inv (s\<lparr>ss_awaiting_pubrec := hm_remove i (ss_awaiting_pubrec s)\<rparr>)"
  using assms unfolding session_inv_sets by (simp add: stored_ok_remove) blast

lemma session_inv_remove_pubcomp:
  assumes "session_inv s"
  shows "session_inv (s\<lparr>ss_awaiting_pubcomp := removeAll i (ss_awaiting_pubcomp s)\<rparr>)"
  using assms unfolding session_inv_sets by (simp add: distinct_removeAll) blast

text \<open>An identifier moves from the PUBREC table to the PUBCOMP set.\<close>

lemma session_inv_pubrec_known:
  assumes "session_inv s" and "hm_get i (ss_awaiting_pubrec s) \<noteq> None"
  shows "session_inv (s\<lparr>ss_awaiting_pubrec := hm_remove i (ss_awaiting_pubrec s),
                        ss_awaiting_pubcomp := List.insert i (ss_awaiting_pubcomp s)\<rparr>)"
proof -
  have "i \<in> fst ` set (ss_awaiting_pubrec s)" using assms(2) hm_get_None_iff by metis
  moreover from this assms(1) have "i \<noteq> 0" unfolding session_inv_sets by metis
  ultimately show ?thesis
    using assms(1) unfolding session_inv_sets by (simp add: stored_ok_remove) blast
qed

lemma session_inv_inbound [simp]:
  "session_inv (s\<lparr>ss_inbound_qos2 := x\<rparr>) = session_inv s"
  "session_inv (s\<lparr>ss_inbound_aliases := y\<rparr>) = session_inv s"
  by (simp_all add: session_inv_def inflight_ids_def)

interpretation puback_h: ack_op "puback_session P now" for P now
proof unfold_locales
  fix ack n s
  show "session_inv s \<Longrightarrow> session_inv (snd (puback_session P now ack s))"
    by (simp add: puback_session_def flush_op.op_inv session_inv_remove_puback)
  show "queue_ok n s \<Longrightarrow> queue_ok n (snd (puback_session P now ack s))"
    unfolding puback_session_def by (rule flush_op.op_queue) (simp add: queue_ok_def)
qed (simp_all add: puback_session_def flush_op.op_id flush_op.op_epoch)

interpretation pubrec_h: ack_op "pubrec_session P" for P
proof unfold_locales
  fix ack n s
  show "session_inv s \<Longrightarrow> session_inv (snd (pubrec_session P ack s))"
    by (simp add: pubrec_session_def Let_def session_inv_remove_pubrec session_inv_pubrec_known)
qed (simp_all add: pubrec_session_def Let_def queue_ok_def)

interpretation pubrel_h: ack_op pubrel_session
  by unfold_locales (simp_all add: pubrel_session_def Let_def queue_ok_def)

interpretation pubcomp_h: ack_op "pubcomp_session P now" for P now
proof unfold_locales
  fix ack n s
  show "session_inv s \<Longrightarrow> session_inv (snd (pubcomp_session P now ack s))"
    by (simp add: pubcomp_session_def flush_op.op_inv session_inv_remove_pubcomp)
  show "queue_ok n s \<Longrightarrow> queue_ok n (snd (pubcomp_session P now ack s))"
    unfolding pubcomp_session_def by (rule flush_op.op_queue) (simp add: queue_ok_def)
qed (simp_all add: pubcomp_session_def flush_op.op_id flush_op.op_epoch)


subsection \<open>PUBLISH meets the handler contract\<close>

text \<open>Changes of the inbound tables are session operations too.\<close>

interpretation alias_op: session_op "\<lambda>s. s\<lparr>ss_inbound_aliases := f s\<rparr>" n for f n
  by unfold_locales (simp_all add: queue_ok_def)

interpretation inbound_op: session_op "\<lambda>s. s\<lparr>ss_inbound_qos2 := f s\<rparr>" n for f n
  by unfold_locales (simp_all add: queue_ok_def)

lemma epoch_update:
  "(\<And>s. ss_epoch (f s) = ss_epoch s) \<Longrightarrow>
   map_option ss_epoch (get_session d (update_session c f b)) = map_option ss_epoch (get_session d b)"
  by (simp add: option.map_comp comp_def)

lemma epoch_send_to: "map_option ss_epoch (get_session d (send_to c i b)) = map_option ss_epoch (get_session d b)"
  unfolding send_to_def by (rule epoch_update) simp

lemma route_publish_inv: "broker_inv b \<Longrightarrow> broker_inv (snd (route_publish P now c p m b))"
  by (auto simp: route_publish_def Let_def case_prod_beta inbound_op.update_ok
      intro!: inv_send_to inv_route split: qos.split option.split)

lemma route_publish_epoch:
  "map_option ss_epoch (get_session d (snd (route_publish P now c p m b))) = map_option ss_epoch (get_session d b)"
  by (auto simp: route_publish_def Let_def case_prod_beta epoch_send_to route_epoch option.map_comp comp_def
      split: qos.split option.split)

lemma route_publish_frame [simp]:
  "b_next_epoch (snd (route_publish P now c p m b)) = b_next_epoch b"
  "b_retained (snd (route_publish P now c p m b)) = b_retained b"
  "b_storage (snd (route_publish P now c p m b)) = b_storage b"
  "b_tasks (snd (route_publish P now c p m b)) = b_tasks b"
  "b_acl (snd (route_publish P now c p m b)) = b_acl b"
  by (auto simp: route_publish_def Let_def case_prod_beta split: qos.split option.split)

lemma accept_publish_inv: "broker_inv b \<Longrightarrow> broker_inv (snd (accept_publish P now c p b))"
  by (simp add: accept_publish_def Let_def route_publish_inv inv_store_retained)

lemma accept_publish_epoch:
  "map_option ss_epoch (get_session d (snd (accept_publish P now c p b))) = map_option ss_epoch (get_session d b)"
  by (simp add: accept_publish_def Let_def route_publish_epoch)

lemma accept_publish_counter: "b_next_epoch (snd (accept_publish P now c p b)) = b_next_epoch b"
  by (simp add: accept_publish_def Let_def)

lemma refuse_publish_frame:
  "b_next_epoch (refuse_publish c p b) = b_next_epoch b" "b_retained (refuse_publish c p b) = b_retained b"
  "b_storage (refuse_publish c p b) = b_storage b" "b_tasks (refuse_publish c p b) = b_tasks b"
  "b_shared_rr (refuse_publish c p b) = b_shared_rr b" "b_metrics (refuse_publish c p b) = b_metrics b"
  "d \<noteq> c \<Longrightarrow> get_session d (refuse_publish c p b) = get_session d b"
  by (simp_all add: refuse_publish_def send_to_def split: qos.split)

lemma authorize_publish_inv: "broker_inv b \<Longrightarrow> broker_inv (snd (authorize_publish P now c p b))"
  by (auto simp: authorize_publish_def Let_def refuse_publish_def accept_publish_inv intro: inv_send_to
      split: qos.split)

lemma authorize_publish_epoch:
  "map_option ss_epoch (get_session d (snd (authorize_publish P now c p b))) = map_option ss_epoch (get_session d b)"
  by (auto simp: authorize_publish_def Let_def refuse_publish_def accept_publish_epoch epoch_send_to
      simp del: option.map_sel split: qos.split)

lemma authorize_publish_counter: "b_next_epoch (snd (authorize_publish P now c p b)) = b_next_epoch b"
  by (auto simp: authorize_publish_def Let_def refuse_publish_frame accept_publish_counter)

lemma resolve_alias_state:
  assumes "resolve_alias c s p b = Inr (p', b')"
  shows "\<exists>f. b' = update_session c (\<lambda>s. s\<lparr>ss_inbound_aliases := f s\<rparr>) b"
proof -
  have "update_session c (\<lambda>s. s\<lparr>ss_inbound_aliases := ss_inbound_aliases s\<rparr>) b = b"
  proof (cases "get_session c b")
    case None
    then show ?thesis by (simp add: update_session_def)
  next
    case (Some s)
    have "hm_get c m = Some s \<Longrightarrow> hm_insert c s m = m" for m :: "(string, session) hashmap"
      by (induction m) (auto simp: hm_get_def hm_insert_def split: if_splits)
    with Some show ?thesis by (simp add: update_session_def)
  qed
  note same = this
  from assms consider "b' = b"
    | k where "b' = update_session c
        (\<lambda>s. s\<lparr>ss_inbound_aliases := hm_insert k (pub_topic p) (ss_inbound_aliases s)\<rparr>) b"
    by (auto simp: resolve_alias_def split: option.splits if_splits)
  then show ?thesis
  proof cases
    case 1
    show ?thesis by (rule exI [of _ ss_inbound_aliases]) (simp only: 1 same)
  next
    case 2
    show ?thesis
      by (rule exI [of _ "\<lambda>s. hm_insert k (pub_topic p) (ss_inbound_aliases s)"]) (simp only: 2)
  qed
qed

lemma handle_publish_stale: "stale c e b \<Longrightarrow> same_but_metrics b (snd (handle_publish P now c e p b))"
  by (auto simp: handle_publish_def Let_def stale_def split: option.split)

lemma handle_publish_inv: "broker_inv b \<Longrightarrow> broker_inv (snd (handle_publish P now c e p b))"
  by (auto simp: handle_publish_def Let_def intro!: authorize_publish_inv alias_op.update_ok
      dest!: resolve_alias_state split: option.split sum.split)

lemma handle_publish_epoch:
  "map_option ss_epoch (get_session d (snd (handle_publish P now c e p b))) = map_option ss_epoch (get_session d b)"
  by (auto simp: handle_publish_def Let_def authorize_publish_epoch option.map_comp comp_def
      dest!: resolve_alias_state split: option.split sum.split)

lemma handle_publish_counter: "b_next_epoch (snd (handle_publish P now c e p b)) = b_next_epoch b"
  by (auto simp: handle_publish_def Let_def authorize_publish_counter
      dest!: resolve_alias_state split: option.split sum.split)

interpretation publish_h: packet_handler "handle_publish P now" for P now
  by unfold_locales
    (rule handle_publish_stale handle_publish_inv handle_publish_epoch handle_publish_counter; assumption?)+


subsection \<open>What a PUBLISH may change\<close>

lemma accept_publish_retained:
  "hm_get t (b_retained (snd (accept_publish P now c p b))) =
     (if pub_retain p \<and> t = pub_topic p
      then (if pub_payload p = [] then None else Some (from_publish now p))
      else hm_get t (b_retained b))"
  by (simp add: accept_publish_def Let_def get_store_retained)

lemma authorize_publish_retained:
  "hm_get t (b_retained (snd (authorize_publish P now c p b))) \<noteq> hm_get t (b_retained b) \<Longrightarrow>
   pub_retain p \<and> t = pub_topic p \<and> valid_topic_name P t \<and> \<not> starts_with t SYS_PREFIX
   \<and> can_publish P (b_acl b) (who_of (Option.bind (get_session c b) ss_identity)) t"
  by (auto simp: authorize_publish_def Let_def refuse_publish_frame accept_publish_retained can_publish_def
      split: if_splits)

lemma resolve_alias_topic:
  assumes "resolve_alias c s p b = Inr (p', b')"
  shows "pub_retain p' = pub_retain p" "pub_qos p' = pub_qos p" "pub_packet_id p' = pub_packet_id p"
    "pub_payload p' = pub_payload p" "pub_properties p' = pub_properties p"
  using assms by (auto simp: resolve_alias_def split: option.splits if_splits)

lemma update_aliases_frame [simp]:
  "Option.bind (get_session c (update_session c (\<lambda>s. s\<lparr>ss_inbound_aliases := f s\<rparr>) b)) ss_identity
     = Option.bind (get_session c b) ss_identity"
  by (cases "get_session c b") simp_all

text \<open>A retained message changes only by an authorized, valid, non-\<^verbatim>\<open>$SYS\<close> retained PUBLISH of the
  session's own connection.\<close>

lemma handle_publish_retained:
  assumes "hm_get t (b_retained (snd (handle_publish P now c e p b))) \<noteq> hm_get t (b_retained b)"
  shows "pub_retain p \<and> cfg_retain_available (b_config b) \<and> valid_topic_name P t \<and> \<not> starts_with t SYS_PREFIX
    \<and> (\<exists>s. get_session c b = Some s \<and> ss_epoch s = e \<and> can_publish P (b_acl b) (who_of (ss_identity s)) t)"
proof -
  let ?b = "b\<lparr>b_metrics := (b_metrics b)\<lparr>mx_publish_received := mx_publish_received (b_metrics b) + 1\<rparr>\<rparr>"
  from assms obtain s p' b' where s: "get_session c b = Some s" "ss_epoch s = e"
    and ra: "resolve_alias c s p ?b = Inr (p', b')" and re: "\<not> (pub_retain p \<and> \<not> cfg_retain_available (b_config b))"
    and ch: "hm_get t (b_retained (snd (authorize_publish P now c p' b'))) \<noteq> hm_get t (b_retained b)"
    by (auto simp: handle_publish_def Let_def split: if_splits option.splits sum.splits)
  from resolve_alias_state [OF ra] obtain f where b': "b' = update_session c (\<lambda>s. s\<lparr>ss_inbound_aliases := f s\<rparr>) ?b"
    by blast
  then have "b_retained b' = b_retained b" "b_acl b' = b_acl b" by simp_all
  moreover have "Option.bind (get_session c b') ss_identity = ss_identity s" using s by (simp add: b')
  ultimately show ?thesis
    using authorize_publish_retained [of t P now c p' b'] ch s re resolve_alias_topic(1) [OF ra] by auto
qed

text \<open>A QoS 2 PUBLISH whose identifier is already in the inbound set reaches no other session.\<close>

lemma accept_publish_duplicate:
  assumes "pub_qos p = ExactlyOnce" and "get_session c b = Some s"
    and "packet_id_or_0 p \<in> set (ss_inbound_qos2 s)"
  shows "accept_publish P now c p b =
     (Continue, send_to c (Control (Pubrec (puback_new (packet_id_or_0 p) Success)))
                  (if pub_retain p then store_retained (pub_topic p) (from_publish now p) b else b))"
  using assms by (simp add: accept_publish_def route_publish_def Let_def)

lemma accept_publish_inbound:
  assumes "pub_qos p = ExactlyOnce" and "get_session c b = Some s"
  shows "\<exists>s'. get_session c (snd (accept_publish P now c p b)) = Some s'
    \<and> set (ss_inbound_qos2 s') = insert (packet_id_or_0 p) (set (ss_inbound_qos2 s))"
proof (cases "packet_id_or_0 p \<in> set (ss_inbound_qos2 s)")
  case True
  with assms show ?thesis
    by (auto simp: accept_publish_duplicate send_to_def)
next
  case False
  let ?m = "from_publish now p" and ?i = "packet_id_or_0 p"
  let ?b1 = "if pub_retain p then store_retained (pub_topic p) ?m b else b"
  let ?b2 = "update_session c (\<lambda>s. s\<lparr>ss_inbound_qos2 := ?i # ss_inbound_qos2 s\<rparr>) ?b1"
  have b2: "get_session c ?b2 = Some (s\<lparr>ss_inbound_qos2 := ?i # ss_inbound_qos2 s\<rparr>)" using assms(2) by simp
  from route_same_conn [OF b2, of P now "Some c" ?m] obtain s' where
    "get_session c (snd (route P now (Some c) ?m ?b2)) = Some s'"
    and sc: "same_conn (s\<lparr>ss_inbound_qos2 := ?i # ss_inbound_qos2 s\<rparr>) s'" by blast
  moreover from same_conn_fields(10) [OF sc] have "ss_inbound_qos2 s' = ?i # ss_inbound_qos2 s" by simp
  ultimately show ?thesis using assms False
    by (auto simp: accept_publish_def route_publish_def Let_def case_prod_beta send_to_def)
qed


subsection \<open>The reach of a PUBLISH\<close>

definition others_same :: "string \<Rightarrow> broker \<Rightarrow> broker \<Rightarrow> bool" where
  "others_same c b b' \<longleftrightarrow> (\<forall>d. d \<noteq> c \<longrightarrow> get_session d b' = get_session d b)"

definition retained_same_but :: "string \<Rightarrow> broker \<Rightarrow> broker \<Rightarrow> bool" where
  "retained_same_but topic b b' \<longleftrightarrow> (\<forall>t. t \<noteq> topic \<longrightarrow> hm_get t (b_retained b') = hm_get t (b_retained b))"

text \<open>Nothing but the sender's own session, and counters, differs.\<close>

definition contained :: "string \<Rightarrow> broker \<Rightarrow> broker \<Rightarrow> bool" where
  "contained c b b' \<longleftrightarrow> others_same c b b' \<and> b_retained b' = b_retained b \<and> b_storage b' = b_storage b
     \<and> b_shared_rr b' = b_shared_rr b \<and> b_tasks b' = b_tasks b"

lemma contained_metrics [simp]: "contained c b (b\<lparr>b_metrics := mx\<rparr>)"
  by (simp add: contained_def others_same_def)

lemma contained_trans: "contained c a b \<Longrightarrow> contained c b d \<Longrightarrow> contained c a d"
  by (simp add: contained_def others_same_def)

lemma contained_update [simp]: "contained c b (update_session c f b)"
  by (simp add: contained_def others_same_def)

lemma contained_send_to [simp]: "contained c b (send_to c i b)"
  by (simp add: send_to_def)

lemma contained_refuse: "contained c b (refuse_publish c p b)"
  by (simp add: contained_def others_same_def refuse_publish_frame)

lemma authorize_publish_reach:
  "contained c b (snd (authorize_publish P now c p b))
   \<or> valid_topic_name P (pub_topic p) \<and> \<not> starts_with (pub_topic p) SYS_PREFIX
     \<and> can_publish P (b_acl b) (who_of (Option.bind (get_session c b) ss_identity)) (pub_topic p)
     \<and> retained_same_but (pub_topic p) b (snd (authorize_publish P now c p b))"
proof -
  have "contained c b b" by (simp add: contained_def others_same_def)
  moreover have "retained_same_but (pub_topic p) b (snd (accept_publish P now c p b))"
    by (simp add: retained_same_but_def accept_publish_retained)
  ultimately show ?thesis
    by (auto simp: authorize_publish_def Let_def contained_refuse can_publish_def)
qed

lemma handle_publish_reach:
  "contained c b (snd (handle_publish P now c e p b))
   \<or> (\<exists>s topic. get_session c b = Some s \<and> ss_epoch s = e \<and> valid_topic_name P topic
        \<and> \<not> starts_with topic SYS_PREFIX \<and> can_publish P (b_acl b) (who_of (ss_identity s)) topic
        \<and> retained_same_but topic b (snd (handle_publish P now c e p b)))"
proof -
  let ?b = "b\<lparr>b_metrics := (b_metrics b)\<lparr>mx_publish_received := mx_publish_received (b_metrics b) + 1\<rparr>\<rparr>"
  have m: "contained c b ?b" by simp
  show ?thesis
  proof (cases "\<exists>s p' b'. get_session c b = Some s \<and> ss_epoch s = e \<and> resolve_alias c s p ?b = Inr (p', b')
      \<and> handle_publish P now c e p b = authorize_publish P now c p' b'")
    case False
    then have "snd (handle_publish P now c e p b) = ?b"
      by (auto simp: handle_publish_def Let_def split: if_splits option.splits sum.splits)
    with m show ?thesis by simp
  next
    case True
    then obtain s p' b' where s: "get_session c b = Some s" "ss_epoch s = e"
      and ra: "resolve_alias c s p ?b = Inr (p', b')"
      and eq: "handle_publish P now c e p b = authorize_publish P now c p' b'" by blast
    from resolve_alias_state [OF ra] obtain f where b': "b' = update_session c (\<lambda>s. s\<lparr>ss_inbound_aliases := f s\<rparr>) ?b"
      by blast
    have con: "contained c b b'" unfolding b' by (rule contained_trans [OF m contained_update])
    have id: "Option.bind (get_session c b') ss_identity = ss_identity s" "b_acl b' = b_acl b"
      "b_retained b' = b_retained b" using s by (simp_all add: b')
    from authorize_publish_reach [of c b' P now p'] show ?thesis
    proof
      assume "contained c b' (snd (authorize_publish P now c p' b'))"
      from contained_trans [OF con this] show ?thesis by (simp add: eq)
    next
      assume "valid_topic_name P (pub_topic p') \<and> \<not> starts_with (pub_topic p') SYS_PREFIX
        \<and> can_publish P (b_acl b') (who_of (Option.bind (get_session c b') ss_identity)) (pub_topic p')
        \<and> retained_same_but (pub_topic p') b' (snd (authorize_publish P now c p' b'))"
      with s id have "get_session c b = Some s \<and> ss_epoch s = e \<and> valid_topic_name P (pub_topic p')
        \<and> \<not> starts_with (pub_topic p') SYS_PREFIX \<and> can_publish P (b_acl b) (who_of (ss_identity s)) (pub_topic p')
        \<and> retained_same_but (pub_topic p') b (snd (handle_publish P now c e p b))"
        by (simp add: eq retained_same_but_def)
      then show ?thesis by blast
    qed
  qed
qed

lemma handle_publish_duplicate:
  assumes "pub_qos p = ExactlyOnce" and "get_session c b = Some s" and "packet_id_or_0 p \<in> set (ss_inbound_qos2 s)"
  shows "others_same c b (snd (handle_publish P now c e p b))"
proof -
  let ?b = "b\<lparr>b_metrics := (b_metrics b)\<lparr>mx_publish_received := mx_publish_received (b_metrics b) + 1\<rparr>\<rparr>"
  have "others_same c b (snd (authorize_publish P now c p' b'))" if ra: "resolve_alias c s p ?b = Inr (p', b')" for p' b'
  proof -
    from resolve_alias_state [OF ra] obtain f where b': "b' = update_session c (\<lambda>s. s\<lparr>ss_inbound_aliases := f s\<rparr>) ?b"
      by blast
    have s': "get_session c b' = Some (s\<lparr>ss_inbound_aliases := f s\<rparr>)" using assms(2) by (simp add: b')
    have p': "pub_qos p' = ExactlyOnce" "packet_id_or_0 p' \<in> set (ss_inbound_qos2 (s\<lparr>ss_inbound_aliases := f s\<rparr>))"
      using resolve_alias_topic [OF ra] assms by (simp_all add: packet_id_or_0_def)
    have "others_same c b' (snd (authorize_publish P now c p' b'))"
      by (simp add: authorize_publish_def Let_def accept_publish_duplicate [OF p'(1) s' p'(2)] refuse_publish_def
          others_same_def send_to_def split: qos.split)
    moreover have "others_same c b b'" by (simp add: others_same_def b')
    ultimately show ?thesis by (simp add: others_same_def)
  qed
  then show ?thesis
    using assms(2) by (auto simp: handle_publish_def Let_def others_same_def split: sum.split)
qed

subsection \<open>Properties\<close>


text \<open>A QoS 2 PUBLISH is routed once. When its identifier awaits the PUBREL already, the packet
  reaches no other session; and an accepted QoS 2 PUBLISH puts its identifier into that set, on every
  path.\<close>

lemma qos2_routed_once:
  assumes "pub_qos p = ExactlyOnce" and "get_session c b = Some s"
  shows "(packet_id_or_0 p \<in> set (ss_inbound_qos2 s) \<longrightarrow> others_same c b (snd (handle_publish P now c e p b)))
     \<and> (\<exists>s'. get_session c (snd (accept_publish P now c p b)) = Some s'
          \<and> set (ss_inbound_qos2 s') = insert (packet_id_or_0 p) (set (ss_inbound_qos2 s)))"
  using handle_publish_duplicate [OF assms] accept_publish_inbound [OF assms] by blast

definition demo_publish :: publish where
  "demo_publish = \<lparr>pub_dup = False, pub_qos = ExactlyOnce, pub_retain = False, pub_topic = ''t'',
     pub_packet_id = Some 5, pub_properties = no_properties, pub_payload = [1]\<rparr>"

lemma flush_step_pubcomp:
  "flush_step P now s = Next d s' \<Longrightarrow> ss_awaiting_pubcomp s' = ss_awaiting_pubcomp s"
  "flush_step P now s = Stop s' \<Longrightarrow> ss_awaiting_pubcomp s' = ss_awaiting_pubcomp s"
proof -
  have n: "next_id t = (r, t') \<Longrightarrow> ss_awaiting_pubcomp t' = ss_awaiting_pubcomp t" for t r t'
    using next_id_fields(13) [of t] by simp
  have rec: "ss_awaiting_pubcomp (record_inflight q i p t) = ss_awaiting_pubcomp t" for q i p t
    by (simp add: record_inflight_def split: qos.split)
  show "flush_step P now s = Next d s' \<Longrightarrow> ss_awaiting_pubcomp s' = ss_awaiting_pubcomp s"
    by (auto simp: flush_step_def Let_def rec dest!: n
        split: if_splits list.splits option.splits prod.splits bool.splits)
  show "flush_step P now s = Stop s' \<Longrightarrow> ss_awaiting_pubcomp s' = ss_awaiting_pubcomp s"
    by (auto dest!: flush_step_Stop)
qed

lemma flush_pubcomp: "ss_awaiting_pubcomp (snd (flush_queue P now s)) = ss_awaiting_pubcomp s"
  unfolding flush_queue_def
  by (rule flush_loop_invariant [where I = "\<lambda>t. ss_awaiting_pubcomp t = ss_awaiting_pubcomp s"])
    (auto dest: flush_step_pubcomp)

text \<open>The sender's half of the QoS 2 handshake. A PUBREC without error for a known identifier moves
  the identifier from the PUBREC table to the PUBCOMP set and leaves every other identifier in flight;
  the PUBCOMP then takes it out of that set; neither sends the message again.\<close>

lemma qos2_sender_handshake:
  assumes "session_inv s" and "hm_get (ack_packet_id ack) (ss_awaiting_pubrec s) = Some p"
    and "\<not> rc_is_error P (ack_reason_code ack)"
  shows "let s1 = snd (pubrec_session P ack s); s2 = snd (pubcomp_session P now ack s1)
     in hm_get (ack_packet_id ack) (ss_awaiting_pubrec s1) = None
        \<and> ack_packet_id ack \<in> set (ss_awaiting_pubcomp s1)
        \<and> set (inflight_ids s1) = set (inflight_ids s)
        \<and> ss_queue s1 = ss_queue s
        \<and> set (ss_awaiting_pubcomp s2) = set (ss_awaiting_pubcomp s)"
proof -
  let ?i = "ack_packet_id ack"
  let ?s1 = "session_send (s\<lparr>ss_awaiting_pubrec := hm_remove ?i (ss_awaiting_pubrec s),
      ss_awaiting_pubcomp := List.insert ?i (ss_awaiting_pubcomp s)\<rparr>) (Control (Pubrel (puback_new ?i Success)))"
  have s1: "snd (pubrec_session P ack s) = ?s1" using assms(2,3) by (simp add: pubrec_session_def Let_def)
  have i: "?i \<in> fst ` set (ss_awaiting_pubrec s)" using assms(2) hm_get_None_iff [of ?i "ss_awaiting_pubrec s"] by auto
  then have fresh: "?i \<notin> set (ss_awaiting_pubcomp s)" using assms(1) unfolding session_inv_sets by blast
  have "set (inflight_ids ?s1) = set (inflight_ids s)"
    unfolding inflight_ids_def set_append set_map using i by auto
  moreover have "set (ss_awaiting_pubcomp (snd (pubcomp_session P now ack ?s1))) = set (ss_awaiting_pubcomp s)"
    using fresh by (auto simp: pubcomp_session_def flush_pubcomp)
  ultimately show ?thesis by (simp add: s1 Let_def)
qed

definition demo_inflight :: session where
  "demo_inflight = demo_session\<lparr>ss_awaiting_pubrec := [(5, demo_publish)], ss_next_packet_id := 6\<rparr>"

definition demo_stalled :: session where
  "demo_stalled = demo_inflight\<lparr>ss_client_receive_maximum := 1,
     ss_queue := [\<lparr>pd_message = demo_message, pd_qos = AtLeastOnce, pd_retain = False, pd_subscription_ids = []\<rparr>]\<rparr>"

text \<open>A PUBREC that carries an error frees the slot of its message but does not flush the queue.
  Here is a session with one message in flight, one in the queue and room for one more after the
  rejection, in which the queued message stays where it is: the session is not flushed.\<close>

lemma pubrec_error_stalls_queue:
  "\<exists>s ack. flushed s \<and> hm_get (ack_packet_id ack) (ss_awaiting_pubrec s) \<noteq> None
     \<and> \<not> flushed (snd (pubrec_session plain_protocol ack s))"
proof (intro exI conjI)
  let ?ack = "puback_new 5 NotAuthorized"
  show "flushed demo_stalled"
    by (simp add: flushed_def demo_stalled_def demo_inflight_def demo_session_def session_new_def window_open_def
        inflight_count_def)
  show "hm_get (ack_packet_id ?ack) (ss_awaiting_pubrec demo_stalled) \<noteq> None"
    by (simp add: demo_stalled_def demo_inflight_def puback_new_def hm_get_Cons)
  show "\<not> flushed (snd (pubrec_session plain_protocol ?ack demo_stalled))"
    by (simp add: pubrec_session_def Let_def puback_new_def plain_protocol_def demo_stalled_def demo_inflight_def
        hm_get_Cons hm_remove_def flushed_def demo_session_def session_new_def window_open_def inflight_count_def
        refuses_def channel_new_def OUTBOUND_CHANNEL_CAPACITY_def)
qed

end
