(* ===== verification/Subscribing.thy ===== *)
theory Subscribing
  imports Publishing
begin

section \<open>SUBSCRIBE and UNSUBSCRIBE\<close>

text \<open>
  \<^verbatim>\<open>src/src/broker/subscribe.rs\<close>. The loop over the filters of a SUBSCRIBE is \<open>subscribe_loop\<close>; it
  collects one reason code per filter and the retained messages to send after the SUBACK. Its option
  result is \<open>None\<close> where the source returns early because the session is gone, which the theorems show
  not to happen.
\<close>

definition strip_share_for_validation :: "string \<Rightarrow> string" where
  "strip_share_for_validation flt =
     (if starts_with flt ''$share/'' then
        (case split_once (CHR ''/'') (drop 7 flt) of Some (_, tail) \<Rightarrow> tail | None \<Rightarrow> flt)
      else flt)"

definition granted_code :: "qos \<Rightarrow> reason_code" where
  "granted_code q =
     (case q of AtMostOnce \<Rightarrow> Success | AtLeastOnce \<Rightarrow> GrantedQoS1 | ExactlyOnce \<Rightarrow> GrantedQoS2)"

definition new_subscription ::
    "qos \<Rightarrow> u32 option \<Rightarrow> topic_filter \<Rightarrow> string option \<times> string \<Rightarrow> subscription" where
  "new_subscription granted sub_id f parsed =
     \<lparr>sub_filter = snd parsed, sub_share_name = fst parsed, sub_qos = granted,
      sub_no_local = tf_no_local f, sub_retain_as_published = tf_retain_as_published f,
      sub_subscription_identifier = sub_id\<rparr>"

definition sub_record_of :: "qos \<Rightarrow> u32 option \<Rightarrow> topic_filter \<Rightarrow> sub_record" where
  "sub_record_of granted sub_id f =
     \<lparr>sr_filter = tf_filter f, sr_qos = granted, sr_no_local = tf_no_local f,
      sr_retain_as_published = tf_retain_as_published f, sr_retain_handling = tf_retain_handling f,
      sr_subscription_identifier = sub_id\<rparr>"

definition send_retained :: "string option \<Rightarrow> retain_handling \<Rightarrow> bool \<Rightarrow> bool" where
  "send_retained share rh existed =
     (share = None \<and> (case rh of SendAtSubscribe \<Rightarrow> True | SendIfNewSubscription \<Rightarrow> \<not> existed
                                | DoNotSend \<Rightarrow> False))"

type_synonym retained_send = "message \<times> qos \<times> u32 list"

definition matching_retained ::
    "protocol \<Rightarrow> u64 \<Rightarrow> string \<Rightarrow> qos \<Rightarrow> u32 option \<Rightarrow> (string, message) hashmap \<Rightarrow> retained_send list" where
  "matching_retained P now flt granted sub_id retained =
     map (\<lambda>(_, msg). (msg, min (m_qos msg) granted, opt_list sub_id))
       (filter (\<lambda>(t, msg). \<not> is_expired now msg \<and> topic_matches P flt t) retained)"

text \<open>The authorization of one filter: an error code, or the parsed filter.\<close>

definition check_filter :: "protocol \<Rightarrow> acl \<Rightarrow> string \<Rightarrow> topic_filter \<Rightarrow> reason_code + string option \<times> string" where
  "check_filter P a who f =
     (if \<not> valid_topic_filter P (strip_share_for_validation (tf_filter f)) then Inl TopicFilterInvalid
      else (case parse_filter P (tf_filter f) of
              None \<Rightarrow> Inl TopicFilterInvalid
            | Some parsed \<Rightarrow>
                if acl_enforced a \<and> \<not> can_subscribe P a who (snd parsed) then Inl NotAuthorized
                else Inr parsed))"

text \<open>One accepted filter: the session's list, and storage for a durable session; the flag tells whether
  the subscription existed.\<close>

definition granted_qos :: "broker \<Rightarrow> topic_filter \<Rightarrow> qos" where
  "granted_qos b f = min (tf_qos f) (cfg_maximum_qos (b_config b))"

definition add_filter ::
    "string \<Rightarrow> u32 option \<Rightarrow> topic_filter \<Rightarrow> string option \<times> string \<Rightarrow> session \<Rightarrow> broker \<Rightarrow> bool \<times> broker" where
  "add_filter c sub_id f parsed s b =
     (let granted = granted_qos b f;
          (existed, s') = upsert_subscription s (new_subscription granted sub_id f parsed);
          b1 = b\<lparr>b_sessions := hm_insert c s' (b_sessions b)\<rparr>
      in (existed, if ss_persistent s'
                   then store (UpsertSubscription c (sub_record_of granted sub_id f)) b1 else b1))"

fun subscribe_loop ::
    "protocol \<Rightarrow> u64 \<Rightarrow> string \<Rightarrow> string \<Rightarrow> u32 option \<Rightarrow> topic_filter list \<Rightarrow> broker \<Rightarrow>
     (reason_code list \<times> retained_send list) option \<times> broker" where
  "subscribe_loop P now c who sub_id [] b = (Some ([], []), b)"
| "subscribe_loop P now c who sub_id (f # fs) b =
     (case check_filter P (b_acl b) who f of
        Inl rc \<Rightarrow>
          (case subscribe_loop P now c who sub_id fs b of
             (None, b') \<Rightarrow> (None, b')
           | (Some (rcs, send), b') \<Rightarrow> (Some (rc # rcs, send), b'))
      | Inr parsed \<Rightarrow>
          (case get_session c b of
             None \<Rightarrow> (None, b)
           | Some s \<Rightarrow>
               let granted = granted_qos b f;
                   (existed, b2) = add_filter c sub_id f parsed s b;
                   now_send = (if send_retained (fst parsed) (tf_retain_handling f) existed
                               then matching_retained P now (snd parsed) granted sub_id (b_retained b2)
                               else [])
               in case subscribe_loop P now c who sub_id fs b2 of
                    (None, b') \<Rightarrow> (None, b')
                  | (Some (rcs, send), b') \<Rightarrow> (Some (granted_code granted # rcs, now_send @ send), b')))"

fun deliver_retained ::
    "protocol \<Rightarrow> u64 \<Rightarrow> string \<Rightarrow> retained_send list \<Rightarrow> broker \<Rightarrow> nat \<Rightarrow> broker \<times> nat" where
  "deliver_retained P now c [] b dropped = (b, dropped)"
| "deliver_retained P now c ((m, q, ids) # rest) b dropped =
     (case get_session c b of
        None \<Rightarrow> deliver_retained P now c rest b dropped
      | Some s \<Rightarrow>
          let (d, s') = deliver_to_session P now s m q True ids (max_queued b)
          in deliver_retained P now c rest (b\<lparr>b_sessions := hm_insert c s' (b_sessions b)\<rparr>)
               (if d then dropped + 1 else dropped))"

definition handle_subscribe ::
    "protocol \<Rightarrow> u64 \<Rightarrow> string \<Rightarrow> u64 \<Rightarrow> subscribe \<Rightarrow> broker \<Rightarrow> action \<times> broker" where
  "handle_subscribe P now c epoch sub b =
     (let sub_id = (case pr_subscription_identifiers (sb_properties sub) of [] \<Rightarrow> None | i # _ \<Rightarrow> Some i)
      in case get_session c b of
           None \<Rightarrow> (ServerDisconnect UnspecifiedError, b)
         | Some s \<Rightarrow>
             if ss_epoch s \<noteq> epoch then (ServerDisconnect UnspecifiedError, b)
             else
               (case subscribe_loop P now c (who_of (ss_identity s)) sub_id (sb_filters sub) b of
                  (None, b1) \<Rightarrow> (ServerDisconnect UnspecifiedError, b1)
                | (Some (rcs, send), b1) \<Rightarrow>
                    let b2 = send_to c (Control (Suback (suback_new (sb_packet_id sub) rcs))) b1;
                        (b3, dropped) = deliver_retained P now c send b2 0
                    in (Continue, count_dropped (of_nat dropped) b3)))"

fun unsubscribe_loop :: "protocol \<Rightarrow> string \<Rightarrow> string list \<Rightarrow> broker \<Rightarrow> reason_code list \<times> broker" where
  "unsubscribe_loop P c [] b = ([], b)"
| "unsubscribe_loop P c (flt # fs) b =
     (let (share_name, match_filter) = (case parse_filter P flt of Some p \<Rightarrow> p | None \<Rightarrow> (None, flt));
          (removed, persistent, b1) =
            (case get_session c b of
               None \<Rightarrow> (False, False, b)
             | Some s \<Rightarrow>
                 let (removed, s') = remove_subscription s match_filter share_name
                 in (removed, ss_persistent s', b\<lparr>b_sessions := hm_insert c s' (b_sessions b)\<rparr>));
          b2 = (if removed \<and> persistent then store (DeleteSubscription c flt) b1 else b1);
          (rcs, b') = unsubscribe_loop P c fs b2
      in ((if removed then Success else NoSubscriptionExisted) # rcs, b'))"

definition handle_unsubscribe ::
    "protocol \<Rightarrow> string \<Rightarrow> u64 \<Rightarrow> unsubscribe \<Rightarrow> broker \<Rightarrow> action \<times> broker" where
  "handle_unsubscribe P c epoch unsub b =
     (case get_session c b of
        None \<Rightarrow> (ServerDisconnect UnspecifiedError, b)
      | Some s \<Rightarrow>
          if ss_epoch s \<noteq> epoch then (ServerDisconnect UnspecifiedError, b)
          else
            let (rcs, b1) = unsubscribe_loop P c (us_filters unsub) b
            in (Continue, send_to c (Control (Unsuback (suback_new (us_packet_id unsub) rcs))) b1))"

subsection \<open>The handler contract\<close>

interpretation upsert_op: session_op "\<lambda>s. snd (upsert_subscription s new)" n for new n
  by unfold_locales (simp_all add: upsert_subscription_def case_prod_beta queue_ok_def)

interpretation remove_op: session_op "\<lambda>s. snd (remove_subscription s flt share)" n for flt share n
  by unfold_locales (simp_all add: remove_subscription_def Let_def queue_ok_def)

text \<open>A step relation on brokers for handlers that only work on session \<open>c\<close>: the session is replaced by
  the result of a session operation; storage and counters may change, nothing else does.\<close>

definition own_step :: "string \<Rightarrow> broker \<Rightarrow> broker \<Rightarrow> bool" where
  "own_step c b b' \<longleftrightarrow>
     (broker_inv b \<longrightarrow> broker_inv b') \<and> (\<forall>d. d \<noteq> c \<longrightarrow> get_session d b' = get_session d b)
     \<and> map_option ss_epoch (get_session c b') = map_option ss_epoch (get_session c b)
     \<and> map_option ss_identity (get_session c b') = map_option ss_identity (get_session c b)
     \<and> (map_option is_online (get_session c b') = Some True \<longrightarrow> map_option is_online (get_session c b) = Some True)
     \<and> b_config b' = b_config b \<and> b_acl b' = b_acl b \<and> b_retained b' = b_retained b
     \<and> b_next_epoch b' = b_next_epoch b \<and> b_tasks b' = b_tasks b \<and> b_shared_rr b' = b_shared_rr b"

lemma own_step_refl [simp]: "own_step c b b"
  by (simp add: own_step_def)

lemma own_step_trans [trans]: "own_step c a b \<Longrightarrow> own_step c b d \<Longrightarrow> own_step c a d"
  by (auto simp: own_step_def)

lemma own_step_store [simp]: "own_step c b (store k b)"
  by (simp add: own_step_def)

lemma own_step_dropped [simp]: "own_step c b (count_dropped k b)"
  by (simp add: own_step_def)

lemma own_step_insert:
  assumes "session_op f (max_queued b)" and "get_session c b = Some s" and "ss_identity (f s) = ss_identity s"
    and "is_online (f s) \<Longrightarrow> is_online s"
  shows "own_step c b (b\<lparr>b_sessions := hm_insert c (f s) (b_sessions b)\<rparr>)"
  using assms session_op.op_ok [OF assms(1)] session_op.op_epoch [OF assms(1)]
  by (auto simp: own_step_def intro!: inv_insert dest: inv_session_ok)

lemma own_step_send_to [simp]: "own_step c b (send_to c i b)"
proof (cases "get_session c b")
  case None
  then show ?thesis by (simp add: send_to_def update_session_def)
next
  case (Some s)
  with own_step_insert [OF send_op.session_op_axioms Some, of i] show ?thesis
    by (simp add: send_to_def update_session_def)
qed

lemma own_step_upsert:
  assumes "get_session c b = Some s"
  shows "own_step c b (b\<lparr>b_sessions := hm_insert c (snd (upsert_subscription s new)) (b_sessions b)\<rparr>)"
  using own_step_insert [OF upsert_op.session_op_axioms assms]
  by (simp add: upsert_subscription_def case_prod_beta is_online_def)

lemma own_step_remove:
  assumes "get_session c b = Some s"
  shows "own_step c b (b\<lparr>b_sessions := hm_insert c (snd (remove_subscription s flt share)) (b_sessions b)\<rparr>)"
  using own_step_insert [OF remove_op.session_op_axioms assms]
  by (simp add: remove_subscription_def Let_def is_online_def)


lemma add_filter_step:
  assumes "get_session c b = Some s"
  shows "own_step c b (snd (add_filter c sub_id f parsed s b))"
  using own_step_upsert [OF assms] own_step_trans [OF own_step_upsert [OF assms] own_step_store]
  by (simp add: add_filter_def Let_def case_prod_beta)

lemma add_filter_session:
  "get_session c (snd (add_filter c sub_id f parsed s b)) =
     Some (snd (upsert_subscription s (new_subscription (granted_qos b f) sub_id f parsed)))"
  by (simp add: add_filter_def Let_def case_prod_beta)

text \<open>The loop one filter at a time.\<close>

lemma subscribe_loop_Inl:
  assumes "check_filter P (b_acl b) who f = Inl rc"
  shows "subscribe_loop P now c who sub_id (f # fs) b =
    (map_option (\<lambda>(rcs, send). (rc # rcs, send)) (fst (subscribe_loop P now c who sub_id fs b)),
     snd (subscribe_loop P now c who sub_id fs b))"
  using assms by (auto simp: case_prod_beta split: option.split)

lemma subscribe_loop_Inr:
  assumes "check_filter P (b_acl b) who f = Inr parsed" and "get_session c b = Some s"
  shows "subscribe_loop P now c who sub_id (f # fs) b =
    (let r = add_filter c sub_id f parsed s b;
         now_send = (if send_retained (fst parsed) (tf_retain_handling f) (fst r)
                     then matching_retained P now (snd parsed) (granted_qos b f) sub_id (b_retained (snd r)) else [])
     in (map_option (\<lambda>(rcs, send). (granted_code (granted_qos b f) # rcs, now_send @ send))
           (fst (subscribe_loop P now c who sub_id fs (snd r))),
         snd (subscribe_loop P now c who sub_id fs (snd r))))"
  using assms by (auto simp: case_prod_beta Let_def split: option.split)

lemmas subscribe_loop_Cons = subscribe_loop_Inl subscribe_loop_Inr

lemma subscribe_loop_gone:
  "check_filter P (b_acl b) who f = Inr parsed \<Longrightarrow> get_session c b = None \<Longrightarrow>
   subscribe_loop P now c who sub_id (f # fs) b = (None, b)"
  by simp

lemma subscribe_loop_step: "own_step c b (snd (subscribe_loop P now c who sub_id fs b))"
proof (induction fs arbitrary: b)
  case Nil
  then show ?case by simp
next
  case (Cons f fs)
  show ?case
  proof (cases "check_filter P (b_acl b) who f")
    case (Inl rc)
    with Cons show ?thesis by (simp add: subscribe_loop_Inl del: subscribe_loop.simps)
  next
    case (Inr parsed)
    show ?thesis
    proof (cases "get_session c b")
      case None
      with Inr show ?thesis by simp
    next
      case (Some s)
      from own_step_trans [OF add_filter_step [OF Some] Cons] Inr Some show ?thesis
        by (simp add: subscribe_loop_Inr Let_def del: subscribe_loop.simps)
    qed
  qed
qed

lemma subscribe_loop_Some:
  "get_session c b \<noteq> None \<Longrightarrow> fst (subscribe_loop P now c who sub_id fs b) \<noteq> None"
proof (induction fs arbitrary: b)
  case Nil
  then show ?case by simp
next
  case (Cons f fs)
  from Cons.prems obtain s where s: "get_session c b = Some s" by blast
  show ?case
  proof (cases "check_filter P (b_acl b) who f")
    case (Inl rc)
    with Cons.IH [OF Cons.prems] show ?thesis by (simp add: subscribe_loop_Inl del: subscribe_loop.simps)
  next
    case (Inr parsed)
    have "get_session c (snd (add_filter c sub_id f parsed s b)) \<noteq> None" by (simp add: add_filter_session)
    from Cons.IH [OF this] Inr s show ?thesis
      by (simp add: subscribe_loop_Inr Let_def del: subscribe_loop.simps)
  qed
qed

lemma deliver_retained_step: "own_step c b (fst (deliver_retained P now c send b d))"
proof (induction send arbitrary: b d)
  case Nil
  then show ?case by simp
next
  case (Cons x rest)
  obtain m q ids where x: "x = (m, q, ids)" by (cases x)
  show ?case
  proof (cases "get_session c b")
    case None
    with Cons x show ?thesis by simp
  next
    case (Some s)
    let ?r = "deliver_to_session P now s m q True ids (max_queued b)"
    let ?b = "b\<lparr>b_sessions := hm_insert c (snd ?r) (b_sessions b)\<rparr>"
    have "own_step c b ?b"
      by (rule own_step_insert [OF deliver_op.session_op_axioms Some])
        (simp_all add: same_conn_fields [OF same_conn_deliver])
    from own_step_trans [OF this Cons, of "if fst ?r then d + 1 else d"] Some x show ?thesis
      by (simp add: case_prod_beta)
  qed
qed

lemma handle_subscribe_step: "own_step c b (snd (handle_subscribe P now c e sub b))"
proof (cases "\<exists>s. get_session c b = Some s \<and> ss_epoch s = e")
  case False
  then show ?thesis by (auto simp: handle_subscribe_def Let_def split: option.split)
next
  case True
  then obtain s where s: "get_session c b = Some s" "ss_epoch s = e" by blast
  define sub_id where "sub_id = (case pr_subscription_identifiers (sb_properties sub) of [] \<Rightarrow> None | i # _ \<Rightarrow> Some i)"
  obtain r b1 where l: "subscribe_loop P now c (who_of (ss_identity s)) sub_id (sb_filters sub) b = (r, b1)" by fastforce
  have b1: "own_step c b b1" using subscribe_loop_step [of c b P now "who_of (ss_identity s)" sub_id "sb_filters sub"] l by simp
  from subscribe_loop_Some [of c b P now "who_of (ss_identity s)" sub_id "sb_filters sub"] s l
  obtain rcs send where r: "r = Some (rcs, send)" by auto
  let ?b2 = "send_to c (Control (Suback (suback_new (sb_packet_id sub) rcs))) b1"
  have "own_step c b (fst (deliver_retained P now c send ?b2 0))"
    using own_step_trans [OF own_step_trans [OF b1 own_step_send_to] deliver_retained_step] .
  then show ?thesis
    using own_step_trans [OF _ own_step_dropped] s l r
    by (simp add: handle_subscribe_def Let_def case_prod_beta flip: sub_id_def)
qed

lemma unsubscribe_loop_step: "own_step c b (snd (unsubscribe_loop P c fs b))"
proof (induction fs arbitrary: b)
  case Nil
  then show ?case by simp
next
  case (Cons flt fs)
  show ?case
  proof (cases "get_session c b")
    case None
    with Cons show ?thesis by (simp add: case_prod_beta Let_def)
  next
    case (Some s)
    have "own_step c b (snd (unsubscribe_loop P c fs (store k (b\<lparr>b_sessions := hm_insert c (snd (remove_subscription s g sh)) (b_sessions b)\<rparr>))))"
      "own_step c b (snd (unsubscribe_loop P c fs (b\<lparr>b_sessions := hm_insert c (snd (remove_subscription s g sh)) (b_sessions b)\<rparr>)))"
      for k g sh
      using own_step_trans [OF own_step_trans [OF own_step_remove [OF Some] own_step_store] Cons]
        own_step_trans [OF own_step_remove [OF Some] Cons] by blast+
    with Some show ?thesis by (simp add: case_prod_beta Let_def)
  qed
qed

lemma handle_unsubscribe_step: "own_step c b (snd (handle_unsubscribe P c e unsub b))"
  using own_step_trans [OF unsubscribe_loop_step own_step_send_to]
  by (simp add: handle_unsubscribe_def case_prod_beta split: option.split)

lemma own_step_epoch:
  "own_step c b b' \<Longrightarrow> map_option ss_epoch (get_session d b') = map_option ss_epoch (get_session d b)"
  by (cases "d = c") (simp_all add: own_step_def)

lemma own_step_facts:
  "own_step c b b' \<Longrightarrow> broker_inv b \<Longrightarrow> broker_inv b'" "own_step c b b' \<Longrightarrow> b_next_epoch b' = b_next_epoch b"
  by (simp_all add: own_step_def)

interpretation subscribe_h: packet_handler "handle_subscribe P now" for P now
proof unfold_locales
  fix c e b p
  show "stale c e b \<Longrightarrow> same_but_metrics b (snd (handle_subscribe P now c e p b))"
    by (auto simp: handle_subscribe_def stale_def Let_def split: option.split)
qed (use own_step_epoch own_step_facts handle_subscribe_step in blast)+

interpretation unsubscribe_h: packet_handler "handle_unsubscribe P" for P
proof unfold_locales
  fix c e b p
  show "stale c e b \<Longrightarrow> same_but_metrics b (snd (handle_unsubscribe P c e p b))"
    by (auto simp: handle_unsubscribe_def stale_def split: option.split)
qed (use own_step_epoch own_step_facts handle_unsubscribe_step in blast)+


subsection \<open>What a SUBSCRIBE does\<close>

text \<open>The reference: the accepted filters with what they parse to, one reason code per filter, and the
  subscription list as a fold of \<open>upsert_list\<close>.\<close>

definition accepted_filters ::
    "protocol \<Rightarrow> acl \<Rightarrow> string \<Rightarrow> topic_filter list \<Rightarrow> (topic_filter \<times> string option \<times> string) list" where
  "accepted_filters P a who fs =
     concat (map (\<lambda>f. case check_filter P a who f of Inl _ \<Rightarrow> [] | Inr parsed \<Rightarrow> [(f, parsed)]) fs)"

definition filter_code :: "protocol \<Rightarrow> broker \<Rightarrow> string \<Rightarrow> topic_filter \<Rightarrow> reason_code" where
  "filter_code P b who f =
     (case check_filter P (b_acl b) who f of Inl rc \<Rightarrow> rc | Inr _ \<Rightarrow> granted_code (granted_qos b f))"

definition upsert_all ::
    "broker \<Rightarrow> u32 option \<Rightarrow> (topic_filter \<times> string option \<times> string) list \<Rightarrow> subscription list \<Rightarrow> subscription list" where
  "upsert_all b sub_id acc subs =
     foldl (\<lambda>xs (f, parsed). snd (upsert_list xs (new_subscription (granted_qos b f) sub_id f parsed))) subs acc"

lemma granted_qos_config: "b_config b' = b_config b \<Longrightarrow> granted_qos b' = granted_qos b"
  by (rule ext) (simp add: granted_qos_def)

lemma upsert_all_config: "b_config b' = b_config b \<Longrightarrow> upsert_all b' = upsert_all b"
  by (intro ext) (simp add: upsert_all_def granted_qos_config [of b' b])

lemma filter_code_config: "b_config b' = b_config b \<Longrightarrow> b_acl b' = b_acl b \<Longrightarrow> filter_code P b' = filter_code P b"
  by (intro ext) (simp add: filter_code_def granted_qos_config [of b' b] split: sum.split)

lemma add_filter_frame [simp]:
  "b_config (snd (add_filter c sub_id f parsed s b)) = b_config b"
  "b_acl (snd (add_filter c sub_id f parsed s b)) = b_acl b"
  "b_retained (snd (add_filter c sub_id f parsed s b)) = b_retained b"
  by (simp_all add: add_filter_def Let_def case_prod_beta)

lemma upsert_subscription_fields [simp]:
  "ss_subscriptions (snd (upsert_subscription s new)) = snd (upsert_list (ss_subscriptions s) new)"
  "ss_persistent (snd (upsert_subscription s new)) = ss_persistent s"
  by (simp_all add: upsert_subscription_def case_prod_beta)

text \<open>The state after the loop over \<open>fs\<close>, from session \<open>s\<close>.\<close>

definition subscribed ::
    "protocol \<Rightarrow> string \<Rightarrow> string \<Rightarrow> u32 option \<Rightarrow> topic_filter list \<Rightarrow> session \<Rightarrow> broker \<Rightarrow> broker \<Rightarrow> bool" where
  "subscribed P c who sub_id fs s b b' \<longleftrightarrow>
     (let acc = accepted_filters P (b_acl b) who fs
      in (\<exists>s'. get_session c b' = Some s' \<and> ss_subscriptions s' = upsert_all b sub_id acc (ss_subscriptions s))
         \<and> b_storage b' = b_storage b @
             (if ss_persistent s
              then map (\<lambda>(f, _). UpsertSubscription c (sub_record_of (granted_qos b f) sub_id f)) acc
              else []))"

lemma subscribed_Inr:
  assumes "check_filter P (b_acl b) who f = Inr parsed"
    and "subscribed P c who sub_id fs (snd (upsert_subscription s (new_subscription (granted_qos b f) sub_id f parsed)))
           (snd (add_filter c sub_id f parsed s b)) b'"
  shows "subscribed P c who sub_id (f # fs) s b b'"
proof -
  let ?b = "snd (add_filter c sub_id f parsed s b)"
  have st: "b_storage ?b = b_storage b @
      (if ss_persistent s then [UpsertSubscription c (sub_record_of (granted_qos b f) sub_id f)] else [])"
    by (simp add: add_filter_def Let_def case_prod_beta)
  have acc: "accepted_filters P (b_acl b) who (f # fs) = (f, parsed) # accepted_filters P (b_acl b) who fs"
    using assms(1) by (simp add: accepted_filters_def)
  have "upsert_all ?b = upsert_all b" "granted_qos ?b = granted_qos b"
    by (simp_all add: upsert_all_config [of ?b b] granted_qos_config [of ?b b])
  with assms(2) show ?thesis
    by (simp add: subscribed_def Let_def st acc upsert_all_def split: if_splits)
qed

lemma subscribe_loop_spec:
  assumes "get_session c b = Some s"
  shows "\<exists>send b'. subscribe_loop P now c who sub_id fs b = (Some (map (filter_code P b who) fs, send), b')
     \<and> subscribed P c who sub_id fs s b b'"
  using assms
proof (induction fs arbitrary: b s)
  case Nil
  then show ?case by (simp add: subscribed_def accepted_filters_def upsert_all_def)
next
  case (Cons f fs)
  show ?case
  proof (cases "check_filter P (b_acl b) who f")
    case (Inl rc)
    from Cons.IH [OF Cons.prems] obtain send b' where
      "subscribe_loop P now c who sub_id fs b = (Some (map (filter_code P b who) fs, send), b')"
      "subscribed P c who sub_id fs s b b'" by blast
    moreover from Inl have "accepted_filters P (b_acl b) who (f # fs) = accepted_filters P (b_acl b) who fs"
      by (simp add: accepted_filters_def)
    ultimately show ?thesis using Inl
      by (simp add: subscribe_loop_Inl filter_code_def subscribed_def del: subscribe_loop.simps)
  next
    case (Inr parsed)
    let ?b = "snd (add_filter c sub_id f parsed s b)"
    from Cons.IH [OF add_filter_session [of c sub_id f parsed s b]] obtain send b' where
      ih: "subscribe_loop P now c who sub_id fs ?b = (Some (map (filter_code P b who) fs, send), b')"
      "subscribed P c who sub_id fs (snd (upsert_subscription s (new_subscription (granted_qos b f) sub_id f parsed))) ?b b'"
      by (auto simp: filter_code_config [of ?b b])
    with subscribed_Inr [OF Inr ih(2)] Inr Cons.prems show ?thesis
      by (simp add: subscribe_loop_Inr Let_def filter_code_def del: subscribe_loop.simps)
  qed
qed

lemma deliver_retained_conn:
  assumes "get_session c b = Some s"
  shows "\<exists>s'. get_session c (fst (deliver_retained P now c send b d)) = Some s' \<and> same_conn s s'"
  using assms
proof (induction send arbitrary: b d s)
  case Nil
  then show ?case by simp
next
  case (Cons x rest)
  obtain m q ids where x: "x = (m, q, ids)" by (cases x)
  let ?r = "deliver_to_session P now s m q True ids (max_queued b)"
  let ?b = "b\<lparr>b_sessions := hm_insert c (snd ?r) (b_sessions b)\<rparr>"
  have "get_session c ?b = Some (snd ?r)" by simp
  from Cons.IH [OF this, of "if fst ?r then d + 1 else d"] obtain s' where
    "get_session c (fst (deliver_retained P now c rest ?b (if fst ?r then d + 1 else d))) = Some s'"
    "same_conn (snd ?r) s'" by blast
  then show ?case
    using Cons.prems x same_conn_trans [OF same_conn_deliver] by (auto simp: case_prod_beta)
qed

lemma deliver_retained_storage: "b_storage (fst (deliver_retained P now c send b d)) = b_storage b"
  by (induction P now c send b d rule: deliver_retained.induct)
    (auto simp: case_prod_beta split: option.split)

lemma send_to_conn: "get_session c b = Some s \<Longrightarrow> get_session c (send_to c i b) = Some (session_send s i)"
  by (simp add: send_to_def)

definition sub_id_of :: "subscribe \<Rightarrow> u32 option" where
  "sub_id_of sub = (case pr_subscription_identifiers (sb_properties sub) of [] \<Rightarrow> None | i # _ \<Rightarrow> Some i)"

lemma handle_subscribe_spec:
  assumes "get_session c b = Some s" and "ss_epoch s = e"
  shows "fst (handle_subscribe P now c e sub b) = Continue"
    and "subscribed P c (who_of (ss_identity s)) (sub_id_of sub) (sb_filters sub) s b
           (snd (handle_subscribe P now c e sub b))"
proof -
  let ?who = "who_of (ss_identity s)"
  from subscribe_loop_spec [OF assms(1)] obtain send b1 where
    l: "subscribe_loop P now c ?who (sub_id_of sub) (sb_filters sub) b = (Some (map (filter_code P b ?who) (sb_filters sub), send), b1)"
    and b1: "subscribed P c ?who (sub_id_of sub) (sb_filters sub) s b b1" by blast
  from b1 obtain s1 where s1: "get_session c b1 = Some s1" by (auto simp: subscribed_def Let_def)
  let ?ack = "Control (Suback (suback_new (sb_packet_id sub) (map (filter_code P b ?who) (sb_filters sub))))"
  let ?r = "deliver_retained P now c send (send_to c ?ack b1) 0"
  from deliver_retained_conn [OF send_to_conn [OF s1, of ?ack], of P now send 0] obtain s' where
    s': "get_session c (fst ?r) = Some s'" and sc: "same_conn (session_send s1 ?ack) s'" by blast
  from same_conn_fields(4) [OF sc] have "ss_subscriptions s' = ss_subscriptions s1" by simp
  moreover have "b_storage (fst ?r) = b_storage b1" by (simp add: deliver_retained_storage)
  ultimately have "subscribed P c ?who (sub_id_of sub) (sb_filters sub) s b (fst ?r)"
    using b1 s' s1 by (simp add: subscribed_def Let_def)
  moreover have "handle_subscribe P now c e sub b = (Continue, count_dropped (of_nat (snd ?r)) (fst ?r))"
    using assms l by (simp add: handle_subscribe_def Let_def case_prod_beta flip: sub_id_of_def)
  ultimately show "fst (handle_subscribe P now c e sub b) = Continue"
    "subscribed P c ?who (sub_id_of sub) (sb_filters sub) s b (snd (handle_subscribe P now c e sub b))"
    by (simp_all add: subscribed_def)
qed

text \<open>Where a subscription comes from: it was there, or its filter passed the checks.\<close>

lemma upsert_all_origin:
  "sub \<in> set (upsert_all b sub_id acc subs) \<Longrightarrow>
   sub \<in> set subs \<or> (\<exists>(f, parsed) \<in> set acc. sub = new_subscription (granted_qos b f) sub_id f parsed)"
proof (induction acc arbitrary: subs)
  case Nil
  then show ?case by (simp add: upsert_all_def)
next
  case (Cons x acc)
  obtain f parsed where x: "x = (f, parsed)" by (cases x)
  let ?new = "new_subscription (granted_qos b f) sub_id f parsed"
  from Cons.prems x have "sub \<in> set (upsert_all b sub_id acc (snd (upsert_list subs ?new)))"
    by (simp add: upsert_all_def)
  from Cons.IH [OF this] set_upsert [of subs ?new] x show ?case by auto
qed

lemma accepted_checked: "(f, parsed) \<in> set (accepted_filters P a who fs) \<Longrightarrow> f \<in> set fs \<and> check_filter P a who f = Inr parsed"
  by (auto simp: accepted_filters_def split: sum.splits)

lemma check_filter_authorized:
  "check_filter P a who f = Inr parsed \<Longrightarrow> can_subscribe P a who (snd parsed)"
  by (auto simp: check_filter_def can_subscribe_def split: if_splits option.splits)

lemma subscribed_authorized:
  assumes "subscribed P c who sub_id fs s b b'" and "get_session c b' = Some s'" and "sub \<in> set (ss_subscriptions s')"
  shows "sub \<in> set (ss_subscriptions s) \<or> can_subscribe P (b_acl b) who (sub_filter sub)"
proof -
  from assms have "sub \<in> set (upsert_all b sub_id (accepted_filters P (b_acl b) who fs) (ss_subscriptions s))"
    by (auto simp: subscribed_def Let_def)
  from upsert_all_origin [OF this] show ?thesis
    by (auto dest!: accepted_checked check_filter_authorized simp: new_subscription_def)
qed


subsection \<open>What an UNSUBSCRIBE does\<close>

text \<open>The key a filter names: share name and filter, or the filter itself when it does not parse.\<close>

definition unsub_key :: "protocol \<Rightarrow> string \<Rightarrow> string \<times> string option" where
  "unsub_key P flt = (case parse_filter P flt of Some (share, f) \<Rightarrow> (f, share) | None \<Rightarrow> (flt, None))"

lemma unsubscribe_loop_subs:
  assumes "get_session c b = Some s"
  shows "\<exists>s'. get_session c (snd (unsubscribe_loop P c fs b)) = Some s'
    \<and> (\<forall>k. subs_get k (ss_subscriptions s') =
            (if k \<in> set (map (unsub_key P) fs) then None else subs_get k (ss_subscriptions s)))"
  using assms
proof (induction fs arbitrary: b s)
  case Nil
  then show ?case by simp
next
  case (Cons flt fs)
  obtain f share where key: "unsub_key P flt = (f, share)" by fastforce
  let ?s = "snd (remove_subscription s f share)"
  let ?b1 = "b\<lparr>b_sessions := hm_insert c ?s (b_sessions b)\<rparr>"
  let ?b2 = "if fst (remove_subscription s f share) \<and> ss_persistent ?s then store (DeleteSubscription c flt) ?b1 else ?b1"
  have parsed: "(case parse_filter P flt of Some p \<Rightarrow> p | None \<Rightarrow> (None, flt)) = (share, f)"
    using key by (auto simp: unsub_key_def split: option.splits prod.splits)
  have loop: "snd (unsubscribe_loop P c (flt # fs) b) = snd (unsubscribe_loop P c fs ?b2)"
    using Cons.prems by (simp add: parsed case_prod_beta Let_def)
  have "get_session c ?b2 = Some ?s" by simp
  from Cons.IH [OF this] obtain s' where s': "get_session c (snd (unsubscribe_loop P c fs ?b2)) = Some s'"
    "\<forall>k. subs_get k (ss_subscriptions s') =
       (if k \<in> set (map (unsub_key P) fs) then None else subs_get k (ss_subscriptions ?s))" by blast
  moreover have "subs_get k (ss_subscriptions ?s) = (if k = (f, share) then None else subs_get k (ss_subscriptions s))" for k
    by (rule remove_get [OF prod.collapse [symmetric]])
  ultimately show ?case unfolding loop using key by auto
qed

lemma handle_unsubscribe_subs:
  assumes "get_session c b = Some s" and "ss_epoch s = e"
  shows "\<exists>s'. get_session c (snd (handle_unsubscribe P c e u b)) = Some s'
    \<and> (\<forall>k. subs_get k (ss_subscriptions s') =
            (if k \<in> set (map (unsub_key P) (us_filters u)) then None else subs_get k (ss_subscriptions s)))"
  using unsubscribe_loop_subs [OF assms(1), of P "us_filters u"] assms
  by (auto simp: handle_unsubscribe_def case_prod_beta send_to_conn)

subsection \<open>Properties\<close>


definition demo_subscribe :: subscribe where
  "demo_subscribe = \<lparr>sb_packet_id = 9, sb_properties = no_properties, sb_filters =
     [\<lparr>tf_filter = ''t'', tf_qos = ExactlyOnce, tf_no_local = False, tf_retain_as_published = False,
       tf_retain_handling = SendAtSubscribe\<rparr>]\<rparr>"


text \<open>An UNSUBSCRIBE over the session's own connection removes exactly the subscriptions its filters
  name (share name included) and keeps every other subscription.\<close>

lemma unsubscribe_effect:
  assumes "get_session c b = Some s" and "ss_epoch s = e"
  shows "\<exists>s'. get_session c (snd (handle_unsubscribe P c e u b)) = Some s'
    \<and> subs_get k (ss_subscriptions s') =
        (if k \<in> set (map (unsub_key P) (us_filters u)) then None else subs_get k (ss_subscriptions s))"
  using handle_unsubscribe_subs [OF assms, of P u] by blast

end
