(* ===== verification/Lifecycle.thy ===== *)
theory Lifecycle
  imports Subscribing
begin

section \<open>Disconnection, Wills and session expiry\<close>

text \<open>
  \<^verbatim>\<open>src/src/broker/lifecycle.rs\<close>. A function that takes the lock more than once is a composition of
  its sections: \<open>disconnect_check\<close> and \<open>update_expiry\<close> for a DISCONNECT, \<open>close_session\<close> and
  \<open>remove_if_idle\<close> for a closed connection. A spawned task is a value of type \<open>task\<close>, and
  \<open>run_task\<close> resumes it when its sleep is over: it returns the tasks that remain of it.
\<close>

definition message_from_will :: "u64 \<Rightarrow> will \<Rightarrow> message" where
  "message_from_will now w =
     (let pr = w_properties w
      in \<lparr>m_topic = w_topic w, m_payload = w_payload w, m_qos = w_qos w, m_retain = w_retain w,
          m_payload_format_indicator = pr_payload_format_indicator pr,
          m_content_type = pr_content_type pr, m_response_topic = pr_response_topic pr,
          m_correlation_data = pr_correlation_data pr, m_user_properties = pr_user_properties pr,
          m_expires_at =
            map_option (\<lambda>s. saturating_add now (ucast s)) (pr_message_expiry_interval pr)\<rparr>)"

definition disconnect_check :: "string \<Rightarrow> u64 \<Rightarrow> broker \<Rightarrow> bool" where
  "disconnect_check c epoch b =
     (case get_session c b of None \<Rightarrow> False | Some s \<Rightarrow> ss_epoch s = epoch)"

definition update_expiry :: "string \<Rightarrow> u32 \<Rightarrow> broker \<Rightarrow> broker" where
  "update_expiry c new_expiry b =
     (case get_session c b of
        None \<Rightarrow> b
      | Some s \<Rightarrow>
          let s' = s\<lparr>ss_session_expiry_interval := min new_expiry (cfg_max_session_expiry (b_config b))\<rparr>;
              b1 = b\<lparr>b_sessions := hm_insert c s' (b_sessions b)\<rparr>
          in if ss_persistent s'
             then store (UpsertSession c (ss_session_expiry_interval s') (ss_identity s')) b1 else b1)"

definition handle_client_disconnect ::
    "string \<Rightarrow> u64 \<Rightarrow> disconnect \<Rightarrow> broker \<Rightarrow> action \<times> broker" where
  "handle_client_disconnect c epoch d b =
     (if \<not> disconnect_check c epoch b then (ServerDisconnect UnspecifiedError, b)
      else (ClientDisconnect (dc_reason_code d = DisconnectWithWillMessage),
            case pr_session_expiry_interval (dc_properties d) of
              None \<Rightarrow> b
            | Some new_expiry \<Rightarrow> update_expiry c new_expiry b))"

definition schedule_will :: "string \<Rightarrow> u64 \<Rightarrow> message \<Rightarrow> u32 \<Rightarrow> string \<Rightarrow> broker \<Rightarrow> broker" where
  "schedule_will c epoch m delay owner b =
     spawn (if 0 < delay then WillSleeping c epoch m delay owner else WillReady m owner) b"

text \<open>The first section of \<^verbatim>\<open>handle_connection_closed\<close>: the session as it is left, and the Will to fire
  with its delay and owner.\<close>

definition close_session :: "bool \<Rightarrow> session \<Rightarrow> (message \<times> u32 \<times> string) option \<times> session" where
  "close_session publish_will s =
     (let s1 = (go_offline s)\<lparr>ss_inbound_aliases := []\<rparr>
      in (if publish_will
          then map_option (\<lambda>(m, delay). (m, delay, who_of (ss_identity s1))) (ss_will s1) else None,
          s1\<lparr>ss_will := None\<rparr>))"

text \<open>The removal of an expired session, shared by \<^verbatim>\<open>handle_connection_closed\<close> and the expiry timer.\<close>

definition remove_if_idle :: "string \<Rightarrow> u64 \<Rightarrow> broker \<Rightarrow> broker" where
  "remove_if_idle c epoch b =
     (case get_session c b of
        None \<Rightarrow> b
      | Some s \<Rightarrow>
          if ss_epoch s = epoch \<and> \<not> is_online s then
            let b1 = store (DeleteSession c) (b\<lparr>b_sessions := hm_remove c (b_sessions b)\<rparr>);
                mx = b_metrics b1
            in if ss_persistent s
               then b1\<lparr>b_metrics := mx\<lparr>mx_clients_expired := mx_clients_expired mx + 1\<rparr>\<rparr> else b1
          else b)"

definition handle_connection_closed :: "string \<Rightarrow> u64 \<Rightarrow> bool \<Rightarrow> broker \<Rightarrow> broker" where
  "handle_connection_closed c epoch publish_will b =
     (case get_session c b of
        None \<Rightarrow> b
      | Some s \<Rightarrow>
          if ss_epoch s \<noteq> epoch then b
          else
            let (will, s') = close_session publish_will s;
                b1 = b\<lparr>b_sessions := hm_insert c s' (b_sessions b)\<rparr>;
                b2 = (case will of
                        None \<Rightarrow> b1
                      | Some (m, delay, owner) \<Rightarrow> schedule_will c epoch m delay owner b1);
                expiry = ss_session_expiry_interval s'
            in if expiry = 0 then remove_if_idle c epoch b2
               else spawn (ExpirySleeping c epoch expiry) b2)"

text \<open>The check after the Will Delay: the Will is cancelled when the client is back.\<close>

definition will_cancelled :: "string \<Rightarrow> u64 \<Rightarrow> broker \<Rightarrow> bool" where
  "will_cancelled c epoch b =
     (case get_session c b of None \<Rightarrow> False | Some s \<Rightarrow> ss_epoch s \<noteq> epoch \<or> is_online s)"

definition fire_will :: "protocol \<Rightarrow> u64 \<Rightarrow> message \<Rightarrow> string \<Rightarrow> broker \<Rightarrow> broker" where
  "fire_will P now m owner b =
     (if \<not> can_publish P (b_acl b) owner (m_topic m) then b
      else snd (route P now None m (if m_retain m then store_retained (m_topic m) m b else b)))"

fun run_task :: "protocol \<Rightarrow> u64 \<Rightarrow> task \<Rightarrow> broker \<Rightarrow> task list \<times> broker" where
  "run_task P now (WillSleeping c epoch m delay owner) b =
     (if will_cancelled c epoch b then [] else [WillReady m owner], b)"
| "run_task P now (WillReady m owner) b = ([], fire_will P now m owner b)"
| "run_task P now (ExpirySleeping c epoch secs) b = ([], remove_if_idle c epoch b)"

subsection \<open>Invariants\<close>

lemma session_inv_misc [simp]:
  "session_inv (s\<lparr>ss_session_expiry_interval := x\<rparr>) = session_inv s"
  "session_inv (s\<lparr>ss_will := w\<rparr>) = session_inv s"
  "session_inv (s\<lparr>ss_epoch := e\<rparr>) = session_inv s"
  "session_inv (s\<lparr>ss_identity := i\<rparr>) = session_inv s"
  "session_inv (s\<lparr>ss_persistent := pe\<rparr>) = session_inv s"
  "session_inv (s\<lparr>ss_client_receive_maximum := rm\<rparr>) = session_inv s"
  "session_inv (s\<lparr>ss_client_max_packet_size := mp\<rparr>) = session_inv s"
  by (simp_all add: session_inv_def inflight_ids_def)

lemma session_inv_offline: "session_inv s \<Longrightarrow> session_inv (s\<lparr>ss_out := None\<rparr>)"
  by (simp add: session_inv_def inflight_ids_def)

interpretation expiry_op: session_op "\<lambda>s. s\<lparr>ss_session_expiry_interval := x\<rparr>" n for x n
  by unfold_locales (simp_all add: queue_ok_def)

interpretation close_op: session_op "\<lambda>s. snd (close_session w s)" n for w n
  by unfold_locales (simp_all add: close_session_def go_offline_def Let_def session_inv_offline queue_ok_def)

lemma update_expiry_step: "own_step c b (update_expiry c x b)"
proof (cases "get_session c b")
  case None
  then show ?thesis by (simp add: update_expiry_def)
next
  case (Some s)
  let ?f = "\<lambda>s. s\<lparr>ss_session_expiry_interval := min x (cfg_max_session_expiry (b_config b))\<rparr>"
  have "own_step c b (b\<lparr>b_sessions := hm_insert c (?f s) (b_sessions b)\<rparr>)"
    by (rule own_step_insert [OF expiry_op.session_op_axioms Some]) (simp_all add: is_online_def)
  with Some own_step_trans [OF this own_step_store] show ?thesis by (simp add: update_expiry_def Let_def)
qed

interpretation disconnect_h: packet_handler handle_client_disconnect
proof unfold_locales
  fix c d :: string and e b p
  have step: "own_step c b (snd (handle_client_disconnect c e p b))"
    by (simp add: handle_client_disconnect_def update_expiry_step split: option.split)
  show "stale c e b \<Longrightarrow> same_but_metrics b (snd (handle_client_disconnect c e p b))"
    by (auto simp: handle_client_disconnect_def disconnect_check_def stale_def split: option.splits)
  show "broker_inv b \<Longrightarrow> broker_inv (snd (handle_client_disconnect c e p b))"
    "map_option ss_epoch (get_session d (snd (handle_client_disconnect c e p b))) = map_option ss_epoch (get_session d b)"
    "b_next_epoch (snd (handle_client_disconnect c e p b)) = b_next_epoch b"
    using own_step_facts [OF step] own_step_epoch [OF step] by auto
qed

lemma sessions_ok_remove: "sessions_ok n m \<Longrightarrow> sessions_ok n (hm_remove c m)"
  by (simp add: sessions_ok_def)

lemma inv_remove: "broker_inv b \<Longrightarrow> broker_inv (b\<lparr>b_sessions := hm_remove c (b_sessions b)\<rparr>)"
  by (simp add: broker_inv_def sessions_ok_remove)

lemma remove_if_idle_inv: "broker_inv b \<Longrightarrow> broker_inv (remove_if_idle c e b)"
  by (simp add: remove_if_idle_def Let_def inv_remove split: option.split)

lemma remove_if_idle_frame [simp]:
  "b_next_epoch (remove_if_idle c e b) = b_next_epoch b" "b_config (remove_if_idle c e b) = b_config b"
  "b_acl (remove_if_idle c e b) = b_acl b" "b_retained (remove_if_idle c e b) = b_retained b"
  "b_tasks (remove_if_idle c e b) = b_tasks b" "b_shared_rr (remove_if_idle c e b) = b_shared_rr b"
  by (simp_all add: remove_if_idle_def Let_def split: option.split)

lemma get_remove_if_idle:
  "get_session d (remove_if_idle c e b) =
     (if d = c \<and> (\<exists>s. get_session c b = Some s \<and> ss_epoch s = e \<and> \<not> is_online s) then None else get_session d b)"
  by (auto simp: remove_if_idle_def Let_def split: option.split)

lemma remove_if_idle_epochs: "epochs_ok b \<Longrightarrow> epochs_ok (remove_if_idle c e b)"
  by (simp add: epochs_ok_def get_remove_if_idle)

lemma schedule_will_simps [simp]:
  "broker_inv (schedule_will c e m d w b) = broker_inv b" "epochs_ok (schedule_will c e m d w b) = epochs_ok b"
  "b_sessions (schedule_will c e m d w b) = b_sessions b" "b_next_epoch (schedule_will c e m d w b) = b_next_epoch b"
  "b_acl (schedule_will c e m d w b) = b_acl b" "b_retained (schedule_will c e m d w b) = b_retained b"
  "b_config (schedule_will c e m d w b) = b_config b"
  by (simp_all add: schedule_will_def)

lemma closed_insert:
  assumes "get_session c b = Some s"
  shows "own_step c b (b\<lparr>b_sessions := hm_insert c (snd (close_session w s)) (b_sessions b)\<rparr>)"
  by (rule own_step_insert [OF close_op.session_op_axioms assms]) (simp_all add: close_session_def Let_def go_offline_def is_online_def)

lemma own_step_epochs: "own_step c b b' \<Longrightarrow> epochs_ok b \<Longrightarrow> epochs_ok b'"
  unfolding epochs_ok_def
proof (intro allI impI)
  fix d s
  assume step: "own_step c b b'" and ok: "\<forall>c s. get_session c b = Some s \<longrightarrow> ss_epoch s < b_next_epoch b"
    and s: "get_session d b' = Some s"
  from own_step_epoch [OF step, of d] s obtain s0 where "get_session d b = Some s0" "ss_epoch s0 = ss_epoch s"
    by (cases "get_session d b") auto
  with ok own_step_facts(2) [OF step] show "ss_epoch s < b_next_epoch b'" by metis
qed

lemma connection_closed_inv:
  shows "broker_inv b \<Longrightarrow> broker_inv (handle_connection_closed c e w b)"
    and "epochs_ok b \<Longrightarrow> epochs_ok (handle_connection_closed c e w b)"
    and "b_next_epoch (handle_connection_closed c e w b) = b_next_epoch b"
proof -
  have "broker_inv b \<Longrightarrow> broker_inv (b\<lparr>b_sessions := hm_insert c (snd (close_session w s)) (b_sessions b)\<rparr>)"
    and "epochs_ok b \<Longrightarrow> epochs_ok (b\<lparr>b_sessions := hm_insert c (snd (close_session w s)) (b_sessions b)\<rparr>)"
    if "get_session c b = Some s" for s
    using own_step_facts(1) own_step_epochs closed_insert [OF that] by blast+
  then show "broker_inv b \<Longrightarrow> broker_inv (handle_connection_closed c e w b)"
    "epochs_ok b \<Longrightarrow> epochs_ok (handle_connection_closed c e w b)"
    by (auto simp: handle_connection_closed_def Let_def case_prod_beta
        intro!: remove_if_idle_inv remove_if_idle_epochs split: option.split)
  show "b_next_epoch (handle_connection_closed c e w b) = b_next_epoch b"
    by (auto simp: handle_connection_closed_def Let_def case_prod_beta split: option.split)
qed

lemma fire_will_inv: "broker_inv b \<Longrightarrow> broker_inv (fire_will P now m owner b)"
  by (auto simp: fire_will_def inv_store_retained intro: inv_route)

lemma fire_will_epochs: "epochs_ok b \<Longrightarrow> epochs_ok (fire_will P now m owner b)"
  by (auto simp: fire_will_def intro: route_epochs)

lemma run_task_inv: "broker_inv b \<Longrightarrow> broker_inv (snd (run_task P now t b))"
  by (cases t) (simp_all add: fire_will_inv remove_if_idle_inv)

lemma run_task_epochs: "epochs_ok b \<Longrightarrow> epochs_ok (snd (run_task P now t b))"
  by (cases t) (simp_all add: fire_will_epochs remove_if_idle_epochs)

lemma run_task_counter: "b_next_epoch (snd (run_task P now t b)) = b_next_epoch b"
  by (cases t) (simp_all add: fire_will_def)


subsection \<open>Properties\<close>

text \<open>Session expiry. The expiry timer, and the close of a connection whose session does not
  outlive it, remove a session only when it is offline and still has the epoch they were started for, and the
  removal is sent to storage exactly when it happens.\<close>

lemma expiry_logs:
  "b_storage (remove_if_idle c e b) =
     b_storage b @ (if \<exists>s. get_session c b = Some s \<and> ss_epoch s = e \<and> \<not> is_online s then [DeleteSession c] else [])"
  by (auto simp: remove_if_idle_def Let_def split: option.split)

fun is_will_task :: "task \<Rightarrow> bool" where
  "is_will_task (ExpirySleeping _ _ _) = False"
| "is_will_task _ = True"

definition closed_tasks :: "string \<Rightarrow> u64 \<Rightarrow> bool \<Rightarrow> session \<Rightarrow> task list" where
  "closed_tasks c e w s =
     (case ss_will s of
        Some (m, delay) \<Rightarrow>
          if w then [if 0 < delay then WillSleeping c e m delay (who_of (ss_identity s))
                     else WillReady m (who_of (ss_identity s))] else []
      | None \<Rightarrow> [])
     @ (if ss_session_expiry_interval s = 0 then [] else [ExpirySleeping c e (ss_session_expiry_interval s)])"

text \<open>A closed connection. Over the session's own connection, the session goes offline or, without
  an expiry interval, away; its aliases and its Will are gone; a Will is scheduled only when the close asks
  for it, under the identity of the session; a session with an expiry interval gets a timer for it.\<close>

lemma connection_closed_effect:
  assumes "get_session c b = Some s" and "ss_epoch s = e"
  shows "get_session c (handle_connection_closed c e w b) =
           (if ss_session_expiry_interval s = 0 then None
            else Some (s\<lparr>ss_out := None, ss_inbound_aliases := [], ss_will := None\<rparr>))
         \<and> b_tasks (handle_connection_closed c e w b) = b_tasks b @ closed_tasks c e w s"
proof -
  let ?s = "s\<lparr>ss_out := None, ss_inbound_aliases := [], ss_will := None\<rparr>"
  have cl: "snd (close_session w s) = ?s" by (simp add: close_session_def Let_def go_offline_def)
  have wl: "fst (close_session w s) = (if w then map_option (\<lambda>(m, delay). (m, delay, who_of (ss_identity s))) (ss_will s) else None)"
    by (simp add: close_session_def Let_def go_offline_def)
  have off: "\<not> is_online ?s" by (simp add: is_online_def)
  show ?thesis
    using assms off
    by (cases "ss_will s") (auto simp: handle_connection_closed_def case_prod_beta Let_def cl wl get_remove_if_idle
        closed_tasks_def schedule_will_def)
qed



end
