(* ===== verification/Connecting.thy ===== *)
theory Connecting
  imports Lifecycle
begin

section \<open>CONNECT\<close>

text \<open>
  \<^verbatim>\<open>src/src/broker/connect.rs\<close>, in the order of the source: protocol check, authentication, Will
  authorization, client identifier, reserved names, then the section under the lock: takeover of an old
  connection, creation or reuse of the session, re-authorization of its subscriptions, the Will,
  persistence, the CONNACK and the resumption of delivery.
\<close>

definition authenticate ::
    "pbkdf2_verify \<Rightarrow> broker \<Rightarrow> connect \<Rightarrow> string option \<Rightarrow> reason_code + string option" where
  "authenticate kdf b cn identity =
     (case b_auth b of
        None \<Rightarrow> Inr identity
      | Some creds \<Rightarrow>
          (case cn_username cn of
             Some user \<Rightarrow>
               (case cn_password cn of
                  Some pass \<Rightarrow>
                    if verify kdf creds user pass then Inr (Some user) else Inl BadUserNameOrPassword
                | None \<Rightarrow> Inl BadUserNameOrPassword)
           | None \<Rightarrow>
               if \<not> cfg_allow_anonymous (b_config b) then Inl NotAuthorized else Inr identity))"

definition will_authorized :: "protocol \<Rightarrow> broker \<Rightarrow> connect \<Rightarrow> string option \<Rightarrow> bool" where
  "will_authorized P b cn identity =
     (case cn_will cn of
        None \<Rightarrow> True
      | Some w \<Rightarrow> can_publish P (b_acl b) (who_of identity) (w_topic w))"

definition auto_id :: "u64 \<Rightarrow> u64 \<Rightarrow> string" where
  "auto_id n now = ''auto-'' @ show_nat (unat n) @ ''-'' @ show_nat (unat now)"

definition resolve_client_id :: "u64 \<Rightarrow> connect \<Rightarrow> broker \<Rightarrow> (string \<times> bool) \<times> broker" where
  "resolve_client_id now cn b =
     (if cn_client_id cn = [] then
        ((auto_id (b_auto_id_counter b) now, True), b\<lparr>b_auto_id_counter := b_auto_id_counter b + 1\<rparr>)
      else ((cn_client_id cn, False), b))"

definition requested_expiry :: "config \<Rightarrow> protocol_version \<Rightarrow> connect \<Rightarrow> u32" where
  "requested_expiry cfg v cn =
     (if is_v5 v then
        min (case pr_session_expiry_interval (cn_properties cn) of None \<Rightarrow> 0 | Some e \<Rightarrow> e)
            (cfg_max_session_expiry cfg)
      else if cn_clean_start cn then 0 else cfg_max_session_expiry cfg)"

definition effective_keep_alive :: "config \<Rightarrow> protocol_version \<Rightarrow> connect \<Rightarrow> u16" where
  "effective_keep_alive cfg v cn =
     (if is_v5 v then (case cfg_server_keep_alive cfg of None \<Rightarrow> cn_keep_alive cn | Some k \<Rightarrow> k)
      else cn_keep_alive cn)"

text \<open>\<^verbatim>\<open>old.out.take()\<close>, a last \<^verbatim>\<open>try_send\<close> of the shutdown notice, and the drop of the sender.\<close>

definition detach :: "string \<Rightarrow> broker \<Rightarrow> broker" where
  "detach c b =
     (case get_session c b of
        None \<Rightarrow> b
      | Some s \<Rightarrow>
          (case ss_out s of
             None \<Rightarrow> b
           | Some tx \<Rightarrow>
               b\<lparr>b_sessions := hm_insert c (s\<lparr>ss_out := None\<rparr>) (b_sessions b),
                 b_detached := b_detached b
                   @ [((c, ss_epoch s), snd (try_send tx (Shutdown SessionTakenOver)))]\<rparr>))"

definition identity_changed :: "string option \<Rightarrow> string option \<Rightarrow> bool" where
  "identity_changed old new =
     (case old of
        None \<Rightarrow> False
      | Some o_id \<Rightarrow> (case new of Some n_id \<Rightarrow> o_id \<noteq> n_id | None \<Rightarrow> True))"

definition wipe :: "session \<Rightarrow> session" where
  "wipe s = s\<lparr>ss_subscriptions := [], ss_queue := [], ss_awaiting_puback := [],
              ss_awaiting_pubrec := [], ss_awaiting_pubcomp := []\<rparr>"

definition take_over :: "connect \<Rightarrow> string \<Rightarrow> string option \<Rightarrow> broker \<Rightarrow> bool \<times> broker" where
  "take_over cn c identity b =
     (if cn_clean_start cn then
        let b1 = detach c b
        in (False, store (DeleteSession c) (b1\<lparr>b_sessions := hm_remove c (b_sessions b1)\<rparr>))
      else
        (case get_session c b of
           None \<Rightarrow> (False, b)
         | Some old \<Rightarrow>
             let b1 = detach c b
             in if identity_changed (ss_identity old) identity then
                  let b2 = update_session c wipe b1
                  in (True, if ss_persistent old then store (ClearSubscriptions c) b2 else b2)
                else (True, b1)))"

text \<open>The session the connection binds to: the old one or a fresh one, with the connection's data.\<close>

definition bind_session ::
    "string \<Rightarrow> bool \<Rightarrow> connect \<Rightarrow> u64 \<Rightarrow> u32 \<Rightarrow> outtx \<Rightarrow> string option \<Rightarrow> session \<Rightarrow> session" where
  "bind_session c assigned cn epoch expiry out identity s =
     s\<lparr>ss_epoch := epoch, ss_identity := identity, ss_session_expiry_interval := expiry,
       ss_persistent := (0 < expiry \<and> \<not> assigned), ss_out := Some out,
       ss_client_receive_maximum :=
         (case pr_receive_maximum (cn_properties cn) of None \<Rightarrow> 65535 | Some r \<Rightarrow> r),
       ss_client_max_packet_size := pr_maximum_packet_size (cn_properties cn)\<rparr>"

text \<open>The key of a stored subscription: shared subscriptions keep their prefix.\<close>

definition stored_key :: "subscription \<Rightarrow> string" where
  "stored_key x =
     (case sub_share_name x of
        Some sh \<Rightarrow> ''$share/'' @ sh @ ''/'' @ sub_filter x
      | None \<Rightarrow> sub_filter x)"

definition prune :: "protocol \<Rightarrow> acl \<Rightarrow> string \<Rightarrow> session \<Rightarrow> session" where
  "prune P a who s =
     s\<lparr>ss_subscriptions := filter (\<lambda>x. can_subscribe P a who (sub_filter x)) (ss_subscriptions s)\<rparr>"

definition revoked :: "protocol \<Rightarrow> acl \<Rightarrow> string \<Rightarrow> session \<Rightarrow> subscription list" where
  "revoked P a who s = filter (\<lambda>x. \<not> can_subscribe P a who (sub_filter x)) (ss_subscriptions s)"

definition reauthorize :: "protocol \<Rightarrow> bool \<Rightarrow> string \<Rightarrow> session \<Rightarrow> broker \<Rightarrow> session \<times> broker" where
  "reauthorize P session_present c s b =
     (if session_present \<and> ss_subscriptions s \<noteq> [] \<and> acl_enforced (b_acl b) then
        let who = who_of (ss_identity s);
            s' = prune P (b_acl b) who s
        in (s', if ss_persistent s'
                then foldl (\<lambda>b x. store (DeleteSubscription c (stored_key x)) b) b (revoked P (b_acl b) who s)
                else b)
      else (s, b))"

definition build_connack ::
    "config \<Rightarrow> bool \<Rightarrow> bool \<Rightarrow> string \<Rightarrow> u32 \<Rightarrow> connect \<Rightarrow> connack" where
  "build_connack cfg session_present assigned c expiry cn =
     (connack_new session_present Success)
       \<lparr>ca_properties := no_properties
          \<lparr>pr_receive_maximum := Some (cfg_receive_maximum cfg),
           pr_maximum_qos :=
             (if cfg_maximum_qos cfg \<noteq> ExactlyOnce then Some (qos_as_u8 (cfg_maximum_qos cfg)) else None),
           pr_retain_available := Some (if cfg_retain_available cfg then 1 else 0),
           pr_maximum_packet_size := Some (cfg_max_packet_size cfg),
           pr_topic_alias_maximum := Some (cfg_topic_alias_maximum cfg),
           pr_wildcard_subscription_available := Some 1,
           pr_subscription_identifier_available := Some 1,
           pr_shared_subscription_available := Some 1,
           pr_assigned_client_identifier := (if assigned then Some c else None),
           pr_server_keep_alive := cfg_server_keep_alive cfg,
           pr_session_expiry_interval :=
             (if expiry \<noteq> (case pr_session_expiry_interval (cn_properties cn) of None \<Rightarrow> 0 | Some e \<Rightarrow> e)
              then Some expiry else None)\<rparr>\<rparr>"

definition online_count :: "broker \<Rightarrow> u64" where
  "online_count b = of_nat (length (filter (\<lambda>(_, s). is_online s) (b_sessions b)))"

definition count_connected :: "broker \<Rightarrow> broker" where
  "count_connected b =
     (let mx = b_metrics b
      in b\<lparr>b_metrics := observe_clients_connected (online_count b)
                          (mx\<lparr>mx_connections_total := mx_connections_total mx + 1\<rparr>)\<rparr>)"

text \<open>The section under the second lock, for an accepted client identifier.\<close>

definition bind_connection ::
    "protocol \<Rightarrow> u64 \<Rightarrow> protocol_version \<Rightarrow> connect \<Rightarrow> outtx \<Rightarrow> string option \<Rightarrow> string \<Rightarrow> bool \<Rightarrow> broker \<Rightarrow>
     accepted \<times> broker" where
  "bind_connection P now v cn out identity c assigned b =
     (let cfg = b_config b;
          expiry = requested_expiry cfg v cn;
          epoch = b_next_epoch b;
          b1 = b\<lparr>b_next_epoch := b_next_epoch b + 1\<rparr>;
          (session_present, b2) = take_over cn c identity b1;
          s0 = (case get_session c b2 of Some s \<Rightarrow> s | None \<Rightarrow> session_new c expiry);
          s1 = bind_session c assigned cn epoch expiry out identity s0;
          (s2, b3) = reauthorize P session_present c s1 b2;
          s3 = s2\<lparr>ss_will := map_option (\<lambda>w. (message_from_will now w,
                    case pr_will_delay_interval (w_properties w) of None \<Rightarrow> 0 | Some d \<Rightarrow> d)) (cn_will cn)\<rparr>;
          b4 = (if 0 < expiry \<and> \<not> assigned then store (UpsertSession c expiry identity) b3 else b3);
          connack = build_connack cfg session_present assigned c expiry cn;
          (dropped, s4) = (if session_present then resume_delivery P now s3 else (0, s3));
          b5 = count_dropped dropped (b4\<lparr>b_sessions := hm_insert c s4 (b_sessions b4)\<rparr>)
      in (\<lparr>ac_client_id = c, ac_epoch = epoch, ac_keep_alive = effective_keep_alive cfg v cn,
           ac_identity = identity, ac_connack = connack\<rparr>,
          count_connected b5))"

definition handle_connect ::
    "protocol \<Rightarrow> pbkdf2_verify \<Rightarrow> u64 \<Rightarrow> connect \<Rightarrow> outtx \<Rightarrow> string option \<Rightarrow> broker \<Rightarrow>
     (connack + accepted) \<times> broker" where
  "handle_connect P kdf now cn out identity b =
     (case validate_protocol P cn of
        Inl rc \<Rightarrow> (Inl (connack_new False rc), b)
      | Inr v \<Rightarrow>
          (case authenticate kdf b cn identity of
             Inl rc \<Rightarrow> (Inl (connack_new False rc), b)
           | Inr who \<Rightarrow>
               if \<not> will_authorized P b cn who then (Inl (connack_new False NotAuthorized), b)
               else
                 let ((c, assigned), b1) = resolve_client_id now cn b
                 in if reserved_id c then (Inl (connack_new False ClientIdentifierNotValid), b1)
                    else let (acc, b2) = bind_connection P now v cn out who c assigned b1
                         in (Inr acc, b2)))"


subsection \<open>Takeover\<close>

text \<open>What is left of the old session for the new connection.\<close>

definition old_session :: "connect \<Rightarrow> string \<Rightarrow> string option \<Rightarrow> broker \<Rightarrow> session option" where
  "old_session cn c identity b =
     (if cn_clean_start cn then None
      else map_option (\<lambda>s. let s' = s\<lparr>ss_out := None\<rparr>
                           in if identity_changed (ss_identity s) identity then wipe s' else s') (get_session c b))"

lemma detach_frame [simp, broker_frame]:
  "b_config (detach c b) = b_config b" "b_acl (detach c b) = b_acl b" "b_auth (detach c b) = b_auth b"
  "b_retained (detach c b) = b_retained b" "b_shared_rr (detach c b) = b_shared_rr b"
  "b_next_epoch (detach c b) = b_next_epoch b" "b_tasks (detach c b) = b_tasks b"
  "b_storage (detach c b) = b_storage b" "b_metrics (detach c b) = b_metrics b"
  "max_queued (detach c b) = max_queued b"
  by (simp_all add: detach_def max_queued_def split: option.split)

lemma offline_id: "ss_out s = None \<Longrightarrow> s\<lparr>ss_out := None\<rparr> = s"
  by (cases s) simp

lemma get_detach [simp]:
  "get_session d (detach c b) =
     (if d = c then map_option (\<lambda>s. s\<lparr>ss_out := None\<rparr>) (get_session c b) else get_session d b)"
  by (auto simp: detach_def offline_id split: option.split)

lemma get_take_over:
  "get_session d (snd (take_over cn c identity b)) =
     (if d = c then old_session cn c identity b else get_session d b)"
  "fst (take_over cn c identity b) \<longleftrightarrow> old_session cn c identity b \<noteq> None"
  by (auto simp: take_over_def old_session_def Let_def split: option.split)

lemma take_over_frame [simp, broker_frame]:
  "b_config (snd (take_over cn c identity b)) = b_config b" "b_acl (snd (take_over cn c identity b)) = b_acl b"
  "b_auth (snd (take_over cn c identity b)) = b_auth b"
  "b_retained (snd (take_over cn c identity b)) = b_retained b"
  "b_shared_rr (snd (take_over cn c identity b)) = b_shared_rr b"
  "b_next_epoch (snd (take_over cn c identity b)) = b_next_epoch b"
  "b_tasks (snd (take_over cn c identity b)) = b_tasks b"
  "max_queued (snd (take_over cn c identity b)) = max_queued b"
  by (simp_all add: take_over_def Let_def split: option.split)

lemma session_ok_offline: "session_ok n c s \<Longrightarrow> session_ok n c (s\<lparr>ss_out := None\<rparr>)"
  by (simp add: session_ok_def session_inv_offline queue_ok_def)

lemma session_ok_wipe: "session_ok n c s \<Longrightarrow> session_ok n c (wipe s)"
  by (simp add: session_ok_def wipe_def session_inv_def inflight_ids_def stored_ok_def queue_ok_def)

lemma old_session_ok:
  "broker_inv b \<Longrightarrow> old_session cn c identity b = Some s \<Longrightarrow> session_ok (max_queued b) c s"
  by (auto simp: old_session_def Let_def session_ok_offline session_ok_wipe split: if_splits dest!: inv_session_ok)

lemma hm_wf_detach: "hm_wf (b_sessions b) \<Longrightarrow> hm_wf (b_sessions (detach c b))"
  by (simp add: detach_def split: option.split)

lemma hm_wf_take_over: "hm_wf (b_sessions b) \<Longrightarrow> hm_wf (b_sessions (snd (take_over cn c identity b)))"
  by (auto simp: take_over_def Let_def hm_wf_detach update_session_def split: option.split)

lemma take_over_inv: "broker_inv b \<Longrightarrow> broker_inv (snd (take_over cn c identity b))"
  unfolding broker_inv_def sessions_ok_def
  using old_session_ok [of b cn c identity]
  by (auto simp: get_take_over hm_wf_take_over broker_inv_def sessions_ok_def)

subsection \<open>Re-authorization\<close>

lemma store_all_frame [simp]:
  "b_config (foldl (\<lambda>b x. store (k x) b) b xs) = b_config b" "b_acl (foldl (\<lambda>b x. store (k x) b) b xs) = b_acl b"
  "b_sessions (foldl (\<lambda>b x. store (k x) b) b xs) = b_sessions b"
  "b_retained (foldl (\<lambda>b x. store (k x) b) b xs) = b_retained b"
  "b_shared_rr (foldl (\<lambda>b x. store (k x) b) b xs) = b_shared_rr b"
  "b_next_epoch (foldl (\<lambda>b x. store (k x) b) b xs) = b_next_epoch b"
  "b_tasks (foldl (\<lambda>b x. store (k x) b) b xs) = b_tasks b"
  "max_queued (foldl (\<lambda>b x. store (k x) b) b xs) = max_queued b"
  "b_storage (foldl (\<lambda>b x. store (k x) b) b xs) = b_storage b @ map k xs"
  "broker_inv (foldl (\<lambda>b x. store (k x) b) b xs) = broker_inv b"
  by (induction xs arbitrary: b) simp_all

lemma reauthorize_frame [simp, broker_frame]:
  "b_config (snd (reauthorize P present c s b)) = b_config b" "b_acl (snd (reauthorize P present c s b)) = b_acl b"
  "b_sessions (snd (reauthorize P present c s b)) = b_sessions b"
  "b_retained (snd (reauthorize P present c s b)) = b_retained b"
  "b_shared_rr (snd (reauthorize P present c s b)) = b_shared_rr b"
  "b_next_epoch (snd (reauthorize P present c s b)) = b_next_epoch b"
  "b_tasks (snd (reauthorize P present c s b)) = b_tasks b"
  "max_queued (snd (reauthorize P present c s b)) = max_queued b"
  "broker_inv (snd (reauthorize P present c s b)) = broker_inv b"
  by (simp_all add: reauthorize_def Let_def)

lemma reauthorize_session:
  "\<exists>subs. fst (reauthorize P present c s b) = s\<lparr>ss_subscriptions := subs\<rparr> \<and> set subs \<subseteq> set (ss_subscriptions s)"
proof -
  have same: "s = s\<lparr>ss_subscriptions := ss_subscriptions s\<rparr>" by simp
  show ?thesis
  proof (cases "present \<and> ss_subscriptions s \<noteq> [] \<and> acl_enforced (b_acl b)")
    case True
    then show ?thesis by (intro exI [of _ "filter (\<lambda>x. can_subscribe P (b_acl b) (who_of (ss_identity s)) (sub_filter x)) (ss_subscriptions s)"])
      (auto simp: reauthorize_def Let_def prune_def)
  next
    case False
    then have "fst (reauthorize P present c s b) = s" by (auto simp: reauthorize_def)
    with same show ?thesis by (intro exI [of _ "ss_subscriptions s"]) simp
  qed
qed

text \<open>After re-authorization every subscription of the session passes the policy in force.\<close>

lemma reauthorize_authorized:
  assumes "x \<in> set (ss_subscriptions (fst (reauthorize P present c s b)))"
    and "\<not> present \<Longrightarrow> ss_subscriptions s = []"
  shows "can_subscribe P (b_acl b) (who_of (ss_identity s)) (sub_filter x)"
  using assms by (auto simp: reauthorize_def Let_def prune_def can_subscribe_def split: if_splits)

subsection \<open>The bound session\<close>

text \<open>The session under the client identifier after the section, before and after resumption.\<close>

definition fresh_or_old :: "connect \<Rightarrow> string \<Rightarrow> string option \<Rightarrow> u32 \<Rightarrow> broker \<Rightarrow> session" where
  "fresh_or_old cn c identity expiry b =
     (case old_session cn c identity b of Some s \<Rightarrow> s | None \<Rightarrow> session_new c expiry)"

definition connected_session ::
    "protocol \<Rightarrow> u64 \<Rightarrow> protocol_version \<Rightarrow> connect \<Rightarrow> outtx \<Rightarrow> string option \<Rightarrow> string \<Rightarrow> bool \<Rightarrow> broker \<Rightarrow> session" where
  "connected_session P now v cn out identity c assigned b =
     (let expiry = requested_expiry (b_config b) v cn;
          present = (old_session cn c identity b \<noteq> None);
          s1 = bind_session c assigned cn (b_next_epoch b) expiry out identity (fresh_or_old cn c identity expiry b)
      in (fst (reauthorize P present c s1 b))
           \<lparr>ss_will := map_option (\<lambda>w. (message_from_will now w,
              case pr_will_delay_interval (w_properties w) of None \<Rightarrow> 0 | Some d \<Rightarrow> d)) (cn_will cn)\<rparr>)"

definition resumed_session ::
    "protocol \<Rightarrow> u64 \<Rightarrow> protocol_version \<Rightarrow> connect \<Rightarrow> outtx \<Rightarrow> string option \<Rightarrow> string \<Rightarrow> bool \<Rightarrow> broker \<Rightarrow> session" where
  "resumed_session P now v cn out identity c assigned b =
     (let s = connected_session P now v cn out identity c assigned b
      in if old_session cn c identity b \<noteq> None then snd (resume_delivery P now s) else s)"

lemma count_connected_frame [simp, broker_frame]:
  "b_config (count_connected b) = b_config b" "b_acl (count_connected b) = b_acl b"
  "b_sessions (count_connected b) = b_sessions b" "b_retained (count_connected b) = b_retained b"
  "b_shared_rr (count_connected b) = b_shared_rr b" "b_next_epoch (count_connected b) = b_next_epoch b"
  "b_tasks (count_connected b) = b_tasks b" "broker_inv (count_connected b) = broker_inv b"
  by (simp_all add: count_connected_def Let_def)

lemma old_session_epoch [simp]: "old_session cn c identity (b\<lparr>b_next_epoch := e\<rparr>) = old_session cn c identity b"
  by (simp add: old_session_def)

lemma reauthorize_fst_acl:
  "b_acl b' = b_acl b \<Longrightarrow> fst (reauthorize P present c s b') = fst (reauthorize P present c s b)"
  by (simp add: reauthorize_def Let_def)

lemma bind_connection_sessions:
  "get_session d (snd (bind_connection P now v cn out identity c assigned b)) =
     (if d = c then Some (resumed_session P now v cn out identity c assigned b) else get_session d b)"
proof -
  let ?b1 = "b\<lparr>b_next_epoch := b_next_epoch b + 1\<rparr>"
  have acl: "fst (reauthorize P pr c s (snd (take_over cn c identity ?b1))) = fst (reauthorize P pr c s b)" for pr s
    by (rule reauthorize_fst_acl) simp
  show ?thesis
    by (simp add: bind_connection_def Let_def case_prod_beta get_take_over acl resumed_session_def
        connected_session_def fresh_or_old_def)
qed


lemma session_ok_new: "session_ok n c (session_new c x)"
  unfolding session_ok_def by (simp add: queue_ok_def) (simp add: session_new_def)

lemma session_ok_bind:
  "session_ok n c s \<Longrightarrow> channel_ok out \<Longrightarrow> session_ok n c (bind_session c assigned cn e x out identity s)"
  by (simp add: session_ok_def bind_session_def queue_ok_def session_inv_def inflight_ids_def)

lemma session_ok_reauthorize: "session_ok n c s \<Longrightarrow> session_ok n c (fst (reauthorize P present d s b))"
  using reauthorize_session [of P present d s b] by (auto simp: session_ok_def queue_ok_def)

lemma connected_ok:
  assumes "broker_inv b" and "channel_ok out"
  shows "session_ok (max_queued b) c (connected_session P now v cn out identity c assigned b)"
proof -
  have "session_ok (max_queued b) c (fresh_or_old cn c identity x b)" for x
    by (auto simp: fresh_or_old_def session_ok_new old_session_ok [OF assms(1)] split: option.split)
  from session_ok_reauthorize [OF session_ok_bind [OF this assms(2)]] show ?thesis
    by (simp add: connected_session_def Let_def session_ok_def queue_ok_def)
qed

lemma resumed_ok:
  assumes "broker_inv b" and "channel_ok out"
  shows "session_ok (max_queued b) c (resumed_session P now v cn out identity c assigned b)"
  using connected_ok [OF assms] by (simp add: resumed_session_def Let_def resume_op.op_ok)

lemma resumed_conn:
  "same_conn (connected_session P now v cn out identity c assigned b) (resumed_session P now v cn out identity c assigned b)"
  by (simp add: resumed_session_def Let_def)

lemma connected_fields:
  "ss_epoch (connected_session P now v cn out identity c assigned b) = b_next_epoch b"
  "ss_identity (connected_session P now v cn out identity c assigned b) = identity"
  "is_online (connected_session P now v cn out identity c assigned b)"
  "ss_out (connected_session P now v cn out identity c assigned b) = Some out"
  "ss_session_expiry_interval (connected_session P now v cn out identity c assigned b) = requested_expiry (b_config b) v cn"
proof -
  obtain subs where "fst (reauthorize P pr c s b) = s\<lparr>ss_subscriptions := subs pr s\<rparr>" for pr s
    using reauthorize_session [of P _ c _ b] by metis
  then show "ss_epoch (connected_session P now v cn out identity c assigned b) = b_next_epoch b"
    "ss_identity (connected_session P now v cn out identity c assigned b) = identity"
    "is_online (connected_session P now v cn out identity c assigned b)"
    "ss_out (connected_session P now v cn out identity c assigned b) = Some out"
    "ss_session_expiry_interval (connected_session P now v cn out identity c assigned b) = requested_expiry (b_config b) v cn"
    by (simp_all add: connected_session_def Let_def bind_session_def is_online_def)
qed

lemma resumed_fields:
  "ss_epoch (resumed_session P now v cn out identity c assigned b) = b_next_epoch b"
  "ss_identity (resumed_session P now v cn out identity c assigned b) = identity"
  "is_online (resumed_session P now v cn out identity c assigned b)"
  "ss_session_expiry_interval (resumed_session P now v cn out identity c assigned b) = requested_expiry (b_config b) v cn"
  "ss_subscriptions (resumed_session P now v cn out identity c assigned b)
     = ss_subscriptions (connected_session P now v cn out identity c assigned b)"
  by (simp_all add: same_conn_fields [OF resumed_conn] connected_fields)

lemma resumed_authorized:
  assumes "x \<in> set (ss_subscriptions (resumed_session P now v cn out identity c assigned b))"
  shows "can_subscribe P (b_acl b) (who_of identity) (sub_filter x)"
proof -
  let ?x = "requested_expiry (b_config b) v cn"
  let ?s = "bind_session c assigned cn (b_next_epoch b) ?x out identity (fresh_or_old cn c identity ?x b)"
  let ?pr = "old_session cn c identity b \<noteq> None"
  from assms have x: "x \<in> set (ss_subscriptions (fst (reauthorize P ?pr c ?s b)))"
    by (simp add: resumed_fields connected_session_def Let_def)
  have "\<not> ?pr \<Longrightarrow> ss_subscriptions ?s = []" by (simp add: fresh_or_old_def bind_session_def session_new_def)
  from reauthorize_authorized [OF x this] show ?thesis by (simp add: bind_session_def)
qed

lemma bind_connection_frame [simp, broker_frame]:
  "b_config (snd (bind_connection P now v cn out identity c assigned b)) = b_config b"
  "b_acl (snd (bind_connection P now v cn out identity c assigned b)) = b_acl b"
  "b_retained (snd (bind_connection P now v cn out identity c assigned b)) = b_retained b"
  "b_shared_rr (snd (bind_connection P now v cn out identity c assigned b)) = b_shared_rr b"
  "b_tasks (snd (bind_connection P now v cn out identity c assigned b)) = b_tasks b"
  "b_next_epoch (snd (bind_connection P now v cn out identity c assigned b)) = b_next_epoch b + 1"
  by (simp_all add: bind_connection_def Let_def case_prod_beta)

lemma hm_wf_bind:
  "hm_wf (b_sessions b) \<Longrightarrow> hm_wf (b_sessions (snd (bind_connection P now v cn out identity c assigned b)))"
  by (simp add: bind_connection_def Let_def case_prod_beta hm_wf_take_over)

lemma bind_connection_inv:
  assumes "broker_inv b" and "channel_ok out"
  shows "broker_inv (snd (bind_connection P now v cn out identity c assigned b))"
proof -
  have "max_queued (snd (bind_connection P now v cn out identity c assigned b)) = max_queued b"
    by (simp add: max_queued_def)
  moreover have "session_ok (max_queued b) d s"
    if "get_session d (snd (bind_connection P now v cn out identity c assigned b)) = Some s" for d s
    using that resumed_ok [OF assms] inv_session_ok [OF assms(1)]
    by (auto simp: bind_connection_sessions split: if_splits)
  ultimately show ?thesis
    using assms(1) by (simp add: broker_inv_def sessions_ok_def hm_wf_bind)
qed

lemma bind_connection_epochs:
  assumes "epochs_ok b" and "b_next_epoch b + 1 \<noteq> 0"
  shows "epochs_ok (snd (bind_connection P now v cn out identity c assigned b))"
proof -
  have less: "b_next_epoch b < b_next_epoch b + 1" by (rule u64_less_Suc [OF assms(2)])
  show ?thesis
    using assms(1) less unfolding epochs_ok_def
    by (auto simp: bind_connection_sessions resumed_fields intro: less_trans)
qed

subsection \<open>The whole handler\<close>

lemma resolve_client_id_frame:
  assumes "resolve_client_id now cn b = (r, b')"
  shows "\<exists>n. b' = b\<lparr>b_auto_id_counter := n\<rparr>"
proof (cases "cn_client_id cn = []")
  case True
  with assms show ?thesis by (auto simp: resolve_client_id_def)
next
  case False
  with assms show ?thesis by (intro exI [of _ "b_auto_id_counter b"]) (simp add: resolve_client_id_def)
qed

text \<open>Every outcome of a CONNECT: a refusal that leaves everything but the counter of assigned
  identifiers alone, or an accepted connection bound as above.\<close>

lemma handle_connect_cases:
  obtains (refused) rc n where
      "handle_connect P kdf now cn out identity b = (Inl (connack_new False rc), b\<lparr>b_auto_id_counter := n\<rparr>)"
  | (accepted) v who c assigned n where
      "validate_protocol P cn = Inr v" "authenticate kdf b cn identity = Inr who" "will_authorized P b cn who"
      "resolve_client_id now cn b = ((c, assigned), b\<lparr>b_auto_id_counter := n\<rparr>)" "\<not> reserved_id c"
      "handle_connect P kdf now cn out identity b =
         (Inr (fst (bind_connection P now v cn out who c assigned (b\<lparr>b_auto_id_counter := n\<rparr>))),
          snd (bind_connection P now v cn out who c assigned (b\<lparr>b_auto_id_counter := n\<rparr>)))"
proof -
  have same: "b = b\<lparr>b_auto_id_counter := b_auto_id_counter b\<rparr>" by simp
  obtain c assigned b1 where r: "resolve_client_id now cn b = ((c, assigned), b1)" by (metis prod.collapse)
  from resolve_client_id_frame [OF r] obtain n where b1: "b1 = b\<lparr>b_auto_id_counter := n\<rparr>" by blast
  show thesis
  proof (cases "validate_protocol P cn")
    case (Inl rc)
    with refused [of rc "b_auto_id_counter b"] same show thesis by (simp add: handle_connect_def)
  next
    case v: (Inr v)
    show thesis
    proof (cases "authenticate kdf b cn identity")
      case (Inl rc)
      with v refused [of rc "b_auto_id_counter b"] same show thesis by (simp add: handle_connect_def)
    next
      case who: (Inr who)
      note vw = v who
      show thesis
      proof (cases "will_authorized P b cn who")
        case False
        with vw refused [of NotAuthorized "b_auto_id_counter b"] same show thesis
          by (simp add: handle_connect_def)
      next
        case True
        note wa = True
        show thesis
        proof (cases "reserved_id c")
          case True
          with vw wa r b1 refused [of ClientIdentifierNotValid n] show thesis by (simp add: handle_connect_def)
        next
          case False
          with vw wa r b1 accepted [of v who c assigned n] show thesis
            by (simp add: handle_connect_def case_prod_beta)
        qed
      qed
    qed
  qed
qed

lemma inv_auto_id [simp]: "broker_inv (b\<lparr>b_auto_id_counter := n\<rparr>) = broker_inv b"
  by (simp add: broker_inv_def max_queued_def)

lemma epochs_auto_id [simp]: "epochs_ok (b\<lparr>b_auto_id_counter := n\<rparr>) = epochs_ok b"
  by (simp add: epochs_ok_def)

lemma handle_connect_inv:
  "broker_inv b \<Longrightarrow> channel_ok out \<Longrightarrow> broker_inv (snd (handle_connect P kdf now cn out identity b))"
  by (rule handle_connect_cases [of P kdf now cn out identity b]) (simp_all add: bind_connection_inv)

lemma handle_connect_epochs:
  "epochs_ok b \<Longrightarrow> b_next_epoch b + 1 \<noteq> 0 \<Longrightarrow> epochs_ok (snd (handle_connect P kdf now cn out identity b))"
  by (rule handle_connect_cases [of P kdf now cn out identity b]) (simp_all add: bind_connection_epochs)

lemma handle_connect_counter:
  "b_next_epoch (snd (handle_connect P kdf now cn out identity b)) \<in> {b_next_epoch b, b_next_epoch b + 1}"
  by (rule handle_connect_cases [of P kdf now cn out identity b]) simp_all

lemma old_session_auto [simp]: "old_session cn c identity (b\<lparr>b_auto_id_counter := n\<rparr>) = old_session cn c identity b"
  by (simp add: old_session_def)

lemma fresh_or_old_auto [simp]:
  "fresh_or_old cn c identity x (b\<lparr>b_auto_id_counter := n\<rparr>) = fresh_or_old cn c identity x b"
  by (simp add: fresh_or_old_def)

lemma resumed_auto [simp]:
  "resumed_session P now v cn out identity c assigned (b\<lparr>b_auto_id_counter := n\<rparr>)
     = resumed_session P now v cn out identity c assigned b"
  using reauthorize_fst_acl [of "b\<lparr>b_auto_id_counter := n\<rparr>" b P]
  by (simp add: resumed_session_def connected_session_def Let_def)


subsection \<open>What the new connection finds\<close>

lemma flush_empty: "ss_queue s = [] \<Longrightarrow> flush_queue P now s = (0, s)"
  unfolding flush_queue_def by (subst flush_loop.simps) (simp add: flush_step_def)

lemma resume_nothing:
  assumes "ss_queue s = []" and "inflight_ids s = []"
  shows "snd (resume_delivery P now s) = s"
  using assms by (simp add: resume_delivery_def flush_empty resume_items_def inflight_ids_def)

lemma connected_tables:
  fixes b cn c identity v
  defines "s0 \<equiv> fresh_or_old cn c identity (requested_expiry (b_config b) v cn) b"
  shows "ss_queue (connected_session P now v cn out identity c assigned b) = ss_queue s0"
    "inflight_ids (connected_session P now v cn out identity c assigned b) = inflight_ids s0"
    "ss_inbound_aliases (connected_session P now v cn out identity c assigned b) = ss_inbound_aliases s0"
    "set (ss_subscriptions (connected_session P now v cn out identity c assigned b)) \<subseteq> set (ss_subscriptions s0)"
proof -
  let ?x = "requested_expiry (b_config b) v cn"
  let ?pr = "old_session cn c identity b \<noteq> None"
  let ?s1 = "bind_session c assigned cn (b_next_epoch b) ?x out identity s0"
  obtain subs where r: "fst (reauthorize P ?pr c ?s1 b) = ?s1\<lparr>ss_subscriptions := subs\<rparr>"
    "set subs \<subseteq> set (ss_subscriptions ?s1)" using reauthorize_session [of P ?pr c ?s1 b] by blast
  show "ss_queue (connected_session P now v cn out identity c assigned b) = ss_queue s0"
    "inflight_ids (connected_session P now v cn out identity c assigned b) = inflight_ids s0"
    "ss_inbound_aliases (connected_session P now v cn out identity c assigned b) = ss_inbound_aliases s0"
    "set (ss_subscriptions (connected_session P now v cn out identity c assigned b)) \<subseteq> set (ss_subscriptions s0)"
    using r unfolding connected_session_def Let_def s0_def
    by (simp_all add: bind_session_def inflight_ids_def)
qed

lemma requested_expiry_le: "requested_expiry cfg v cn \<le> cfg_max_session_expiry cfg"
  by (simp add: requested_expiry_def)

lemma bind_connection_accepted:
  "ac_client_id (fst (bind_connection P now v cn out identity c assigned b)) = c"
  "ac_epoch (fst (bind_connection P now v cn out identity c assigned b)) = b_next_epoch b"
  "ac_identity (fst (bind_connection P now v cn out identity c assigned b)) = identity"
  "ca_session_present (ac_connack (fst (bind_connection P now v cn out identity c assigned b)))
     \<longleftrightarrow> old_session cn c identity b \<noteq> None"
  "ca_reason_code (ac_connack (fst (bind_connection P now v cn out identity c assigned b))) = Success"
  by (simp_all add: bind_connection_def Let_def case_prod_beta build_connack_def connack_new_def get_take_over)

lemma detached_frame [simp]:
  "b_detached (store k b) = b_detached b" "b_detached (count_dropped n b) = b_detached b"
  "b_detached (count_connected b) = b_detached b"
  "b_detached (foldl (\<lambda>b x. store (f x) b) b xs) = b_detached b"
  "b_detached (snd (reauthorize P present c s b)) = b_detached b"
proof -
  show st: "b_detached (store k b) = b_detached b" for k b by (simp add: store_def)
  show all: "b_detached (foldl (\<lambda>b x. store (f x) b) b xs) = b_detached b" for f :: "'z \<Rightarrow> command" and b xs
    by (induction xs arbitrary: b) (simp_all add: st)
  show "b_detached (count_dropped n b) = b_detached b" by (simp add: count_dropped_def)
  show "b_detached (count_connected b) = b_detached b" by (simp add: count_connected_def Let_def)
  show "b_detached (snd (reauthorize P present c s b)) = b_detached b"
    by (simp add: reauthorize_def Let_def store_def all [unfolded store_def])
qed

lemma take_over_detached:
  "get_session c b = Some s \<Longrightarrow> ss_out s = Some tx \<Longrightarrow>
   b_detached (snd (take_over cn c identity b)) =
     b_detached b @ [((c, ss_epoch s), snd (try_send tx (Shutdown SessionTakenOver)))]"
  by (simp add: take_over_def detach_def Let_def)

subsection \<open>Properties\<close>

text \<open>C5: the outcomes of a CONNECT. Either it is refused, and nothing changes but the counter of
  assigned identifiers; or the protocol check, the authentication and the Will authorization passed, the
  client identifier is not reserved, the session under it is online and bound to this connection (its
  epoch, its identity), holds only subscriptions the policy in force permits, expires within the server's
  maximum, and no other session changed.\<close>

theorem connect_outcome:
  "(\<exists>rc n. handle_connect P kdf now cn out identity b = (Inl (connack_new False rc), b\<lparr>b_auto_id_counter := n\<rparr>))
   \<or> (\<exists>v who acc s. validate_protocol P cn = Inr v \<and> authenticate kdf b cn identity = Inr who
        \<and> will_authorized P b cn who \<and> fst (handle_connect P kdf now cn out identity b) = Inr acc
        \<and> \<not> reserved_id (ac_client_id acc) \<and> ac_identity acc = who \<and> ac_epoch acc = b_next_epoch b
        \<and> get_session (ac_client_id acc) (snd (handle_connect P kdf now cn out identity b)) = Some s
        \<and> ss_epoch s = ac_epoch acc \<and> ss_identity s = who \<and> is_online s
        \<and> list_all (\<lambda>x. can_subscribe P (b_acl b) (who_of who) (sub_filter x)) (ss_subscriptions s)
        \<and> ss_session_expiry_interval s \<le> cfg_max_session_expiry (b_config b)
        \<and> others_same (ac_client_id acc) b (snd (handle_connect P kdf now cn out identity b)))"
proof (rule handle_connect_cases [of P kdf now cn out identity b])
  fix v who c assigned n
  assume a: "validate_protocol P cn = Inr v" "authenticate kdf b cn identity = Inr who" "will_authorized P b cn who"
    "\<not> reserved_id c"
    "handle_connect P kdf now cn out identity b =
       (Inr (fst (bind_connection P now v cn out who c assigned (b\<lparr>b_auto_id_counter := n\<rparr>))),
        snd (bind_connection P now v cn out who c assigned (b\<lparr>b_auto_id_counter := n\<rparr>)))"
  let ?s = "resumed_session P now v cn out who c assigned b"
  have "list_all (\<lambda>x. can_subscribe P (b_acl b) (who_of who) (sub_filter x)) (ss_subscriptions ?s)"
    using resumed_authorized [of _ P now v cn out who c assigned b] by (simp add: list_all_iff)
  moreover have "others_same c b (snd (bind_connection P now v cn out who c assigned (b\<lparr>b_auto_id_counter := n\<rparr>)))"
    by (simp add: others_same_def bind_connection_sessions)
  ultimately show ?thesis
    using a by (simp add: bind_connection_accepted bind_connection_sessions resumed_fields requested_expiry_le)
qed blast

text \<open>C20: a session taken over by another identity is empty. When a connection resumes a session that
  belonged to a different authenticated identity, it finds no subscription, no queued message and nothing
  in flight, and nothing is sent to it: its channel holds what it held before.\<close>

theorem takeover_by_other_identity:
  assumes "\<not> cn_clean_start cn" and "get_session c b = Some old" and "identity_changed (ss_identity old) identity"
  shows "\<exists>s. get_session c (snd (bind_connection P now v cn out identity c assigned b)) = Some s
    \<and> ss_subscriptions s = [] \<and> ss_queue s = [] \<and> inflight_ids s = [] \<and> sent_items s = ch_buf out"
proof -
  let ?s = "connected_session P now v cn out identity c assigned b"
  from assms have old: "old_session cn c identity b = Some (wipe (old\<lparr>ss_out := None\<rparr>))"
    by (simp add: old_session_def)
  then have e: "ss_queue ?s = []" "inflight_ids ?s = []" "ss_subscriptions ?s = []"
    using connected_tables [where P = P and now = now and v = v and cn = cn and out = out and identity = identity
        and c = c and assigned = assigned and b = b]
    by (simp_all add: fresh_or_old_def wipe_def) (simp_all add: inflight_ids_def)
  then have "resumed_session P now v cn out identity c assigned b = ?s"
    using resume_nothing [OF e(1,2)] by (simp add: resumed_session_def Let_def)
  then show ?thesis
    using e by (simp add: bind_connection_sessions sent_items_def connected_fields)
qed

definition demo_connect :: connect where
  "demo_connect = \<lparr>cn_protocol_name = ''MQTT'', cn_protocol_version = 5, cn_clean_start = False,
     cn_keep_alive = 60, cn_properties = no_properties, cn_client_id = ''c'', cn_will = None,
     cn_username = None, cn_password = None\<rparr>"

theorem takeover_by_other_identity_witness:
  "\<exists>s. get_session ''c'' (snd (bind_connection plain_protocol 0 V5 demo_connect channel_new (Some ''eve'') ''c'' False
          (demo_broker\<lparr>b_sessions := [(''c'', demo_session\<lparr>ss_identity := Some ''bob'', ss_subscriptions := [demo_sub]\<rparr>)]\<rparr>))) = Some s
     \<and> ss_subscriptions s = [] \<and> ss_queue s = [] \<and> inflight_ids s = [] \<and> sent_items s = ch_buf channel_new"
  by (rule takeover_by_other_identity [where old = "demo_session\<lparr>ss_identity := Some ''bob'', ss_subscriptions := [demo_sub]\<rparr>"])
    (simp_all add: demo_connect_def hm_get_Cons identity_changed_def)

text \<open>The replaced connection is told. When the client identifier is in use by an online
  connection, accepting a new one hands the old channel, with the notice \<^verbatim>\<open>SessionTakenOver\<close> appended if it
  had room, over to the closed channels; the CONNACK says that a session is present exactly when the old
  one was kept.\<close>

lemma takeover_notifies:
  assumes "get_session c b = Some old" and "ss_out old = Some tx"
  shows "b_detached (snd (bind_connection P now v cn out identity c assigned b)) =
           b_detached b @ [((c, ss_epoch old), snd (try_send tx (Shutdown SessionTakenOver)))]
         \<and> (ca_session_present (ac_connack (fst (bind_connection P now v cn out identity c assigned b)))
              \<longleftrightarrow> \<not> cn_clean_start cn)"
proof -
  let ?b1 = "b\<lparr>b_next_epoch := b_next_epoch b + 1\<rparr>"
  have "get_session c ?b1 = Some old" using assms(1) by simp
  from take_over_detached [OF this assms(2), of cn identity]
  have "b_detached (snd (bind_connection P now v cn out identity c assigned b)) =
      b_detached b @ [((c, ss_epoch old), snd (try_send tx (Shutdown SessionTakenOver)))]"
    by (simp add: bind_connection_def Let_def case_prod_beta)
  with assms show ?thesis by (simp add: bind_connection_accepted old_session_def)
qed

definition accepted_list :: "(connack + accepted) \<times> broker \<Rightarrow> accepted list" where
  "accepted_list r = (case fst r of Inl _ \<Rightarrow> [] | Inr acc \<Rightarrow> [acc])"

definition credentials_hold :: "pbkdf2_verify \<Rightarrow> credentials \<Rightarrow> connect \<Rightarrow> string \<Rightarrow> bool" where
  "credentials_hold kdf creds cn user \<longleftrightarrow>
     (\<exists>pass st. cn_password cn = Some pass \<and> hm_get user creds = Some st \<and> kdf (sd_iterations st) (sd_salt st) pass (sd_hash st))"

text \<open>C26: authentication. With a credential store, a CONNECT that names a user gets a connection only if that
  user is in the store and the key derivation confirms the password, and then under that user's name whatever its
  certificate says; otherwise it is refused with \<^verbatim>\<open>BadUserNameOrPassword\<close> (an unknown user exactly like a wrong or
  missing password) and the broker is unchanged. A CONNECT that names no user is refused as not authorized
  unless anonymous clients are allowed, and then keeps the identity of its certificate.\<close>

theorem authentication_sound:
  assumes "b_auth b = Some creds" and "validate_protocol P cn = Inr v"
  shows "case cn_username cn of
      Some user \<Rightarrow>
        if credentials_hold kdf creds cn user
        then list_all (\<lambda>acc. ac_identity acc = Some user) (accepted_list (handle_connect P kdf now cn out identity b))
        else handle_connect P kdf now cn out identity b = (Inl (connack_new False BadUserNameOrPassword), b)
    | None \<Rightarrow>
        if cfg_allow_anonymous (b_config b)
        then list_all (\<lambda>acc. ac_identity acc = identity) (accepted_list (handle_connect P kdf now cn out identity b))
        else handle_connect P kdf now cn out identity b = (Inl (connack_new False NotAuthorized), b)"
proof -
  have acc: "list_all (\<lambda>acc. ac_identity acc = who) (accepted_list (handle_connect P kdf now cn out identity b))"
    if "authenticate kdf b cn identity = Inr who" for who
    by (rule handle_connect_cases [of P kdf now cn out identity b])
      (use that in \<open>auto simp: accepted_list_def bind_connection_accepted\<close>)
  have ver: "verify kdf creds user pass \<longleftrightarrow> (\<exists>st. hm_get user creds = Some st \<and> kdf (sd_iterations st) (sd_salt st) pass (sd_hash st))"
    for user pass by (auto simp: verify_def Let_def split: option.splits)
  show ?thesis
  proof (cases "cn_username cn")
    case None
    show ?thesis
    proof (cases "cfg_allow_anonymous (b_config b)")
      case True
      with None assms(1) acc [of identity] show ?thesis by (simp add: authenticate_def)
    next
      case False
      with None assms show ?thesis by (simp add: authenticate_def handle_connect_def)
    qed
  next
    case (Some user)
    show ?thesis
    proof (cases "credentials_hold kdf creds cn user")
      case True
      with Some assms(1) acc [of "Some user"] show ?thesis by (auto simp: authenticate_def credentials_hold_def ver)
    next
      case False
      with Some assms show ?thesis
        by (auto simp: authenticate_def handle_connect_def credentials_hold_def ver split: option.split)
    qed
  qed
qed

definition demo_login :: connect where
  "demo_login = demo_connect\<lparr>cn_username := Some ''bob'', cn_password := Some [1]\<rparr>"

theorem authentication_sound_witness:
  "handle_connect plain_protocol (\<lambda>it salt pw hash. pw = hash) 0 demo_login channel_new (Some ''cert'')
     (demo_broker\<lparr>b_auth := Some [(''bob'', decoy\<lparr>sd_hash := [2]\<rparr>)]\<rparr>)
   = (Inl (connack_new False BadUserNameOrPassword), demo_broker\<lparr>b_auth := Some [(''bob'', decoy\<lparr>sd_hash := [2]\<rparr>)]\<rparr>)"
proof -
  let ?b = "demo_broker\<lparr>b_auth := Some [(''bob'', decoy\<lparr>sd_hash := [2]\<rparr>)]\<rparr>"
  have u: "cn_username demo_login = Some ''bob''" by (simp add: demo_login_def)
  have bad: "\<not> credentials_hold (\<lambda>it salt pw hash. pw = hash) [(''bob'', decoy\<lparr>sd_hash := [2]\<rparr>)] demo_login ''bob''"
    by (simp add: credentials_hold_def demo_login_def hm_get_Cons)
  have "b_auth ?b = Some [(''bob'', decoy\<lparr>sd_hash := [2]\<rparr>)]" "validate_protocol plain_protocol demo_login = Inr V5" by simp_all
  from authentication_sound [OF this, where kdf = "\<lambda>it salt pw hash. pw = hash" and now = 0 and out = channel_new and identity = "Some ''cert''"]
  show ?thesis by (simp add: u bad)
qed

text \<open>Topic aliases outlive the connection that set them. A connection that resumes a session
  without a clean start finds the alias table of the connection before it, also when the identity
  changed.\<close>

lemma aliases_survive_takeover:
  assumes "\<not> cn_clean_start cn" and "get_session c b = Some old"
  shows "\<exists>s. get_session c (snd (bind_connection P now v cn out identity c assigned b)) = Some s
    \<and> ss_inbound_aliases s = ss_inbound_aliases old"
proof -
  from assms have "ss_inbound_aliases (fresh_or_old cn c identity x b) = ss_inbound_aliases old" for x
    by (simp add: fresh_or_old_def old_session_def Let_def wipe_def)
  then have "ss_inbound_aliases (connected_session P now v cn out identity c assigned b) = ss_inbound_aliases old"
    by (simp add: connected_tables)
  then show ?thesis by (simp add: bind_connection_sessions same_conn_fields [OF resumed_conn])
qed

end
