(* ===== verification/Bridging.thy ===== *)
theory Bridging
  imports Connecting
begin

section \<open>The internal interface of bridges and of the status publisher\<close>

text \<open>
  \<^verbatim>\<open>src/src/broker/bridges.rs\<close>: in-process participants that register a session of their own, add
  subscriptions without authorization, and inject messages into routing; and the \<^verbatim>\<open>$SYS\<close> publisher,
  whose messages are retained in memory only.
\<close>

definition register_bridge :: "string \<Rightarrow> outtx \<Rightarrow> broker \<Rightarrow> u64 \<times> broker" where
  "register_bridge c out b =
     (let epoch = b_next_epoch b;
          s = (session_new c 0)\<lparr>ss_epoch := epoch, ss_identity := Some ''$bridge'', ss_out := Some out\<rparr>
      in (epoch, b\<lparr>b_next_epoch := b_next_epoch b + 1, b_sessions := hm_insert c s (b_sessions b)\<rparr>))"

definition bridge_add_subscription :: "string \<Rightarrow> string \<Rightarrow> bool \<Rightarrow> broker \<Rightarrow> broker" where
  "bridge_add_subscription c flt no_local b =
     update_session c
       (\<lambda>s. s\<lparr>ss_subscriptions := ss_subscriptions s @
               [\<lparr>sub_filter = flt, sub_share_name = None, sub_qos = AtMostOnce, sub_no_local = no_local,
                 sub_retain_as_published = True, sub_subscription_identifier = None\<rparr>]\<rparr>) b"

definition inject_publish :: "protocol \<Rightarrow> u64 \<Rightarrow> string \<Rightarrow> message \<Rightarrow> broker \<Rightarrow> broker" where
  "inject_publish P now from m b =
     snd (route P now (Some from) m (if m_retain m then store_retained (m_topic m) m b else b))"

definition bytes_of :: "string \<Rightarrow> bytes" where
  "bytes_of s = map (\<lambda>c. of_nat (of_char c)) s"

definition sys_message :: "string \<Rightarrow> string \<Rightarrow> message" where
  "sys_message topic payload =
     \<lparr>m_topic = topic, m_payload = bytes_of payload, m_qos = AtMostOnce, m_retain = True,
      m_payload_format_indicator = Some 1, m_content_type = None, m_response_topic = None,
      m_correlation_data = None, m_user_properties = [], m_expires_at = None\<rparr>"

fun publish_sys :: "protocol \<Rightarrow> u64 \<Rightarrow> (string \<times> string) list \<Rightarrow> broker \<Rightarrow> broker" where
  "publish_sys P now [] b = b"
| "publish_sys P now ((topic, payload) # rest) b =
     publish_sys P now rest
       (snd (route P now None (sys_message topic payload)
               (b\<lparr>b_retained := hm_insert topic (sys_message topic payload) (b_retained b)\<rparr>)))"

definition deregister_bridge :: "string \<Rightarrow> u64 \<Rightarrow> broker \<Rightarrow> broker" where
  "deregister_bridge c epoch b =
     (if map_option ss_epoch (get_session c b) = Some epoch
      then b\<lparr>b_sessions := hm_remove c (b_sessions b)\<rparr> else b)"

subsection \<open>Invariants\<close>

lemma register_bridge_inv:
  assumes "broker_inv b" and "channel_ok out"
  shows "broker_inv (snd (register_bridge c out b))"
proof -
  have "session_ok n c ((session_new c 0)\<lparr>ss_epoch := e, ss_identity := i, ss_out := Some out\<rparr>)" for n e i
    using session_ok_new [of n c 0] assms(2)
    by (simp add: session_ok_def queue_ok_def session_inv_out)
  with assms(1) show ?thesis
    by (simp add: register_bridge_def Let_def broker_inv_def max_queued_def sessions_ok_insert)
qed

lemma register_bridge_epochs:
  assumes "epochs_ok b" and "b_next_epoch b + 1 \<noteq> 0"
  shows "epochs_ok (snd (register_bridge c out b))"
proof -
  have "b_next_epoch b < b_next_epoch b + 1" by (rule u64_less_Suc [OF assms(2)])
  with assms(1) show ?thesis
    by (auto simp: register_bridge_def Let_def epochs_ok_def intro: less_trans)
qed

interpretation bridge_sub_op: session_op "\<lambda>s. s\<lparr>ss_subscriptions := f s\<rparr>" n for f n
  by unfold_locales (simp_all add: queue_ok_def)

lemma bridge_add_inv: "broker_inv b \<Longrightarrow> broker_inv (bridge_add_subscription c flt nl b)"
  unfolding bridge_add_subscription_def by (rule bridge_sub_op.update_ok) simp_all

lemma bridge_add_epochs: "epochs_ok b \<Longrightarrow> epochs_ok (bridge_add_subscription c flt nl b)"
  unfolding bridge_add_subscription_def by (rule bridge_sub_op.update_epochs)

lemma inject_inv: "broker_inv b \<Longrightarrow> broker_inv (inject_publish P now from m b)"
  by (auto simp: inject_publish_def inv_store_retained intro: inv_route)

lemma inject_epochs: "epochs_ok b \<Longrightarrow> epochs_ok (inject_publish P now from m b)"
  by (auto simp: inject_publish_def intro: route_epochs)

lemma sys_retain_inv:
  "broker_inv b \<Longrightarrow> broker_inv (b\<lparr>b_retained := hm_insert t (sys_message t p) (b_retained b)\<rparr>)"
  by (simp add: broker_inv_def retained_ok_insert sys_message_def)

lemma publish_sys_inv: "broker_inv b \<Longrightarrow> broker_inv (publish_sys P now es b)"
  by (induction es arbitrary: b) (auto simp: sys_retain_inv inv_route)

lemma publish_sys_epochs: "epochs_ok b \<Longrightarrow> epochs_ok (publish_sys P now es b)"
proof (induction es arbitrary: b)
  case (Cons e es)
  obtain t p where e: "e = (t, p)" by (cases e)
  have "epochs_ok (b\<lparr>b_retained := r\<rparr>)" for r using Cons.prems by (simp add: epochs_ok_def)
  with Cons.IH route_epochs e show ?case by simp
qed simp

lemma publish_sys_frame [simp]:
  "b_next_epoch (publish_sys P now es b) = b_next_epoch b" "b_storage (publish_sys P now es b) = b_storage b"
  "b_acl (publish_sys P now es b) = b_acl b" "b_config (publish_sys P now es b) = b_config b"
  by (induction es arbitrary: b) auto

lemma deregister_inv: "broker_inv b \<Longrightarrow> broker_inv (deregister_bridge c e b)"
  by (simp add: deregister_bridge_def inv_remove)

lemma deregister_epochs: "epochs_ok b \<Longrightarrow> epochs_ok (deregister_bridge c e b)"
  by (simp add: deregister_bridge_def epochs_ok_def)

end
