(* ===== verification/Authz.thy ===== *)
theory Authz
  imports Bridging
begin

section \<open>Reloading the access policy\<close>

text \<open>
  \<^verbatim>\<open>src/src/broker/authz.rs\<close>: the swap of the policy and the revocation of subscriptions it no longer
  permits. The policy sits behind a lock of its own, so the swap and the revocation are two steps:
  \<open>swap_acl\<close> and \<open>revoke_unauthorized_subscriptions\<close>; \<open>reload_acl\<close> is their composition.
\<close>

definition revoke_session :: "protocol \<Rightarrow> acl \<Rightarrow> session \<Rightarrow> session \<times> command list" where
  "revoke_session P a s =
     (let who = who_of (ss_identity s);
          gone = revoked P a who s;
          s1 = prune P a who s
      in if gone = [] then (s1, [])
         else (session_send s1 (Shutdown NotAuthorized),
               if ss_persistent s
               then map (\<lambda>x. DeleteSubscription (ss_client_id s) (stored_key x)) gone else []))"

definition revoke_unauthorized_subscriptions :: "protocol \<Rightarrow> acl \<Rightarrow> broker \<Rightarrow> broker" where
  "revoke_unauthorized_subscriptions P a b =
     (if \<not> acl_enforced a then b
      else b\<lparr>b_sessions := hm_map (\<lambda>_ s. fst (revoke_session P a s)) (b_sessions b),
             b_storage := b_storage b
               @ concat (map (\<lambda>(_, s). snd (revoke_session P a s)) (b_sessions b))\<rparr>)"

definition swap_acl :: "acl \<Rightarrow> broker \<Rightarrow> broker" where
  "swap_acl a b = b\<lparr>b_acl := a\<rparr>"

definition reload_acl ::
    "protocol \<Rightarrow> (string \<Rightarrow> string + string) \<Rightarrow> (string \<Rightarrow> string + json) \<Rightarrow> broker \<Rightarrow>
     (load_error + bool) \<times> broker" where
  "reload_acl P read_file toml b =
     (case cfg_acl_path (b_config b) of
        None \<Rightarrow> (Inr False, b)
      | Some path \<Rightarrow>
          (case acl_load P read_file toml path of
             Inl e \<Rightarrow> (Inl e, b)
           | Inr fresh \<Rightarrow> (Inr True, revoke_unauthorized_subscriptions P fresh (swap_acl fresh b))))"

subsection \<open>Invariants\<close>

interpretation revoke_op: session_op "\<lambda>s. fst (revoke_session P a s)" n for P a n
  by unfold_locales (simp_all add: revoke_session_def Let_def prune_def queue_ok_def)

lemma get_revoke:
  "get_session c (revoke_unauthorized_subscriptions P a b) =
     (if acl_enforced a then map_option (\<lambda>s. fst (revoke_session P a s)) (get_session c b) else get_session c b)"
  by (simp add: revoke_unauthorized_subscriptions_def)

lemma revoke_frame [simp]:
  "b_acl (revoke_unauthorized_subscriptions P a b) = b_acl b"
  "b_config (revoke_unauthorized_subscriptions P a b) = b_config b"
  "b_retained (revoke_unauthorized_subscriptions P a b) = b_retained b"
  "b_next_epoch (revoke_unauthorized_subscriptions P a b) = b_next_epoch b"
  "b_tasks (revoke_unauthorized_subscriptions P a b) = b_tasks b"
  "b_shared_rr (revoke_unauthorized_subscriptions P a b) = b_shared_rr b"
  "max_queued (revoke_unauthorized_subscriptions P a b) = max_queued b"
  by (simp_all add: revoke_unauthorized_subscriptions_def)

lemma revoke_inv: "broker_inv b \<Longrightarrow> broker_inv (revoke_unauthorized_subscriptions P a b)"
proof -
  assume inv: "broker_inv b"
  then have "hm_wf (b_sessions (revoke_unauthorized_subscriptions P a b))"
    by (simp add: revoke_unauthorized_subscriptions_def broker_inv_def sessions_ok_def)
  moreover have "session_ok (max_queued b) c s"
    if "get_session c (revoke_unauthorized_subscriptions P a b) = Some s" for c s
    using that inv revoke_op.op_ok by (auto simp: get_revoke dest: inv_session_ok split: if_splits)
  ultimately show ?thesis using inv by (simp add: broker_inv_def sessions_ok_def)
qed

lemma revoke_epochs: "epochs_ok b \<Longrightarrow> epochs_ok (revoke_unauthorized_subscriptions P a b)"
  by (auto simp: epochs_ok_def get_revoke revoke_op.op_epoch split: if_splits)

lemma swap_acl_inv [simp]: "broker_inv (swap_acl a b) = broker_inv b" "epochs_ok (swap_acl a b) = epochs_ok b"
  by (simp_all add: swap_acl_def broker_inv_def max_queued_def epochs_ok_def)

lemma reload_acl_inv: "broker_inv b \<Longrightarrow> broker_inv (snd (reload_acl P rf toml b))"
  by (simp add: reload_acl_def revoke_inv split: option.split sum.split)

lemma reload_acl_epochs: "epochs_ok b \<Longrightarrow> epochs_ok (snd (reload_acl P rf toml b))"
  by (simp add: reload_acl_def revoke_epochs split: option.split sum.split)

lemma revoke_session_subs:
  "ss_subscriptions (fst (revoke_session P a s)) =
     filter (\<lambda>x. can_subscribe P a (who_of (ss_identity s)) (sub_filter x)) (ss_subscriptions s)"
  by (simp add: revoke_session_def Let_def prune_def)

lemma revoke_session_identity [simp]: "ss_identity (fst (revoke_session P a s)) = ss_identity s"
  by (simp add: revoke_session_def Let_def prune_def)

end
