(* ===== verification/Dispatch.thy ===== *)
theory Dispatch
  imports Authz
begin

section \<open>Packet dispatch\<close>

text \<open>
  \<^verbatim>\<open>Broker::handle_packet\<close> of \<^verbatim>\<open>src/src/broker/mod.rs\<close>: the epoch fence in front of every handler, then
  one handler per packet type (\<open>dispatch_packet\<close>). Each handler takes the lock again and repeats the check.
\<close>

definition dispatch_packet ::
    "protocol \<Rightarrow> u64 \<Rightarrow> string \<Rightarrow> u64 \<Rightarrow> packet \<Rightarrow> broker \<Rightarrow> action \<times> broker" where
  "dispatch_packet P now c epoch packet b =
     (case packet of
        Publish p \<Rightarrow> handle_publish P now c epoch p b
      | Puback a \<Rightarrow> handle_puback P now c epoch a b
      | Pubrec a \<Rightarrow> handle_pubrec P c epoch a b
      | Pubrel a \<Rightarrow> handle_pubrel c epoch a b
      | Pubcomp a \<Rightarrow> handle_pubcomp P now c epoch a b
      | Subscribe sub \<Rightarrow> handle_subscribe P now c epoch sub b
      | Unsubscribe u \<Rightarrow> handle_unsubscribe P c epoch u b
      | Pingreq \<Rightarrow> (Continue, push_control c Pingresp b)
      | Disconnect d \<Rightarrow> handle_client_disconnect c epoch d b
      | Connect _ \<Rightarrow> (ServerDisconnect ProtocolError, b)
      | Auth \<Rightarrow> (Continue, b)
      | Connack _ \<Rightarrow> (ServerDisconnect ProtocolError, b)
      | Suback _ \<Rightarrow> (ServerDisconnect ProtocolError, b)
      | Unsuback _ \<Rightarrow> (ServerDisconnect ProtocolError, b)
      | Pingresp \<Rightarrow> (ServerDisconnect ProtocolError, b))"

definition handle_packet ::
    "protocol \<Rightarrow> u64 \<Rightarrow> string \<Rightarrow> u64 \<Rightarrow> packet \<Rightarrow> broker \<Rightarrow> action \<times> broker" where
  "handle_packet P now c epoch packet b =
     (case get_session c b of
        None \<Rightarrow> (Continue, b)
      | Some s \<Rightarrow>
          if ss_epoch s \<noteq> epoch then (Continue, b) else dispatch_packet P now c epoch packet b)"

lemma push_control_send_to: "push_control c p b = send_to c (Control p) b"
  by (simp add: push_control_def send_to_def)

lemma handle_packet_stale: "stale c e b \<Longrightarrow> handle_packet P now c e p b = (Continue, b)"
  by (auto simp: handle_packet_def stale_def split: option.split)

lemmas handler_invs =
  publish_h.keeps_inv puback_h.handler.keeps_inv pubrec_h.handler.keeps_inv pubrel_h.handler.keeps_inv
  pubcomp_h.handler.keeps_inv subscribe_h.keeps_inv unsubscribe_h.keeps_inv disconnect_h.keeps_inv

lemmas handler_epochs =
  publish_h.keeps_epoch puback_h.handler.keeps_epoch pubrec_h.handler.keeps_epoch
  pubrel_h.handler.keeps_epoch pubcomp_h.handler.keeps_epoch subscribe_h.keeps_epoch
  unsubscribe_h.keeps_epoch disconnect_h.keeps_epoch

lemmas handler_counters =
  publish_h.keeps_counter puback_h.handler.keeps_counter pubrec_h.handler.keeps_counter
  pubrel_h.handler.keeps_counter pubcomp_h.handler.keeps_counter subscribe_h.keeps_counter
  unsubscribe_h.keeps_counter disconnect_h.keeps_counter

lemmas ack_handler_defs = handle_puback_def handle_pubrec_def handle_pubrel_def handle_pubcomp_def

text \<open>The handlers behind the fence, as they run when other steps come in between.\<close>

lemma dispatch_packet_inv: "broker_inv b \<Longrightarrow> broker_inv (snd (dispatch_packet P now c e p b))"
  by (simp add: dispatch_packet_def ack_handler_defs handler_invs inv_push_control split: packet.split)

lemma dispatch_packet_epoch:
  "map_option ss_epoch (get_session d (snd (dispatch_packet P now c e p b))) = map_option ss_epoch (get_session d b)"
  unfolding dispatch_packet_def ack_handler_defs push_control_send_to
  by (cases p) (simp_all add: handler_epochs epoch_send_to del: option.map_sel)

lemma dispatch_packet_counter: "b_next_epoch (snd (dispatch_packet P now c e p b)) = b_next_epoch b"
  by (simp add: dispatch_packet_def ack_handler_defs handler_counters push_control_send_to split: packet.split)

interpretation dispatch: packet_handler "handle_packet P now" for P now
proof unfold_locales
  fix c d :: string and e b p
  show "stale c e b \<Longrightarrow> same_but_metrics b (snd (handle_packet P now c e p b))"
    by (simp add: handle_packet_stale)
  show "broker_inv b \<Longrightarrow> broker_inv (snd (handle_packet P now c e p b))"
    by (simp add: handle_packet_def dispatch_packet_inv split: option.split)
  show "map_option ss_epoch (get_session d (snd (handle_packet P now c e p b))) = map_option ss_epoch (get_session d b)"
    by (cases "get_session c b") (simp_all add: handle_packet_def dispatch_packet_epoch)
  show "b_next_epoch (snd (handle_packet P now c e p b)) = b_next_epoch b"
    by (simp add: handle_packet_def dispatch_packet_counter split: option.split)
qed


subsection \<open>Properties\<close>

text \<open>A superseded connection is powerless. Whatever packets a connection sends after its session
  was removed or bound to a newer connection, in any number and at any time, the broker is exactly as it
  would be without them.\<close>

lemma superseded_packets_ignored:
  assumes "stale c e b"
  shows "foldl (\<lambda>b (now, p). snd (handle_packet P now c e p b)) b packets = b"
  by (induction packets) (auto simp: handle_packet_stale [OF assms])

text \<open>The handlers keep the fence themselves. When another connection takes the session over between
  the dispatcher's check and the handler, every handler that can change state does nothing but count. (The
  answer to a PINGREQ is sent without a second check.)\<close>

lemma late_packets_fenced:
  assumes "stale c e b" and "p \<noteq> Pingreq"
  shows "same_but_metrics b (snd (dispatch_packet P now c e p b))"
  using assms
  by (cases p)
    (simp_all add: dispatch_packet_def ack_handler_defs publish_h.fenced subscribe_h.fenced unsubscribe_h.fenced
      disconnect_h.fenced puback_h.handler.fenced pubrec_h.handler.fenced pubrel_h.handler.fenced
      pubcomp_h.handler.fenced)

end
