(* ===== verification/Policy.thy ===== *)
theory Policy
  imports Dispatch
begin

section \<open>Access control across the whole broker\<close>

text \<open>
  The policy invariant \<open>acl_safe\<close>: every subscription of an online session that is not a bridge is
  permitted by the policy in force. This theory shows what each operation does to it. Most operations
  are \<open>quiet\<close>: they neither add subscriptions, nor change identities, nor bring sessions online.
\<close>

definition is_bridge_id :: "string \<Rightarrow> bool" where
  "is_bridge_id c \<longleftrightarrow> starts_with c ''$bridge/''"

definition authorized :: "protocol \<Rightarrow> acl \<Rightarrow> session \<Rightarrow> bool" where
  "authorized P a s \<longleftrightarrow>
     (\<forall>x \<in> set (ss_subscriptions s). can_subscribe P a (who_of (ss_identity s)) (sub_filter x))"

definition acl_safe :: "protocol \<Rightarrow> broker \<Rightarrow> bool" where
  "acl_safe P b \<longleftrightarrow>
     (\<forall>c s. get_session c b = Some s \<and> is_online s \<and> \<not> is_bridge_id c \<longrightarrow> authorized P (b_acl b) s)"

definition calmer :: "session \<Rightarrow> session \<Rightarrow> bool" where
  "calmer s s' \<longleftrightarrow> ss_identity s' = ss_identity s \<and> set (ss_subscriptions s') \<subseteq> set (ss_subscriptions s)
     \<and> (is_online s' \<longrightarrow> is_online s)"

definition quiet :: "broker \<Rightarrow> broker \<Rightarrow> bool" where
  "quiet b b' \<longleftrightarrow> b_acl b' = b_acl b
     \<and> (\<forall>c s'. get_session c b' = Some s' \<longrightarrow> (\<exists>s. get_session c b = Some s \<and> calmer s s'))"

lemma calmer_refl [simp]: "calmer s s"
  by (simp add: calmer_def)

lemma calmer_trans: "calmer a b \<Longrightarrow> calmer b c \<Longrightarrow> calmer a c"
  by (auto simp: calmer_def)

lemma calmer_conn: "same_conn s s' \<Longrightarrow> calmer s s'"
  by (simp add: calmer_def same_conn_fields)

lemma quiet_refl [simp]: "quiet b b"
  by (simp add: quiet_def)

lemma quiet_trans [trans]: "quiet a b \<Longrightarrow> quiet b c \<Longrightarrow> quiet a c"
  by (fastforce simp: quiet_def intro: calmer_trans)

lemma quiet_same: "b_sessions b' = b_sessions b \<Longrightarrow> b_acl b' = b_acl b \<Longrightarrow> quiet b b'"
  by (simp add: quiet_def)

lemma quiet_insert:
  "get_session c b = Some s \<Longrightarrow> calmer s s' \<Longrightarrow> quiet b (b\<lparr>b_sessions := hm_insert c s' (b_sessions b)\<rparr>)"
  by (auto simp: quiet_def)

lemma quiet_update: "(\<And>s. calmer s (f s)) \<Longrightarrow> quiet b (update_session c f b)"
  by (auto simp: quiet_def)

lemma quiet_send_to [simp]: "quiet b (send_to c i b)"
  unfolding send_to_def by (rule quiet_update) (simp add: calmer_conn)

lemma quiet_simps [simp]:
  "quiet b (store k b)" "quiet b (count_dropped n b)" "quiet b (spawn t b)" "quiet b (store_retained tp m b)"
  "quiet b (b\<lparr>b_metrics := mx\<rparr>)" "quiet b (b\<lparr>b_retained := r\<rparr>)" "quiet b (b\<lparr>b_auto_id_counter := n\<rparr>)"
  "quiet b (b\<lparr>b_tasks := ts\<rparr>)" "quiet b (schedule_will c e m d w b)"
  by (rule quiet_same; simp)+

lemma quiet_route [simp]: "quiet b (snd (route P now publisher m b))"
proof -
  have "\<exists>s. get_session c b = Some s \<and> calmer s s'"
    if "get_session c (snd (route P now publisher m b)) = Some s'" for c s'
  proof (cases "get_session c b")
    case None
    with that route_epoch [of c P now publisher m b] show ?thesis by simp
  next
    case (Some s)
    from route_same_conn [OF this, of P now publisher m] that Some show ?thesis by (auto intro: calmer_conn)
  qed
  then show ?thesis by (simp add: quiet_def)
qed

lemma quiet_remove: "quiet b (b\<lparr>b_sessions := hm_remove c (b_sessions b)\<rparr>)"
  by (simp add: quiet_def)

lemma acl_safe_quiet: "quiet b b' \<Longrightarrow> acl_safe P b \<Longrightarrow> acl_safe P b'"
  unfolding acl_safe_def quiet_def calmer_def authorized_def
  by (metis subset_iff)

subsection \<open>Quiet operations\<close>

lemma quiet_retain: "quiet b (if r then store_retained t m b else b)"
  by simp

lemma quiet_route_publish: "quiet b (snd (route_publish P now c p m b))"
proof -
  have upd: "quiet b (update_session c (\<lambda>s. s\<lparr>ss_inbound_qos2 := f s\<rparr>) b)" for f
    by (rule quiet_update) (simp add: calmer_def is_online_def)
  have r: "quiet b (send_to c i (snd (route P now (Some c) m b)))" for i
    by (rule quiet_trans [OF quiet_route quiet_send_to])
  have r2: "quiet b (send_to c i (snd (route P now (Some c) m
      (update_session c (\<lambda>s. s\<lparr>ss_inbound_qos2 := f s\<rparr>) b))))" for f i
    by (rule quiet_trans [OF quiet_trans [OF upd quiet_route] quiet_send_to])
  show ?thesis
    by (simp add: route_publish_def Let_def case_prod_beta r r2 split: qos.split option.split)
qed

lemma quiet_accept_publish: "quiet b (snd (accept_publish P now c p b))"
  unfolding accept_publish_def Let_def by (rule quiet_trans [OF quiet_retain quiet_route_publish])

lemma quiet_authorize_publish: "quiet b (snd (authorize_publish P now c p b))"
  by (simp add: authorize_publish_def Let_def refuse_publish_def quiet_accept_publish split: qos.split)

lemma quiet_resolve_alias: "resolve_alias c s p b = Inr (p', b') \<Longrightarrow> quiet b b'"
  by (auto dest!: resolve_alias_state intro!: quiet_update simp: calmer_def is_online_def)

lemma quiet_handle_publish: "quiet b (snd (handle_publish P now c e p b))"
proof -
  let ?b = "b\<lparr>b_metrics := (b_metrics b)\<lparr>mx_publish_received := mx_publish_received (b_metrics b) + 1\<rparr>\<rparr>"
  have "quiet b (snd (authorize_publish P now c p' b'))" if "resolve_alias c s p ?b = Inr (p', b')" for s p' b'
    by (rule quiet_trans [OF quiet_trans [OF quiet_simps(5) quiet_resolve_alias [OF that]] quiet_authorize_publish])
  then show ?thesis
    by (simp add: handle_publish_def Let_def split: option.split sum.split)
qed

lemma quiet_on_ack: "(\<And>s. calmer s (snd (f s))) \<Longrightarrow> quiet b (snd (on_ack c e f b))"
proof -
  assume "\<And>s. calmer s (snd (f s))"
  then have "quiet b (count_dropped d (b\<lparr>b_sessions := hm_insert c (snd (f s)) (b_sessions b)\<rparr>))"
    if "get_session c b = Some s" for d s
    using quiet_trans [OF quiet_insert [OF that] quiet_simps(2)] by blast
  then show ?thesis by (simp add: on_ack_def case_prod_beta split: option.split)
qed

lemma calmer_flush: "calmer s (snd (flush_queue P now s))"
  by (simp add: calmer_conn)

lemma calmer_ack:
  "calmer s (snd (puback_session P now ack s))" "calmer s (snd (pubrec_session P ack s))"
  "calmer s (snd (pubrel_session ack s))" "calmer s (snd (pubcomp_session P now ack s))"
proof -
  have tables: "calmer s (s\<lparr>ss_awaiting_puback := x\<rparr>)" "calmer s (s\<lparr>ss_awaiting_pubrec := x\<rparr>)"
    "calmer s (s\<lparr>ss_awaiting_pubcomp := y\<rparr>)" "calmer s (s\<lparr>ss_inbound_qos2 := y\<rparr>)"
    "calmer s (s\<lparr>ss_awaiting_pubrec := x, ss_awaiting_pubcomp := y\<rparr>)" for x y
    by (simp_all add: calmer_def is_online_def)
  have send: "calmer t (session_send t i)" for t i by (simp add: calmer_conn)
  show "calmer s (snd (puback_session P now ack s))" "calmer s (snd (pubcomp_session P now ack s))"
    unfolding puback_session_def pubcomp_session_def using calmer_trans [OF _ calmer_flush] tables by blast+
  show "calmer s (snd (pubrec_session P ack s))"
    using tables calmer_trans [OF tables(2) send] calmer_trans [OF tables(5) send] by (simp add: pubrec_session_def Let_def)
  show "calmer s (snd (pubrel_session ack s))"
    using calmer_trans [OF tables(4) send] by (simp add: pubrel_session_def Let_def)
qed

lemma quiet_acks:
  "quiet b (snd (handle_puback P now c e a b))" "quiet b (snd (handle_pubrec P c e a b))"
  "quiet b (snd (handle_pubrel c e a b))" "quiet b (snd (handle_pubcomp P now c e a b))"
  unfolding ack_handler_defs by (rule quiet_on_ack; rule calmer_ack)+

lemma quiet_unsubscribe_loop: "quiet b (snd (unsubscribe_loop P c fs b))"
proof (induction fs arbitrary: b)
  case Nil
  then show ?case by simp
next
  case (Cons flt fs)
  have calm: "calmer s (snd (remove_subscription s g sh))" for s g sh
    by (auto simp: calmer_def remove_subscription_def Let_def is_online_def)
  show ?case
  proof (cases "get_session c b")
    case None
    with Cons show ?thesis by (simp add: Let_def case_prod_beta)
  next
    case (Some s)
    let ?b = "\<lambda>g sh. b\<lparr>b_sessions := hm_insert c (snd (remove_subscription s g sh)) (b_sessions b)\<rparr>"
    have ins: "quiet b (?b g sh)" for g sh by (rule quiet_insert [OF Some calm])
    have "quiet b (snd (unsubscribe_loop P c fs (?b g sh)))"
      "quiet b (snd (unsubscribe_loop P c fs (store k (?b g sh))))" for g sh k
      by (rule quiet_trans [OF ins Cons], rule quiet_trans [OF quiet_trans [OF ins quiet_simps(1)] Cons])
    with Some show ?thesis by (simp add: Let_def case_prod_beta)
  qed
qed

lemma quiet_handle_unsubscribe: "quiet b (snd (handle_unsubscribe P c e u b))"
  by (simp add: handle_unsubscribe_def case_prod_beta quiet_trans [OF quiet_unsubscribe_loop quiet_send_to]
      split: option.split)

lemma quiet_disconnect: "quiet b (snd (handle_client_disconnect c e d b))"
proof -
  have "calmer s (s\<lparr>ss_session_expiry_interval := x\<rparr>)" for s x by (simp add: calmer_def is_online_def)
  then have "quiet b (update_expiry c x b)" for x
    by (auto simp: update_expiry_def Let_def split: option.split
        intro: quiet_insert quiet_trans [OF quiet_insert quiet_simps(1)])
  then show ?thesis by (simp add: handle_client_disconnect_def split: option.split)
qed

lemma quiet_remove_if_idle: "quiet b (remove_if_idle c e b)"
  by (simp add: quiet_def get_remove_if_idle)

lemma quiet_closed: "quiet b (handle_connection_closed c e w b)"
proof -
  have "calmer s (snd (close_session w s))" for s
    by (simp add: close_session_def Let_def go_offline_def calmer_def is_online_def)
  then have ins: "quiet b (b\<lparr>b_sessions := hm_insert c (snd (close_session w s)) (b_sessions b)\<rparr>)"
    if "get_session c b = Some s" for s
    using that by (rule quiet_insert [rotated])
  let ?b = "\<lambda>s. b\<lparr>b_sessions := hm_insert c (snd (close_session w s)) (b_sessions b)\<rparr>"
  have "quiet b (remove_if_idle c e (?b s))" "quiet b (spawn t (?b s))"
    "quiet b (remove_if_idle c e (schedule_will c e m d o' (?b s)))" "quiet b (spawn t (schedule_will c e m d o' (?b s)))"
    if "get_session c b = Some s" for s t m d o'
    using quiet_trans [OF ins [OF that] quiet_remove_if_idle] quiet_trans [OF ins [OF that] quiet_simps(3)]
      quiet_trans [OF quiet_trans [OF ins [OF that] quiet_simps(9)] quiet_remove_if_idle]
      quiet_trans [OF quiet_trans [OF ins [OF that] quiet_simps(9)] quiet_simps(3)] by blast+
  then show ?thesis
    by (simp add: handle_connection_closed_def Let_def case_prod_beta split: option.split)
qed

lemma quiet_run_task: "quiet b (snd (run_task P now t b))"
proof -
  have "quiet b (fire_will P now m owner b)" for m owner
    using quiet_trans [OF quiet_retain quiet_route] by (simp add: fire_will_def)
  then show ?thesis by (cases t) (simp_all add: quiet_remove_if_idle)
qed

lemma quiet_inject: "quiet b (inject_publish P now from m b)"
  unfolding inject_publish_def by (rule quiet_trans [OF quiet_retain quiet_route])

lemma quiet_publish_sys: "quiet b (publish_sys P now es b)"
proof (induction es arbitrary: b)
  case (Cons e es)
  obtain t p where e: "e = (t, p)" by (cases e)
  show ?case unfolding e publish_sys.simps
    by (rule quiet_trans [OF quiet_trans [OF quiet_simps(6) quiet_route] Cons])
qed simp

lemma quiet_deregister: "quiet b (deregister_bridge c e b)"
  by (simp add: deregister_bridge_def quiet_remove)


subsection \<open>Operations that add subscriptions or sessions\<close>

lemma acl_safe_subscribe:
  assumes safe: "acl_safe P b"
  shows "acl_safe P (snd (handle_subscribe P now c e sub b))"
  unfolding acl_safe_def
proof (intro allI impI, elim conjE)
  let ?b' = "snd (handle_subscribe P now c e sub b)"
  fix d s' assume s': "get_session d ?b' = Some s'" "is_online s'" "\<not> is_bridge_id d"
  have step: "own_step c b ?b'" by (rule handle_subscribe_step)
  then have acl: "b_acl ?b' = b_acl b" by (simp add: own_step_def)
  show "authorized P (b_acl ?b') s'"
  proof (cases "d = c \<and> \<not> stale c e b")
    case False
    then have "get_session d ?b' = get_session d b"
      using step by (auto simp: own_step_def stale_def handle_subscribe_def Let_def split: option.split)
    with safe s' acl show ?thesis by (simp add: acl_safe_def)
  next
    case True
    then obtain s where s: "get_session c b = Some s" "ss_epoch s = e" by (auto simp: stale_def)
    from step s s' True have same: "ss_identity s' = ss_identity s" "is_online s"
      by (auto simp: own_step_def)
    have "authorized P (b_acl b) s" using safe s(1) same(2) s'(3) True by (simp add: acl_safe_def)
    moreover note subscribed_authorized [OF handle_subscribe_spec(2) [OF s], of P now sub s']
    ultimately show ?thesis using s' True same(1) by (auto simp: authorized_def acl)
  qed
qed

lemma acl_safe_bind:
  assumes "acl_safe P b"
  shows "acl_safe P (snd (bind_connection P now v cn out identity c assigned b))"
  using assms
  by (auto simp: acl_safe_def bind_connection_sessions authorized_def resumed_fields resumed_authorized
      split: if_splits dest: resumed_authorized)

lemma acl_safe_connect:
  assumes "acl_safe P b"
  shows "acl_safe P (snd (handle_connect P kdf now cn out identity b))"
proof -
  have safe: "acl_safe P (b\<lparr>b_auto_id_counter := n\<rparr>)" for n
    by (rule acl_safe_quiet [OF quiet_simps(7) assms])
  show ?thesis
    by (rule handle_connect_cases [of P kdf now cn out identity b]) (simp_all add: acl_safe_bind [OF safe] safe)
qed

lemma acl_safe_bridge:
  "is_bridge_id c \<Longrightarrow> acl_safe P b \<Longrightarrow> acl_safe P (snd (register_bridge c out b))"
  "is_bridge_id c \<Longrightarrow> acl_safe P b \<Longrightarrow> acl_safe P (bridge_add_subscription c flt nl b)"
  by (auto simp: acl_safe_def register_bridge_def bridge_add_subscription_def Let_def split: if_splits)

text \<open>The revocation establishes the invariant from any state, whatever was allowed before, for bridges
  and offline sessions too.\<close>

lemma revoke_authorized:
  assumes "get_session c (revoke_unauthorized_subscriptions P a b) = Some s"
  shows "authorized P a s"
  using assms by (auto simp: get_revoke authorized_def revoke_session_subs can_subscribe_def split: if_splits)

lemma acl_safe_reload: "acl_safe P b \<Longrightarrow> acl_safe P (snd (reload_acl P rf toml b))"
  by (auto simp: reload_acl_def acl_safe_def swap_acl_def dest: revoke_authorized split: option.split sum.split)

lemma quiet_dispatch:
  assumes "\<nexists>sub. p = Subscribe sub"
  shows "quiet b (snd (dispatch_packet P now c e p b))"
  using assms
  by (cases p) (simp_all add: dispatch_packet_def push_control_send_to quiet_handle_publish quiet_acks
      quiet_handle_unsubscribe quiet_disconnect)

lemma acl_safe_dispatch:
  assumes "acl_safe P b"
  shows "acl_safe P (snd (dispatch_packet P now c e p b))"
proof (cases "\<exists>sub. p = Subscribe sub")
  case True
  with assms show ?thesis by (auto simp: dispatch_packet_def acl_safe_subscribe)
next
  case False
  from acl_safe_quiet [OF quiet_dispatch [OF this] assms] show ?thesis .
qed

lemma acl_safe_packet: "acl_safe P b \<Longrightarrow> acl_safe P (snd (handle_packet P now c e p b))"
  by (simp add: handle_packet_def acl_safe_dispatch split: option.split)

subsection \<open>Who can own a session\<close>

text \<open>Bridge names belong to the bridges: a session under such a name has the bridge identity, and no
  session is ever filed under a \<^verbatim>\<open>$SYS/\<close> name.\<close>

definition ids_ok :: "broker \<Rightarrow> bool" where
  "ids_ok b \<longleftrightarrow>
     (\<forall>c s. get_session c b = Some s \<longrightarrow>
        \<not> starts_with c ''$SYS/'' \<and> (is_bridge_id c \<longrightarrow> ss_identity s = Some ''$bridge''))"

lemma ids_ok_quiet: "quiet b b' \<Longrightarrow> ids_ok b \<Longrightarrow> ids_ok b'"
  unfolding ids_ok_def quiet_def calmer_def by metis

lemma ids_ok_own_step:
  assumes "own_step c b b'" and "ids_ok b"
  shows "ids_ok b'"
  unfolding ids_ok_def
proof (intro allI impI)
  fix d s' assume s': "get_session d b' = Some s'"
  from assms(1) have "map_option ss_identity (get_session d b') = map_option ss_identity (get_session d b)"
    by (cases "d = c") (simp_all add: own_step_def)
  with s' obtain s where "get_session d b = Some s" "ss_identity s = ss_identity s'"
    by (cases "get_session d b") auto
  with assms(2) show "\<not> starts_with d ''$SYS/'' \<and> (is_bridge_id d \<longrightarrow> ss_identity s' = Some ''$bridge'')"
    by (metis ids_ok_def)
qed

lemma ids_ok_bind:
  "ids_ok b \<Longrightarrow> \<not> reserved_id c \<Longrightarrow> ids_ok (snd (bind_connection P now v cn out identity c assigned b))"
  by (auto simp: ids_ok_def bind_connection_sessions reserved_id_def is_bridge_id_def split: if_splits)

lemma ids_ok_connect:
  assumes "ids_ok b"
  shows "ids_ok (snd (handle_connect P kdf now cn out identity b))"
proof -
  have ok: "ids_ok (b\<lparr>b_auto_id_counter := n\<rparr>)" for n by (rule ids_ok_quiet [OF quiet_simps(7) assms])
  show ?thesis
    by (rule handle_connect_cases [of P kdf now cn out identity b]) (simp_all add: ids_ok_bind [OF ok] ok)
qed

lemma ids_ok_dispatch:
  assumes "ids_ok b"
  shows "ids_ok (snd (dispatch_packet P now c e p b))"
proof (cases "\<exists>sub. p = Subscribe sub")
  case True
  with ids_ok_own_step [OF handle_subscribe_step assms] show ?thesis by (auto simp: dispatch_packet_def)
next
  case False
  from ids_ok_quiet [OF quiet_dispatch [OF this] assms] show ?thesis .
qed

lemma ids_ok_packet: "ids_ok b \<Longrightarrow> ids_ok (snd (handle_packet P now c e p b))"
  by (simp add: handle_packet_def ids_ok_dispatch split: option.split)

lemma bridge_not_sys: "is_bridge_id c \<Longrightarrow> \<not> starts_with c ''$SYS/''"
  by (auto simp: is_bridge_id_def starts_with_iff)

lemma ids_ok_bridge:
  "is_bridge_id c \<Longrightarrow> ids_ok b \<Longrightarrow> ids_ok (snd (register_bridge c out b))"
  "ids_ok b \<Longrightarrow> ids_ok (bridge_add_subscription d flt nl b)"
  by (auto simp: ids_ok_def register_bridge_def bridge_add_subscription_def Let_def bridge_not_sys split: if_splits)

lemma ids_ok_reload: "ids_ok b \<Longrightarrow> ids_ok (snd (reload_acl P rf toml b))"
  by (auto simp: reload_acl_def ids_ok_def swap_acl_def get_revoke split: option.split sum.split if_splits)

lemma broker_new_ids: "ids_ok (broker_new P cfg loaded a auth)"
  using restore_sessions_cold [of "[]" P "ld_sessions loaded"]
  by (auto simp: ids_ok_def broker_new_def all_cold_def reserved_id_def is_bridge_id_def)

lemma broker_new_safe: "acl_safe P (broker_new P cfg loaded a auth)"
  using restore_sessions_cold [of "[]" P "ld_sessions loaded"]
  by (auto simp: acl_safe_def broker_new_def all_cold_def)


subsection \<open>Properties\<close>

definition all_authorized :: "protocol \<Rightarrow> broker \<Rightarrow> bool" where
  "all_authorized P b \<longleftrightarrow> (\<forall>c s. get_session c b = Some s \<longrightarrow> authorized P (b_acl b) s)"

text \<open>The loop over hang-up signals in \<^verbatim>\<open>main.rs\<close>: every signal reloads the policy from the file as it is at
  that moment; the result of a reload decides only what is logged.\<close>

primrec sighup_loop ::
    "protocol \<Rightarrow> (string \<Rightarrow> string + json) \<Rightarrow> (string \<Rightarrow> string + string) list \<Rightarrow> broker \<Rightarrow> (load_error + bool) list \<times> broker" where
  "sighup_loop P toml [] b = ([], b)"
| "sighup_loop P toml (read_file # later) b =
     (let (r, b1) = reload_acl P read_file toml b; (rs, b2) = sighup_loop P toml later b1 in (r # rs, b2))"

definition loadable :: "protocol \<Rightarrow> (string \<Rightarrow> string + json) \<Rightarrow> broker \<Rightarrow> (string \<Rightarrow> string + string) \<Rightarrow> acl list" where
  "loadable P toml b read_file =
     (case cfg_acl_path (b_config b) of
        None \<Rightarrow> []
      | Some path \<Rightarrow> (case acl_load P read_file toml path of Inl _ \<Rightarrow> [] | Inr a \<Rightarrow> [a]))"

lemma reload_all_or_nothing:
  "case loadable P toml b read_file of
     [] \<Rightarrow> snd (reload_acl P read_file toml b) = b \<and> fst (reload_acl P read_file toml b) \<noteq> Inr True
   | fresh # _ \<Rightarrow> fst (reload_acl P read_file toml b) = Inr True \<and> b_acl (snd (reload_acl P read_file toml b)) = fresh
        \<and> acl_enforced fresh \<and> all_authorized P (snd (reload_acl P read_file toml b))"
proof (cases "cfg_acl_path (b_config b)")
  case None
  then show ?thesis by (simp add: reload_acl_def loadable_def)
next
  case (Some path)
  show ?thesis
  proof (cases "acl_load P read_file toml path")
    case (Inl e)
    with Some show ?thesis by (simp add: reload_acl_def loadable_def)
  next
    case (Inr fresh)
    then have "acl_enforced fresh"
      by (auto simp: acl_load_def from_toml_str_def acl_from_value_def split: if_splits sum.splits option.splits)
    moreover have "all_authorized P (revoke_unauthorized_subscriptions P fresh (swap_acl fresh b))"
      by (auto simp: all_authorized_def swap_acl_def dest: revoke_authorized)
    ultimately show ?thesis using Some Inr by (simp add: reload_acl_def loadable_def swap_acl_def)
  qed
qed

lemma reload_config: "b_config (snd (reload_acl P read_file toml b)) = b_config b"
  by (simp add: reload_acl_def swap_acl_def split: option.split sum.split)

lemma loadable_config: "b_config b' = b_config b \<Longrightarrow> loadable P toml b' = loadable P toml b"
  by (simp add: loadable_def fun_eq_iff)

lemma loadable_cases: obtains "loadable P toml b rf = []" | a where "loadable P toml b rf = [a]"
  by (cases "cfg_acl_path (b_config b)"; cases "acl_load P rf toml (the (cfg_acl_path (b_config b)))") (simp_all add: loadable_def)


end
