(* ===== verification/Stats.thy ===== *)
theory Stats
  imports Broker "HOL-Library.Char_ord" "HOL-Library.List_Lexorder" "HOL-Library.Multiset"
begin

section \<open>Introspection\<close>

text \<open>
  \<^verbatim>\<open>src/src/broker/stats.rs\<close>: the metrics snapshot, computed in one pass over the sessions and one over
  the retained messages, which also drops the retained messages that have expired; and the two
  listings of the admin surface. Strings are ordered bytewise, as Rust orders them. The uptime read
  from the monotonic clock and the crate's version are arguments of the snapshot.
\<close>

record gauges =
  g_clients_connected :: u64
  g_clients_disconnected :: u64
  g_subscriptions_total :: u64
  g_shared_subscriptions_count :: u64
  g_packet_out_count :: u64
  g_packet_out_bytes :: u64

definition no_gauges :: gauges where
  "no_gauges =
     \<lparr>g_clients_connected = 0, g_clients_disconnected = 0, g_subscriptions_total = 0,
      g_shared_subscriptions_count = 0, g_packet_out_count = 0, g_packet_out_bytes = 0\<rparr>"

definition sum_u64 :: "u64 list \<Rightarrow> u64" where
  "sum_u64 xs = foldl (+) 0 xs"

text \<open>One iteration of the loop over the sessions.\<close>

definition gauge_session :: "gauges \<Rightarrow> session \<Rightarrow> gauges" where
  "gauge_session g s =
     (let g1 = (if is_online s then g\<lparr>g_clients_connected := g_clients_connected g + 1\<rparr>
                else g\<lparr>g_clients_disconnected := g_clients_disconnected g + 1\<rparr>)
      in g1\<lparr>g_subscriptions_total := g_subscriptions_total g1 + of_nat (length (ss_subscriptions s)),
            g_shared_subscriptions_count := g_shared_subscriptions_count g1
              + of_nat (length (filter (\<lambda>x. sub_share_name x \<noteq> None) (ss_subscriptions s))),
            g_packet_out_count := g_packet_out_count g1
              + of_nat (length (ss_queue s) + inflight_count s),
            g_packet_out_bytes := g_packet_out_bytes g1
              + sum_u64 (map (\<lambda>p. of_nat (length (m_payload (pd_message p)))) (ss_queue s))\<rparr>)"

definition is_broker_bookkeeping :: "string \<Rightarrow> config \<Rightarrow> bool" where
  "is_broker_bookkeeping topic cfg \<longleftrightarrow>
     starts_with topic SYS_PREFIX
     \<or> starts_with topic (''wispmq/'' @ cfg_service_name cfg @ ''/'')
     \<or> starts_with topic (cfg_ha_discovery_prefix cfg @ ''/sensor/'' @ cfg_service_name cfg @ ''/'')"

definition purge_retained :: "u64 \<Rightarrow> broker \<Rightarrow> broker" where
  "purge_retained now b = b\<lparr>b_retained := filter (\<lambda>(_, m). \<not> is_expired now m) (b_retained b)\<rparr>"

fun count_retained :: "config \<Rightarrow> u64 \<times> u64 \<Rightarrow> (string \<times> message) list \<Rightarrow> u64 \<times> u64" where
  "count_retained cfg (n, bs) [] = (n, bs)"
| "count_retained cfg (n, bs) ((topic, m) # rest) =
     (if is_broker_bookkeeping topic cfg then count_retained cfg (n, bs) rest
      else count_retained cfg (n + 1, bs + of_nat (length (m_payload m))) rest)"

record snapshot =
  sn_counters :: metrics
  sn_clients_connected :: u64
  sn_clients_disconnected :: u64
  sn_clients_total :: u64
  sn_sessions_total :: u64
  sn_retained_messages :: u64
  sn_retained_bytes :: u64
  sn_subscriptions_total :: u64
  sn_shared_subscriptions_count :: u64
  sn_store_messages_count :: u64
  sn_store_messages_bytes :: u64
  sn_packet_out_count :: u64
  sn_packet_out_bytes :: u64
  sn_uptime_seconds :: u64
  sn_version :: string

text \<open>The counters are read once, after the passes; \<open>sn_counters\<close> holds that reading of all of them.\<close>

definition broker_snapshot :: "u64 \<Rightarrow> u64 \<Rightarrow> string \<Rightarrow> broker \<Rightarrow> snapshot \<times> broker" where
  "broker_snapshot now uptime version b =
     (let g = foldl gauge_session no_gauges (map snd (b_sessions b));
          b' = purge_retained now b;
          (retained_messages, retained_bytes) = count_retained (b_config b') (0, 0) (b_retained b')
      in (\<lparr>sn_counters = b_metrics b',
           sn_clients_connected = g_clients_connected g,
           sn_clients_disconnected = g_clients_disconnected g,
           sn_clients_total = of_nat (length (b_sessions b')),
           sn_sessions_total = of_nat (length (b_sessions b')),
           sn_retained_messages = retained_messages, sn_retained_bytes = retained_bytes,
           sn_subscriptions_total = g_subscriptions_total g,
           sn_shared_subscriptions_count = g_shared_subscriptions_count g,
           sn_store_messages_count = retained_messages + g_packet_out_count g,
           sn_store_messages_bytes = retained_bytes + g_packet_out_bytes g,
           sn_packet_out_count = g_packet_out_count g, sn_packet_out_bytes = g_packet_out_bytes g,
           sn_uptime_seconds = uptime, sn_version = version\<rparr>, b'))"

record client_info =
  ci_client_id :: string
  ci_online :: bool
  ci_subscriptions :: nat
  ci_inflight :: nat
  ci_queued :: nat
  ci_session_expiry :: u32
  ci_persistent :: bool

record retained_info =
  ri_topic :: string
  ri_payload_size :: nat
  ri_qos :: u8

definition client_info_of :: "session \<Rightarrow> client_info" where
  "client_info_of s =
     \<lparr>ci_client_id = ss_client_id s, ci_online = is_online s,
      ci_subscriptions = length (ss_subscriptions s), ci_inflight = inflight_count s,
      ci_queued = length (ss_queue s), ci_session_expiry = ss_session_expiry_interval s,
      ci_persistent = ss_persistent s\<rparr>"

definition clients :: "broker \<Rightarrow> client_info list" where
  "clients b = sort_key ci_client_id (map (\<lambda>(_, s). client_info_of s) (b_sessions b))"

definition retained_info_of :: "string \<times> message \<Rightarrow> retained_info" where
  "retained_info_of e =
     \<lparr>ri_topic = fst e, ri_payload_size = length (m_payload (snd e)), ri_qos = qos_as_u8 (m_qos (snd e))\<rparr>"

definition retained_list :: "u64 \<Rightarrow> broker \<Rightarrow> retained_info list" where
  "retained_list now b =
     sort_key ri_topic
       (map retained_info_of
          (filter (\<lambda>(topic, m). \<not> is_expired now m \<and> \<not> is_broker_bookkeeping topic (b_config b))
             (b_retained b)))"

subsection \<open>The one-pass gauges\<close>

lemma foldl_plus: "foldl (+) (a :: u64) xs = a + sum_list xs"
  by (induction xs arbitrary: a) (simp_all add: add.assoc)

lemma sum_u64_list [simp]: "sum_u64 xs = sum_list xs"
  by (simp add: sum_u64_def foldl_plus)

lemma sum_list_of_nat: "(\<Sum>x \<leftarrow> xs. of_nat (f x)) = (of_nat (\<Sum>x \<leftarrow> xs. f x) :: u64)"
  by (induction xs) simp_all

lemma gauge_session_simps:
  "g_clients_connected (gauge_session g s) = g_clients_connected g + (if is_online s then 1 else 0)"
  "g_clients_disconnected (gauge_session g s) = g_clients_disconnected g + (if is_online s then 0 else 1)"
  "g_subscriptions_total (gauge_session g s) =
     g_subscriptions_total g + of_nat (length (ss_subscriptions s))"
  "g_shared_subscriptions_count (gauge_session g s) = g_shared_subscriptions_count g
     + of_nat (length (filter (\<lambda>x. sub_share_name x \<noteq> None) (ss_subscriptions s)))"
  "g_packet_out_count (gauge_session g s) =
     g_packet_out_count g + of_nat (length (ss_queue s) + inflight_count s)"
  "g_packet_out_bytes (gauge_session g s) = g_packet_out_bytes g
     + of_nat (\<Sum>p \<leftarrow> ss_queue s. length (m_payload (pd_message p)))"
  by (simp_all add: gauge_session_def Let_def sum_list_of_nat)

text \<open>What the loop has accumulated is, in every field, the sum over the sessions (modulo the width of
  the counters).\<close>

lemma gauge_pass:
  "foldl gauge_session g ss =
     \<lparr>g_clients_connected = g_clients_connected g + of_nat (length (filter is_online ss)),
      g_clients_disconnected = g_clients_disconnected g + of_nat (length (filter (\<lambda>s. \<not> is_online s) ss)),
      g_subscriptions_total = g_subscriptions_total g
        + of_nat (sum_list (map (\<lambda>s. length (ss_subscriptions s)) ss)),
      g_shared_subscriptions_count = g_shared_subscriptions_count g
        + of_nat (sum_list (map (\<lambda>s. length (filter (\<lambda>x. sub_share_name x \<noteq> None) (ss_subscriptions s))) ss)),
      g_packet_out_count = g_packet_out_count g
        + of_nat (sum_list (map (\<lambda>s. length (ss_queue s) + inflight_count s) ss)),
      g_packet_out_bytes = g_packet_out_bytes g
        + of_nat (sum_list (map (\<lambda>s. sum_list (map (\<lambda>p. length (m_payload (pd_message p))) (ss_queue s))) ss))\<rparr>"
  by (induction ss arbitrary: g) (simp_all add: gauge_session_simps)

lemma count_retained_pass:
  "count_retained cfg (n, bs) rs =
     (let user = filter (\<lambda>(t, _). \<not> is_broker_bookkeeping t cfg) rs
      in (n + of_nat (length user), bs + of_nat (sum_list (map (\<lambda>(_, m). length (m_payload m)) user))))"
  by (induction cfg "(n, bs)" rs arbitrary: n bs rule: count_retained.induct) (auto simp: Let_def)

lemma purge_simps [simp]:
  "b_sessions (purge_retained now b) = b_sessions b" "b_config (purge_retained now b) = b_config b"
  "b_metrics (purge_retained now b) = b_metrics b" "b_acl (purge_retained now b) = b_acl b"
  "b_next_epoch (purge_retained now b) = b_next_epoch b" "b_storage (purge_retained now b) = b_storage b"
  "b_tasks (purge_retained now b) = b_tasks b" "b_shared_rr (purge_retained now b) = b_shared_rr b"
  by (simp_all add: purge_retained_def)

lemma purge_get:
  "hm_wf (b_retained b) \<Longrightarrow> hm_get t (b_retained (purge_retained now b)) =
     (case hm_get t (b_retained b) of None \<Rightarrow> None | Some m \<Rightarrow> if is_expired now m then None else Some m)"
  by (simp add: purge_retained_def hm_get_filter [of _ _ "\<lambda>_ m. \<not> is_expired now m"] split: option.split)

lemma snapshot_broker [simp]: "snd (broker_snapshot now up v b) = purge_retained now b"
  by (simp add: broker_snapshot_def Let_def case_prod_beta)

lemma purge_inv: "broker_inv b \<Longrightarrow> broker_inv (purge_retained now b)"
  by (auto simp: broker_inv_def retained_ok_def max_queued_def purge_get split: option.splits if_splits)
    (simp add: purge_retained_def)

definition demo_stats :: broker where
  "demo_stats =
     (broker_new plain_protocol config_default \<lparr>ld_retained = [], ld_sessions = []\<rparr> permit_all None)
       \<lparr>b_sessions := [(''c'', session_new ''c'' 0)],
        b_retained := [(''t'', demo_stored_message), (''$SYS/up'', demo_stored_message)]\<rparr>"

text \<open>
  The status snapshot is exact: every gauge of it is the sum, over the sessions the broker holds,
  of what it names (connected plus disconnected clients make up all of them; what is owed to clients is
  what is queued plus what is in flight), the retained gauges count the user's retained messages that
  have not expired, the store gauges add the two up; and taking it removes from memory exactly the
  retained messages that have expired, and nothing else.
\<close>

lemma snapshot_totals:
  assumes "broker_snapshot now up v b = (sn, b')" and "hm_wf (b_retained b)"
  shows "sn_clients_connected sn = of_nat (length (filter is_online (map snd (b_sessions b))))
    \<and> sn_clients_connected sn + sn_clients_disconnected sn = sn_clients_total sn
    \<and> sn_clients_total sn = of_nat (length (b_sessions b))
    \<and> sn_subscriptions_total sn = of_nat (\<Sum>(_, s) \<leftarrow> b_sessions b. length (ss_subscriptions s))
    \<and> sn_packet_out_count sn = of_nat (\<Sum>(_, s) \<leftarrow> b_sessions b. length (ss_queue s) + inflight_count s)
    \<and> sn_retained_messages sn = of_nat (length (retained_list now b))
    \<and> sn_retained_bytes sn = of_nat (\<Sum>r \<leftarrow> retained_list now b. ri_payload_size r)
    \<and> sn_store_messages_count sn = sn_retained_messages sn + sn_packet_out_count sn
    \<and> (\<forall>t. hm_get t (b_retained b') =
         (case hm_get t (b_retained b) of None \<Rightarrow> None | Some m \<Rightarrow> if is_expired now m then None else Some m))
    \<and> b'\<lparr>b_retained := b_retained b\<rparr> = b"
proof -
  let ?ss = "map snd (b_sessions b)"
  let ?user = "filter (\<lambda>(t, m). \<not> is_expired now m \<and> \<not> is_broker_bookkeeping t (b_config b)) (b_retained b)"
  have user: "filter (\<lambda>(t, _). \<not> is_broker_bookkeeping t (b_config b)) (b_retained (purge_retained now b)) = ?user"
    by (simp add: purge_retained_def case_prod_beta conj_commute cong: filter_cong)
  have len: "length (retained_list now b) = length ?user" by (simp add: retained_list_def)
  have "mset (map ri_payload_size (retained_list now b)) = mset (map (\<lambda>(_, m). length (m_payload m)) ?user)"
    by (simp add: retained_list_def retained_info_of_def comp_def case_prod_unfold multiset.map_comp)
  then have bytes: "(\<Sum>r \<leftarrow> retained_list now b. ri_payload_size r) = (\<Sum>(_, m) \<leftarrow> ?user. length (m_payload m))"
    by (metis mset_eq_setD sum_mset_sum_list)
  have all: "of_nat (length (filter is_online ?ss)) + of_nat (length (filter (\<lambda>s. \<not> is_online s) ?ss)) =
      (of_nat (length (b_sessions b)) :: u64)"
    using sum_length_filter_compl [of is_online ?ss] by (simp flip: of_nat_add)
  from assms(1) have b': "b' = purge_retained now b" by (metis snapshot_broker snd_conv)
  from assms(1) have sn: "sn = fst (broker_snapshot now up v b)" by simp
  show ?thesis
    using purge_get [OF assms(2)] all
    by (simp add: b' sn broker_snapshot_def Let_def gauge_pass no_gauges_def count_retained_pass user len bytes
        comp_def case_prod_unfold purge_retained_def)
qed

end
