(* ===== verification/System.thy ===== *)
theory System
  imports Policy Stats
begin

section \<open>The broker as a transition system\<close>

text \<open>
  Every way the state behind the lock can change, as one step relation: an accepted or refused CONNECT,
  a packet through the dispatcher, a packet whose handler runs after the dispatcher's check
  (\<open>step_late\<close>: other steps may come between the two lock sections), the later sections of a DISCONNECT
  and of a closed connection, a timer, the bridge interface, a \<^verbatim>\<open>$SYS\<close> tick, a status snapshot, a policy reload, a
  connection task that drains its channel or goes away, and the accounting that the connection tasks do outside
  the lock (\<open>step_accounting\<close>: counters, rate limiter, channels that have left their session). The clock is read anew in every step. \<open>reachable n\<close>
  holds of the states reached in \<open>n\<close> steps from a start on any database.
\<close>

definition drain :: "nat \<Rightarrow> session \<Rightarrow> session" where
  "drain k s = (case ss_out s of None \<Rightarrow> s
     | Some tx \<Rightarrow> s\<lparr>ss_out := Some (tx\<lparr>ch_buf := drop k (ch_buf tx)\<rparr>)\<rparr>)"

definition hang_up :: "session \<Rightarrow> session" where
  "hang_up s = (case ss_out s of None \<Rightarrow> s | Some tx \<Rightarrow> s\<lparr>ss_out := Some (tx\<lparr>ch_open := False\<rparr>)\<rparr>)"

text \<open>The name under which a bridge registers (\<^verbatim>\<open>format!("$bridge/{}", cfg.name)\<close> in \<^verbatim>\<open>bridge.rs\<close>).\<close>

definition bridge_client :: "string \<Rightarrow> string" where
  "bridge_client name = ''$bridge/'' @ name"

inductive init :: "protocol \<Rightarrow> broker \<Rightarrow> bool" for P where
  "init P (broker_new P cfg (load_all C now d) a auth)"

inductive step :: "protocol \<Rightarrow> pbkdf2_verify \<Rightarrow> broker \<Rightarrow> broker \<Rightarrow> bool" for P kdf where
  step_connect: "step P kdf b (snd (handle_connect P kdf now cn channel_new identity b))"
| step_packet: "step P kdf b (snd (handle_packet P now c e p b))"
| step_late: "step P kdf b (snd (dispatch_packet P now c e p b))"
| step_expiry_section: "step P kdf b (update_expiry c x b)"
| step_closed: "step P kdf b (handle_connection_closed c e w b)"
| step_idle_section: "step P kdf b (remove_if_idle c e b)"
| step_task: "b_tasks b = ts1 @ t # ts2 \<Longrightarrow> run_task P now t (b\<lparr>b_tasks := ts1 @ ts2\<rparr>) = (rest, b') \<Longrightarrow>
    step P kdf b (b'\<lparr>b_tasks := b_tasks b' @ rest\<rparr>)"
| step_register: "channel_ok out \<Longrightarrow> step P kdf b (snd (register_bridge (bridge_client name) out b))"
| step_bridge_sub: "step P kdf b (bridge_add_subscription (bridge_client name) flt nl b)"
| step_inject: "step P kdf b (inject_publish P now (bridge_client name) m b)"
| step_deregister: "step P kdf b (deregister_bridge (bridge_client name) e b)"
| step_sys: "step P kdf b (publish_sys P now es b)"
| step_snapshot: "step P kdf b (snd (broker_snapshot now uptime version b))"
| step_reload: "step P kdf b (snd (reload_acl P read_file toml b))"
| step_drain: "step P kdf b (update_session c (drain k) b)"
| step_hang_up: "step P kdf b (update_session c hang_up b)"
| step_accounting: "step P kdf b (b\<lparr>b_metrics := mx, b_rate_limiter := rl, b_detached := chans\<rparr>)"

inductive reachable :: "protocol \<Rightarrow> pbkdf2_verify \<Rightarrow> nat \<Rightarrow> broker \<Rightarrow> bool" for P kdf where
  reachable_init: "init P b \<Longrightarrow> reachable P kdf 0 b"
| reachable_step: "reachable P kdf n b \<Longrightarrow> step P kdf b b' \<Longrightarrow> reachable P kdf (Suc n) b'"

inductive_cases initE: "init P b"
lemma inv_accounting [simp]:
  "broker_inv (b\<lparr>b_metrics := mx, b_rate_limiter := rl, b_detached := chans\<rparr>) = broker_inv b"
  by (simp add: broker_inv_def max_queued_def)

inductive_cases stepE: "step P kdf b b'"
inductive_simps reachable_0: "reachable P kdf 0 b"
inductive_simps reachable_Suc: "reachable P kdf (Suc n) b"

text \<open>An invariant of the system: it holds initially and every step keeps it.\<close>

locale step_invariant =
  fixes P :: protocol and kdf :: pbkdf2_verify and I :: "broker \<Rightarrow> bool"
  assumes init_I: "init P b \<Longrightarrow> I b"
    and step_I: "I b \<Longrightarrow> step P kdf b b' \<Longrightarrow> I b'"
begin

lemma reachable_I: "reachable P kdf n b \<Longrightarrow> I b"
  by (induction rule: reachable.induct) (auto intro: init_I step_I)

end

interpretation drain_op: session_op "drain k" n for k n
  by unfold_locales
    (auto simp: drain_def queue_ok_def channel_ok_def intro!: session_inv_out dest: session_inv_tx split: option.split)

interpretation hang_up_op: session_op hang_up n for n
  by unfold_locales
    (auto simp: hang_up_def queue_ok_def channel_ok_def intro!: session_inv_out dest: session_inv_tx split: option.split)

lemma inv_tasks [simp]: "broker_inv (b\<lparr>b_tasks := ts\<rparr>) = broker_inv b"
  by (simp add: broker_inv_def)

lemma epochs_tasks [simp]: "epochs_ok (b\<lparr>b_tasks := ts\<rparr>) = epochs_ok b"
  by (simp add: epochs_ok_def)

lemmas step_inv_lemmas =
  handle_connect_inv dispatch.keeps_inv dispatch_packet_inv own_step_facts(1) [OF update_expiry_step]
  connection_closed_inv(1) remove_if_idle_inv register_bridge_inv bridge_add_inv inject_inv
  deregister_inv publish_sys_inv purge_inv reload_acl_inv drain_op.update_ok hang_up_op.update_ok

lemma init_inv: "init P b \<Longrightarrow> broker_inv b" and init_epochs: "init P b \<Longrightarrow> epochs_ok b"
  using broker_new_inv [OF load_all_topics] by (auto elim!: initE)

lemma step_inv: "broker_inv b \<Longrightarrow> step P kdf b b' \<Longrightarrow> broker_inv b'"
proof (erule stepE)
  fix ts1 t ts2 now rest b''
  assume "broker_inv b" "run_task P now t (b\<lparr>b_tasks := ts1 @ ts2\<rparr>) = (rest, b'')"
    "b' = b''\<lparr>b_tasks := b_tasks b'' @ rest\<rparr>"
  then show "broker_inv b'" using run_task_inv [of "b\<lparr>b_tasks := ts1 @ ts2\<rparr>" P now t] by simp
qed (simp_all add: step_inv_lemmas)

interpretation inv: step_invariant P kdf broker_inv for P kdf
  by unfold_locales (auto intro: init_inv step_inv)


subsection \<open>Access control and ownership\<close>

lemma calmer_channel: "calmer s (drain k s)" "calmer s (hang_up s)"
  by (auto simp: calmer_def drain_def hang_up_def is_online_def split: option.split)

lemma quiet_channel: "quiet b (update_session c (drain k) b)" "quiet b (update_session c hang_up b)"
  by (simp_all add: quiet_update calmer_channel)

lemma quiet_update_expiry: "quiet b (update_expiry c x b)"
proof -
  have "calmer s (s\<lparr>ss_session_expiry_interval := y\<rparr>)" for s y by (simp add: calmer_def is_online_def)
  then show ?thesis
    by (auto simp: update_expiry_def Let_def split: option.split
        intro: quiet_insert quiet_trans [OF quiet_insert quiet_simps(1)])
qed

lemma quiet_task_step:
  assumes "run_task P now t (b\<lparr>b_tasks := ts\<rparr>) = (rest, b')"
  shows "quiet b (b'\<lparr>b_tasks := us\<rparr>)"
  using quiet_trans [OF quiet_trans [OF quiet_simps(8) quiet_run_task] quiet_simps(8), of b us P now t ts] assms
  by simp

lemma quiet_snapshot: "quiet b (purge_retained now b)"
  by (rule quiet_same) simp_all

lemma quiet_accounting: "quiet b (b\<lparr>b_metrics := mx, b_rate_limiter := rl, b_detached := chans\<rparr>)"
  by (rule quiet_same) simp_all

lemmas quiet_steps = quiet_accounting quiet_snapshot quiet_update_expiry quiet_closed quiet_remove_if_idle quiet_task_step quiet_inject
  quiet_deregister quiet_publish_sys quiet_channel

lemma bridge_name [simp]: "is_bridge_id (bridge_client name)"
  unfolding is_bridge_id_def bridge_client_def by (rule starts_with_append)

lemma step_acl_safe:
  assumes "acl_safe P b" and "step P kdf b b'"
  shows "acl_safe P b'"
proof -
  have q: "quiet b x \<Longrightarrow> acl_safe P x" for x by (rule acl_safe_quiet [OF _ assms(1)])
  from assms(2) show ?thesis
    by (rule stepE)
      (auto simp only: intro: q quiet_steps acl_safe_connect acl_safe_packet acl_safe_dispatch acl_safe_reload
        acl_safe_bridge bridge_name assms(1))
qed

lemma step_ids_ok:
  assumes "ids_ok b" and "step P kdf b b'"
  shows "ids_ok b'"
proof -
  have q: "quiet b x \<Longrightarrow> ids_ok x" for x by (rule ids_ok_quiet [OF _ assms(1)])
  from assms(2) show ?thesis
    by (rule stepE)
      (auto simp only: intro: q quiet_steps ids_ok_connect ids_ok_packet ids_ok_dispatch ids_ok_reload
        ids_ok_bridge bridge_name assms(1))
qed

interpretation safe: step_invariant P kdf "acl_safe P" for P kdf
  by unfold_locales (auto intro: step_acl_safe elim!: initE simp: broker_new_safe)

interpretation owners: step_invariant P kdf ids_ok for P kdf
  by unfold_locales (auto intro: step_ids_ok elim!: initE simp: broker_new_ids)

subsection \<open>Epochs\<close>

text \<open>What a step does to epochs: a session keeps its epoch or gets the one the counter stood at, and
  the counter moves on when it was used.\<close>

definition epoch_step :: "broker \<Rightarrow> broker \<Rightarrow> bool" where
  "epoch_step b b' \<longleftrightarrow>
     (b_next_epoch b' = b_next_epoch b \<or> b_next_epoch b' = b_next_epoch b + 1)
     \<and> (\<forall>c s'. get_session c b' = Some s' \<longrightarrow>
          ss_epoch s' = b_next_epoch b \<and> b_next_epoch b' = b_next_epoch b + 1
          \<or> map_option ss_epoch (get_session c b) = Some (ss_epoch s'))"

lemma epoch_step_keep:
  assumes "\<And>c. get_session c b' \<noteq> None \<Longrightarrow>
      map_option ss_epoch (get_session c b') = map_option ss_epoch (get_session c b)"
    and "b_next_epoch b' = b_next_epoch b"
  shows "epoch_step b b'"
  unfolding epoch_step_def using assms(2) assms(1) by (metis option.distinct(1) option.simps(9))

lemma epoch_step_update:
  "(\<And>s. ss_epoch (f s) = ss_epoch s) \<Longrightarrow> epoch_step b (update_session c f b)"
  by (rule epoch_step_keep) (simp_all add: option.map_comp comp_def)

lemma epoch_step_own: "own_step c b b' \<Longrightarrow> epoch_step b b'"
  by (rule epoch_step_keep) (simp_all add: own_step_epoch own_step_facts)

lemma epoch_step_route: "b_sessions b1 = b_sessions b \<Longrightarrow> b_next_epoch b1 = b_next_epoch b \<Longrightarrow>
    epoch_step b (snd (route P now publisher m b1))"
  by (rule epoch_step_keep) (simp_all add: route_epoch)

lemma epoch_step_idle: "b_sessions b1 = b_sessions b \<Longrightarrow> b_next_epoch b1 = b_next_epoch b \<Longrightarrow>
    epoch_step b (remove_if_idle c e b1)"
  by (rule epoch_step_keep) (auto simp: get_remove_if_idle split: if_splits)

lemma epoch_step_connect: "epoch_step b (snd (handle_connect P kdf now cn out identity b))"
  by (rule handle_connect_cases [of P kdf now cn out identity b])
    (auto simp: epoch_step_def bind_connection_sessions resumed_fields split: if_splits)

lemma epoch_step_closed: "epoch_step b (handle_connection_closed c e w b)"
proof (rule epoch_step_keep)
  fix d
  have "ss_epoch (snd (close_session w s)) = ss_epoch s" for s by (rule close_op.op_epoch)
  then show "get_session d (handle_connection_closed c e w b) \<noteq> None \<Longrightarrow>
      map_option ss_epoch (get_session d (handle_connection_closed c e w b)) = map_option ss_epoch (get_session d b)"
    by (auto simp: handle_connection_closed_def Let_def case_prod_beta get_remove_if_idle
        split: option.splits if_splits)
qed (rule connection_closed_inv(3))

lemma epoch_step_sys: "epoch_step b (publish_sys P now es b)"
proof (rule epoch_step_keep)
  fix d
  show "map_option ss_epoch (get_session d (publish_sys P now es b)) = map_option ss_epoch (get_session d b)"
    by (induction P now es b rule: publish_sys.induct) (simp_all add: route_epoch)
qed simp

lemma epoch_step_task:
  assumes "run_task P now t (b\<lparr>b_tasks := ts\<rparr>) = (rest, b')"
  shows "epoch_step b (b'\<lparr>b_tasks := us\<rparr>)"
proof -
  have "epoch_step b b'" using assms
    by (cases t) (auto simp: fire_will_def intro: epoch_step_route epoch_step_idle epoch_step_keep split: if_splits)
  then show ?thesis by (simp add: epoch_step_def)
qed

lemma epoch_step_others:
  "epoch_step b (snd (handle_packet P now c e p b))" "epoch_step b (snd (dispatch_packet P now c e p b))"
  "epoch_step b (inject_publish P now from m b)" "epoch_step b (deregister_bridge c e b)"
  "epoch_step b (snd (reload_acl P rf toml b))"
  "epoch_step b (update_session c (drain k) b)" "epoch_step b (update_session c hang_up b)"
  "epoch_step b (bridge_add_subscription c flt nl b)"
proof -
  show "epoch_step b (snd (handle_packet P now c e p b))"
    by (rule epoch_step_keep) (simp_all add: dispatch.keeps_epoch dispatch.keeps_counter)
  show "epoch_step b (snd (dispatch_packet P now c e p b))"
    by (rule epoch_step_keep) (simp_all add: dispatch_packet_epoch dispatch_packet_counter)
  show "epoch_step b (inject_publish P now from m b)"
    unfolding inject_publish_def by (rule epoch_step_route) simp_all
  show "epoch_step b (deregister_bridge c e b)"
    by (rule epoch_step_keep) (auto simp: deregister_bridge_def split: if_splits)
  show "epoch_step b (snd (reload_acl P rf toml b))"
    by (rule epoch_step_keep)
      (auto simp: reload_acl_def get_revoke swap_acl_def revoke_op.op_epoch option.map_comp comp_def
        split: option.split sum.split)
  show "epoch_step b (update_session c (drain k) b)" "epoch_step b (update_session c hang_up b)"
    "epoch_step b (bridge_add_subscription c flt nl b)"
    unfolding bridge_add_subscription_def
    by (rule epoch_step_update; simp add: drain_op.op_epoch hang_up_op.op_epoch)+
qed

lemma epoch_step_snapshot: "epoch_step b (purge_retained now b)"
  by (rule epoch_step_keep) simp_all

lemma epoch_step_accounting: "epoch_step b (b\<lparr>b_metrics := mx, b_rate_limiter := rl, b_detached := chans\<rparr>)"
  by (rule epoch_step_keep) simp_all

lemma epoch_step_register: "epoch_step b (snd (register_bridge c out b))"
  by (auto simp: epoch_step_def register_bridge_def Let_def split: if_splits)

lemma step_epoch_step: "step P kdf b b' \<Longrightarrow> epoch_step b b'"
  by (erule stepE)
    (simp_all add: epoch_step_connect epoch_step_others epoch_step_own [OF update_expiry_step] epoch_step_closed
      epoch_step_idle epoch_step_register epoch_step_snapshot epoch_step_accounting epoch_step_sys epoch_step_task)

lemma epoch_step_ok:
  assumes "epoch_step b b'" and "epochs_ok b" and "b_next_epoch b + 1 \<noteq> 0"
  shows "epochs_ok b'"
proof -
  have "b_next_epoch b < b_next_epoch b + 1" by (rule u64_less_Suc [OF assms(3)])
  note less = this
  show ?thesis unfolding epochs_ok_def
  proof (intro allI impI)
    fix c s' assume s': "get_session c b' = Some s'"
    with assms(1) consider "ss_epoch s' = b_next_epoch b" "b_next_epoch b' = b_next_epoch b + 1"
      | s where "get_session c b = Some s" "ss_epoch s = ss_epoch s'"
      unfolding epoch_step_def by fastforce
    then show "ss_epoch s' < b_next_epoch b'"
    proof cases
      case 1
      with less show ?thesis by simp
    next
      case 2
      with assms(2) have "ss_epoch s' < b_next_epoch b" by (metis epochs_ok_def)
      with less assms(1) show ?thesis by (auto simp: epoch_step_def)
    qed
  qed
qed

text \<open>The counter starts at 1 and moves by at most one per step, so it does not wrap within
  \<open>2 ^ 64 - 2\<close> steps.\<close>

lemma reachable_epochs:
  "reachable P kdf n b \<Longrightarrow> n < 2 ^ 64 - 1 \<Longrightarrow> epochs_ok b \<and> unat (b_next_epoch b) \<le> Suc n"
proof (induction rule: reachable.induct)
  case (reachable_init b)
  then show ?case by (auto simp: init_epochs elim!: initE) (simp add: broker_new_def)
next
  case (reachable_step n b b')
  then have ok: "epochs_ok b" and le: "unat (b_next_epoch b) \<le> Suc n" by simp_all
  from le reachable_step.prems have small: "unat (b_next_epoch b) < 2 ^ 64 - 1" by simp
  then have suc: "unat (b_next_epoch b + 1) = Suc (unat (b_next_epoch b))"
    by (simp add: unat_word_ariths)
  then have "b_next_epoch b + 1 \<noteq> 0" by (metis nat.distinct(1) unsigned_0)
  from epoch_step_ok [OF step_epoch_step [OF reachable_step.hyps(2)] ok this]
    step_epoch_step [OF reachable_step.hyps(2)] suc le
  show ?case by (auto simp: epoch_step_def)
qed

text \<open>A superseded connection stays superseded.\<close>

lemma stale_step:
  assumes "epoch_step b b'" and "stale c e b" and "e < b_next_epoch b"
  shows "stale c e b'"
  unfolding stale_def
proof (intro allI impI)
  fix s' assume "get_session c b' = Some s'"
  with assms(1) consider "ss_epoch s' = b_next_epoch b"
    | s where "get_session c b = Some s" "ss_epoch s = ss_epoch s'"
    unfolding epoch_step_def by fastforce
  then show "ss_epoch s' \<noteq> e"
    using assms(2,3) by cases (auto simp: stale_def)
qed


inductive runs :: "protocol \<Rightarrow> pbkdf2_verify \<Rightarrow> nat \<Rightarrow> broker \<Rightarrow> broker \<Rightarrow> bool" for P kdf where
  runs_refl: "runs P kdf 0 b b"
| runs_step: "runs P kdf n b b' \<Longrightarrow> step P kdf b' b'' \<Longrightarrow> runs P kdf (Suc n) b b''"

lemma reachable_runs: "runs P kdf k b b' \<Longrightarrow> reachable P kdf n b \<Longrightarrow> reachable P kdf (n + k) b'"
  by (induction rule: runs.induct) (auto intro: reachable_step)

lemma counter_mono:
  assumes "epoch_step b b'" and "b_next_epoch b + 1 \<noteq> 0" and "e < b_next_epoch b"
  shows "e < b_next_epoch b'"
  using assms u64_less_Suc [OF assms(2)] by (auto simp: epoch_step_def)

lemma reachable_no_wrap:
  assumes "reachable P kdf n b" and "n < 2 ^ 64 - 2"
  shows "b_next_epoch b + 1 \<noteq> 0"
proof -
  have "unat (b_next_epoch b) \<le> Suc n" using reachable_epochs [OF assms(1)] assms(2) by simp
  then have "unat (b_next_epoch b) < 2 ^ 64 - 1" using assms(2) by simp
  then have "unat (b_next_epoch b + 1) = Suc (unat (b_next_epoch b))" by (simp add: unat_word_ariths)
  then show ?thesis by (metis nat.distinct(1) unsigned_0)
qed

lemma stale_runs:
  "runs P kdf k b b' \<Longrightarrow> reachable P kdf n b \<Longrightarrow> n + k < 2 ^ 64 - 1 \<Longrightarrow> stale c e b \<Longrightarrow> e < b_next_epoch b \<Longrightarrow>
   stale c e b' \<and> e < b_next_epoch b'"
proof (induction rule: runs.induct)
  case (runs_refl b)
  then show ?case by simp
next
  case (runs_step k b b' b'')
  then have ih: "stale c e b'" "e < b_next_epoch b'" by simp_all
  have "reachable P kdf (n + k) b'" by (rule reachable_runs [OF runs_step.hyps(1) runs_step.prems(1)])
  moreover have "n + k < 2 ^ 64 - 2" using runs_step.prems(2) by simp
  ultimately have "b_next_epoch b' + 1 \<noteq> 0" by (rule reachable_no_wrap)
  with ih step_epoch_step [OF runs_step.hyps(2)] show ?case by (auto intro: stale_step counter_mono)
qed

subsection \<open>Properties\<close>

text \<open>A concrete start: an empty database, the default configuration, no policy, no credentials.\<close>

definition demo_codec :: codec where
  "demo_codec = \<lparr>put_utf8 = (\<lambda>s. [0]), utf8_pair = (\<lambda>_. None)\<rparr>"

definition demo_start :: broker where
  "demo_start = broker_new plain_protocol config_default (load_all demo_codec 0 db_empty) permit_all None"

definition demo_kdf :: pbkdf2_verify where
  "demo_kdf = (\<lambda>it salt pw hash. False)"

definition demo_connected :: broker where
  "demo_connected = snd (handle_connect plain_protocol demo_kdf 0 demo_connect channel_new None demo_start)"

lemma demo_start_reachable: "reachable plain_protocol demo_kdf 0 demo_start"
  unfolding demo_start_def by (intro reachable_init init.intros)

lemma demo_connected_reachable: "reachable plain_protocol demo_kdf 1 demo_connected"
  using reachable_step [OF demo_start_reachable step_connect [of plain_protocol demo_kdf demo_start 0 demo_connect None]]
  by (simp add: demo_connected_def)

text \<open>C1: the broker invariant holds in every reachable state, for every interleaving of connections,
  packets, timers, bridges, status ticks and reloads. Every session is filed under its own identifier; its
  identifiers in flight are distinct, never 0, and each belongs to one table; a stored PUBLISH carries its
  own identifier and QoS; the queue holds no QoS 0 message and keeps its bound; the channel keeps its
  bound; every retained message is filed under its own topic.\<close>

theorem reachable_invariant:
  assumes "reachable P kdf n b"
  shows "broker_inv b"
  using assms by (rule inv.reachable_I)

theorem reachable_invariant_witness: "broker_inv demo_connected"
  by (rule reachable_invariant [OF demo_connected_reachable])


definition demo_subscribed :: broker where
  "demo_subscribed = snd (handle_packet plain_protocol 0 ''c'' 1 (Subscribe demo_subscribe) demo_connected)"

lemma demo_subscribed_reachable: "reachable plain_protocol demo_kdf 2 demo_subscribed"
  using reachable_step [OF demo_connected_reachable step_packet [of plain_protocol demo_kdf demo_connected 0 "''c''" 1 "Subscribe demo_subscribe"]]
  by (simp add: demo_subscribed_def numeral_2_eq_2)


text \<open>C4: superseded for good. Once a connection has lost its session (the session is gone, or bound to
  a newer epoch), no later sequence of steps gives it back: every packet it still sends is discarded and
  changes nothing, and neither does its close or the expiry timer it left behind. The bound on the number of
  steps keeps the 64-bit epoch counter from wrapping.\<close>

theorem superseded_forever:
  assumes "reachable P kdf n b" and "runs P kdf k b b'" and "n + k < 2 ^ 64 - 1"
    and "stale c e b" and "e < b_next_epoch b"
  shows "handle_packet P now c e p b' = (Continue, b') \<and> handle_connection_closed c e w b' = b'
    \<and> run_task P now (ExpirySleeping c e secs) b' = ([], b')"
proof -
  have st: "stale c e b'" using stale_runs [OF assms(2,1,3,4,5)] by simp
  then have "handle_connection_closed c e w b' = b'" "remove_if_idle c e b' = b'"
    by (auto simp: stale_def handle_connection_closed_def remove_if_idle_def split: option.split)
  with st show ?thesis by (simp add: handle_packet_stale)
qed

theorem superseded_forever_witness:
  "handle_packet plain_protocol 0 ''c'' 0 Pingreq demo_connected = (Continue, demo_connected)
   \<and> handle_connection_closed ''c'' 0 True demo_connected = demo_connected
   \<and> run_task plain_protocol 0 (ExpirySleeping ''c'' 0 9) demo_connected = ([], demo_connected)"
proof (rule superseded_forever [OF demo_start_reachable])
  show "runs plain_protocol demo_kdf (Suc 0) demo_start demo_connected"
    unfolding demo_connected_def by (rule runs_step [OF runs_refl step_connect])
  show "stale ''c'' 0 demo_start" "0 < b_next_epoch demo_start"
    by (simp_all add: stale_def demo_start_def broker_new_def load_all_def db_empty_def)
qed simp

subsection \<open>How sessions end\<close>

definition survives :: "broker \<Rightarrow> broker \<Rightarrow> bool" where
  "survives b b' \<longleftrightarrow> (\<forall>d. \<not> is_bridge_id d \<longrightarrow> get_session d b \<noteq> None \<longrightarrow> get_session d b' \<noteq> None)"

lemma survives_epoch:
  "(\<And>d. map_option ss_epoch (get_session d b') = map_option ss_epoch (get_session d b)) \<Longrightarrow> survives b b'"
  unfolding survives_def by (metis option.map_disc_iff)

lemma survives_insert: "(\<And>d. get_session d b' = (if d = c then Some x else get_session d b)) \<Longrightarrow> survives b b'"
  by (simp add: survives_def)

lemma survives_update: "survives b (update_session c f b)"
  by (auto simp: survives_def)

lemma survives_connect: "survives b (snd (handle_connect P kdf now cn out identity b))"
  by (rule handle_connect_cases [of P kdf now cn out identity b]) (auto simp: survives_def bind_connection_sessions)

lemma survives_route: "b_sessions b1 = b_sessions b \<Longrightarrow> survives b (snd (route P now publisher m b1))"
  by (rule survives_epoch) (simp add: route_epoch)

lemma survives_sys: "survives b (publish_sys P now es b)"
proof (rule survives_epoch)
  show "map_option ss_epoch (get_session d (publish_sys P now es b)) = map_option ss_epoch (get_session d b)" for d
    by (induction P now es b rule: publish_sys.induct) (simp_all add: route_epoch)
qed

lemma survives_bridge:
  "survives b (snd (register_bridge c out b))" "survives b (bridge_add_subscription c flt nl b)"
  "survives b (deregister_bridge (bridge_client name) e b)"
  by (auto simp: survives_def register_bridge_def Let_def bridge_add_subscription_def deregister_bridge_def)

lemma survives_reload: "survives b (snd (reload_acl P rf toml b))"
  by (auto simp: survives_def reload_acl_def get_revoke swap_acl_def split: option.split sum.split)

lemma survives_accounting: "survives b (b\<lparr>b_metrics := mx, b_rate_limiter := rl, b_detached := chans\<rparr>)"
  by (rule survives_epoch) simp

text \<open>The removal of one session.\<close>

definition removes :: "string \<Rightarrow> session \<Rightarrow> broker \<Rightarrow> broker \<Rightarrow> bool" where
  "removes c s b b' \<longleftrightarrow> (\<not> is_online s \<or> ss_session_expiry_interval s = 0)
     \<and> b_storage b' = b_storage b @ [DeleteSession c]
     \<and> (\<forall>d. d \<noteq> c \<longrightarrow> get_session d b' = get_session d b)"

lemma remove_if_idle_removes:
  assumes "get_session c b = Some s" and "get_session c (remove_if_idle d e b) = None"
  shows "d = c \<and> e = ss_epoch s \<and> removes c s b (remove_if_idle d e b)"
proof -
  from assms have *: "d = c" "ss_epoch s = e" "\<not> is_online s" by (auto simp: get_remove_if_idle split: if_splits)
  with assms(1) have "b_storage (remove_if_idle d e b) = b_storage b @ [DeleteSession c]" by (simp add: expiry_logs)
  with * show ?thesis by (simp add: removes_def get_remove_if_idle)
qed

lemma closed_removes:
  assumes "get_session c b = Some s" and "get_session c (handle_connection_closed d e w b) = None"
  shows "d = c \<and> e = ss_epoch s \<and> removes c s b (handle_connection_closed d e w b)"
proof -
  from assms have d: "d = c" "ss_epoch s = e"
    by (auto simp: handle_connection_closed_def Let_def case_prod_beta get_remove_if_idle split: option.splits if_splits)
  with assms connection_closed_effect [of c b s e w] have x: "ss_session_expiry_interval s = 0" by (simp split: if_splits)
  let ?b1 = "b\<lparr>b_sessions := hm_insert c (snd (close_session w s)) (b_sessions b)\<rparr>"
  let ?b2 = "case fst (close_session w s) of None \<Rightarrow> ?b1 | Some (m, delay, owner) \<Rightarrow> schedule_will c e m delay owner ?b1"
  have b2: "b_sessions ?b2 = b_sessions ?b1" "b_storage ?b2 = b_storage b"
    by (simp_all add: schedule_will_def split: option.split)
  have off: "\<not> is_online (snd (close_session w s))" "ss_epoch (snd (close_session w s)) = e"
      "ss_session_expiry_interval (snd (close_session w s)) = 0"
    using x d by (simp_all add: close_session_def Let_def go_offline_def is_online_def)
  have eq: "handle_connection_closed d e w b = remove_if_idle c e ?b2"
    using assms(1) d off by (simp add: handle_connection_closed_def Let_def case_prod_beta)
  show ?thesis
    unfolding eq using d x off b2 by (simp add: removes_def expiry_logs get_remove_if_idle)
qed

text \<open>The timer that removes a session is the expiry timer of the connection it was bound to.\<close>

lemma task_removes:
  assumes "get_session c b = Some s" and "get_session c (snd (run_task P now t b)) = None" and "\<not> is_bridge_id c"
  shows "\<exists>secs. t = ExpirySleeping c (ss_epoch s) secs \<and> \<not> is_online s \<and> removes c s b (snd (run_task P now t b))"
proof (cases t)
  case (ExpirySleeping d e secs)
  with assms(2) have none: "get_session c (remove_if_idle d e b) = None" by simp
  from remove_if_idle_removes [OF assms(1) none] assms(1) get_remove_if_idle [of c d e b] none ExpirySleeping
  show ?thesis by (auto split: if_splits)
next
  case (WillReady m owner)
  have "survives b (fire_will P now m owner b)"
    using survives_route [of _ b] survives_epoch [of b b] by (simp add: fire_will_def)
  with WillReady assms show ?thesis by (auto simp: survives_def)
next
  case (WillSleeping d e m delay owner)
  with assms show ?thesis by auto
qed


definition demo_idle :: broker where
  "demo_idle = demo_start\<lparr>b_sessions := [(''c'', (session_new ''c'' 9)\<lparr>ss_epoch := 4\<rparr>)], b_tasks := [ExpirySleeping ''c'' 4 9]\<rparr>"


text \<open>Bridge names cannot be claimed. In every reachable state a session under a name in the bridge
  namespace has the bridge identity, and no session is filed under a \<^verbatim>\<open>$SYS/\<close> name, also after a start
  on a tampered database.\<close>

lemma reserved_names_safe:
  assumes "reachable P kdf n b" and "get_session c b = Some s"
  shows "\<not> starts_with c ''$SYS/'' \<and> (if is_bridge_id c then ss_identity s = Some ''$bridge'' else True)"
  using owners.reachable_I [OF assms(1)] assms(2) by (simp add: ids_ok_def)

lemma demo_connected_get: "\<exists>s. get_session ''c'' demo_connected = Some s"
proof -
  have start: "get_session ''c'' demo_start = None" "b_auth demo_start = None"
    by (simp_all add: demo_start_def broker_new_def load_all_def db_empty_def)
  have eq: "demo_connected = snd (bind_connection plain_protocol 0 V5 demo_connect channel_new None ''c'' False demo_start)"
    by (simp add: demo_connected_def handle_connect_def authenticate_def start will_authorized_def demo_connect_def
        resolve_client_id_def reserved_id_def starts_with_def case_prod_beta)
  show ?thesis unfolding eq bind_connection_sessions by simp
qed

text \<open>Epochs are unique. In every reachable state (before the 64-bit counter could wrap) the epoch
  an accepted connection gets is greater than the epoch of every session, so no two connections share one.\<close>

lemma accepted_epoch_fresh:
  assumes "reachable P kdf n b" and "n < 2 ^ 64 - 1"
    and "fst (handle_connect P kdf' now cn out identity b) = Inr acc" and "get_session d b = Some s"
  shows "ss_epoch s < ac_epoch acc"
proof -
  from reachable_epochs [OF assms(1,2)] assms(4) have "ss_epoch s < b_next_epoch b" by (simp add: epochs_ok_def)
  moreover have "ac_epoch acc = b_next_epoch b"
    using assms(3)
    by (cases rule: handle_connect_cases [of P kdf' now cn out identity b]) (auto simp: bind_connection_accepted)
  ultimately show ?thesis by simp
qed

end
