(* ===== verification/Server.thy ===== *)
theory Server
  imports System
begin

section \<open>Connection tasks\<close>

text \<open>
  \<^verbatim>\<open>src/src/server.rs\<close>: the accept loops with their rate limit, and \<^verbatim>\<open>handle_connection\<close>, the task that
  serves one connection. A task is the record \<open>conn\<close>; its phase is where it stands in \<^verbatim>\<open>handle_connection\<close>:
  waiting for the CONNECT, in the loop, between the dispatcher's check and a handler, between the end of
  the loop and \<^verbatim>\<open>handle_connection_closed\<close>, or returned. What the peer and the socket do are arguments: the
  outcome \<open>r\<close> of a read and the outcome \<open>w\<close> of a write (the number of bytes, or an error). \<open>recv\<close> is the
  receiving end of the task's channel, which is in the session while the session is bound to the task, and
  among the detached channels afterwards. \<open>server_step\<close> interleaves the tasks with each other and with
  everything else that runs. The clock of the timeouts counts nanoseconds.
\<close>

subsection \<open>Data\<close>

datatype read_outcome = ReadPacket packet nat | ReadEof | ReadError protocol_error | ReadTimeout

type_synonym write_outcome = "protocol_error + nat"

datatype phase =
    Handshake "string option"
  | Serving
  | Handling packet
  | Closing bool
  | Finished
  | Failed mqtt_error

record conn =
  cx_phase :: phase
  cx_client :: string
  cx_epoch :: u64
  cx_version :: protocol_version
  cx_read_timeout :: u64
  cx_deadline :: nat
  cx_written :: "packet list"

text \<open>\<^verbatim>\<open>Duration::from_secs\<close>.\<close>

definition secs :: "nat \<Rightarrow> nat" where
  "secs n = n * 10 ^ 9"

definition CONNECT_TIMEOUT :: nat where
  "CONNECT_TIMEOUT = secs 15"

definition conn_new :: "nat \<Rightarrow> string option \<Rightarrow> conn" where
  "conn_new time identity =
     \<lparr>cx_phase = Handshake identity, cx_client = [], cx_epoch = 0, cx_version = V5, cx_read_timeout = 0,
      cx_deadline = time + CONNECT_TIMEOUT, cx_written = []\<rparr>"

subsection \<open>The socket and the channel\<close>

definition count_received :: "packet \<Rightarrow> nat \<Rightarrow> broker \<Rightarrow> broker" where
  "count_received p n b = b\<lparr>b_metrics := record_received (packet_type p) n (b_metrics b)\<rparr>"

fun count_payload_received :: "packet \<Rightarrow> broker \<Rightarrow> broker" where
  "count_payload_received (Publish p) b =
     b\<lparr>b_metrics := (b_metrics b)\<lparr>mx_publish_bytes_received :=
         mx_publish_bytes_received (b_metrics b) + of_nat (length (pub_payload p))\<rparr>\<rparr>"
| "count_payload_received _ b = b"

fun count_payload_sent :: "packet \<Rightarrow> metrics \<Rightarrow> metrics" where
  "count_payload_sent (Publish p) m =
     m\<lparr>mx_publish_bytes_sent := mx_publish_bytes_sent m + of_nat (length (pub_payload p))\<rparr>"
| "count_payload_sent _ m = m"

definition server_send ::
    "packet \<Rightarrow> write_outcome \<Rightarrow> conn \<times> broker \<Rightarrow> mqtt_error option \<times> conn \<times> broker" where
  "server_send p w cb =
     (case w of
        Inl e \<Rightarrow> (Some (error_from_protocol e), cb)
      | Inr n \<Rightarrow>
          (None, (fst cb)\<lparr>cx_written := cx_written (fst cb) @ [p]\<rparr>,
           (snd cb)\<lparr>b_metrics :=
              count_payload_sent p (record_sent (packet_type p) n (b_metrics (snd cb)))\<rparr>))"

text \<open>\<^verbatim>\<open>if version.is_v5() { let _ = send(DISCONNECT) }\<close>.\<close>

definition send_disconnect :: "reason_code \<Rightarrow> write_outcome \<Rightarrow> conn \<times> broker \<Rightarrow> conn \<times> broker" where
  "send_disconnect rc w cb =
     (if is_v5 (cx_version (fst cb))
      then snd (server_send (Disconnect \<lparr>dc_reason_code = rc, dc_properties = no_properties\<rparr>) w cb)
      else cb)"

text \<open>\<^verbatim>\<open>rx.recv()\<close>: \<open>None\<close> while the channel is open and empty, \<open>Some None\<close> when every sender is gone and
  nothing is left.\<close>

definition owns :: "string \<Rightarrow> u64 \<Rightarrow> broker \<Rightarrow> bool" where
  "owns c e b \<longleftrightarrow>
     (case get_session c b of None \<Rightarrow> False | Some s \<Rightarrow> ss_epoch s = e \<and> is_online s)"

definition buffered :: "string \<Rightarrow> broker \<Rightarrow> outgoing list" where
  "buffered c b =
     (case get_session c b of
        None \<Rightarrow> []
      | Some s \<Rightarrow> (case ss_out s of None \<Rightarrow> [] | Some tx \<Rightarrow> ch_buf tx))"

definition recv :: "string \<Rightarrow> u64 \<Rightarrow> broker \<Rightarrow> outgoing option option \<times> broker" where
  "recv c e b =
     (if owns c e b then
        (case buffered c b of
           [] \<Rightarrow> (None, b)
         | x # xs \<Rightarrow> (Some (Some x), update_session c (drain 1) b))
      else
        (case hm_get (c, e) (b_detached b) of
           None \<Rightarrow> (Some None, b)
         | Some tx \<Rightarrow>
             (case ch_buf tx of
                [] \<Rightarrow> (Some None, b)
              | x # xs \<Rightarrow>
                  (Some (Some x), b\<lparr>b_detached := hm_insert (c, e) (tx\<lparr>ch_buf := xs\<rparr>) (b_detached b)\<rparr>))))"

text \<open>A task that returns drops its end of the channel.\<close>

definition drop_receiver :: "string \<Rightarrow> u64 \<Rightarrow> broker \<Rightarrow> broker" where
  "drop_receiver c e b = (if owns c e b then update_session c hang_up b else b)"

subsection \<open>One task\<close>

definition await_next :: "nat \<Rightarrow> conn \<Rightarrow> conn" where
  "await_next time cx = cx\<lparr>cx_phase := Serving, cx_deadline := time + secs (unat (cx_read_timeout cx))\<rparr>"

definition finish :: "phase \<Rightarrow> conn \<times> broker \<Rightarrow> conn \<times> broker" where
  "finish ph cb = ((fst cb)\<lparr>cx_phase := ph\<rparr>, snd cb)"

text \<open>\<^verbatim>\<open>send(...).await?\<close>: an error ends the task at once.\<close>

definition send_or_fail :: "nat \<Rightarrow> packet \<Rightarrow> write_outcome \<Rightarrow> conn \<times> broker \<Rightarrow> conn \<times> broker" where
  "send_or_fail time p w cb =
     (case server_send p w cb of
        (None, cx, b) \<Rightarrow> (await_next time cx, b)
      | (Some e, cx, b) \<Rightarrow> (cx\<lparr>cx_phase := Failed e\<rparr>, drop_receiver (cx_client cx) (cx_epoch cx) b))"

definition read_timeout_of :: "u16 \<Rightarrow> u64" where
  "read_timeout_of keep_alive =
     (if keep_alive = 0 then 3600 * 24 * 365 else (ucast keep_alive * 3) div 2 + 1)"

definition conn_connect ::
    "protocol \<Rightarrow> pbkdf2_verify \<Rightarrow> u64 \<Rightarrow> nat \<Rightarrow> string option \<Rightarrow> connect \<Rightarrow> write_outcome \<Rightarrow> conn \<times> broker \<Rightarrow>
     conn \<times> broker" where
  "conn_connect P kdf now time identity cn w cb =
     (let v = (case version_from_level P (cn_protocol_version cn) of None \<Rightarrow> V3_1_1 | Some v \<Rightarrow> v);
          cx = (fst cb)\<lparr>cx_version := v\<rparr>
      in (case handle_connect P kdf now cn channel_new identity (snd cb) of
            (Inl connack, b) \<Rightarrow>
              let (err, cb') = server_send (Connack connack) w (cx, b)
              in finish (case err of None \<Rightarrow> Finished | Some e \<Rightarrow> Failed e) cb'
          | (Inr acc, b) \<Rightarrow>
              send_or_fail time (Connack (ac_connack acc)) w
                (cx\<lparr>cx_client := ac_client_id acc, cx_epoch := ac_epoch acc,
                    cx_read_timeout := read_timeout_of (ac_keep_alive acc)\<rparr>, b)))"

definition conn_handshake ::
    "protocol \<Rightarrow> pbkdf2_verify \<Rightarrow> u64 \<Rightarrow> nat \<Rightarrow> string option \<Rightarrow> read_outcome \<Rightarrow> write_outcome \<Rightarrow> conn \<times> broker \<Rightarrow>
     conn \<times> broker" where
  "conn_handshake P kdf now time identity r w cb =
     (case r of
        ReadPacket p n \<Rightarrow>
          let b = count_received p n (snd cb)
          in (case p of
                Connect cn \<Rightarrow> conn_connect P kdf now time identity cn w (fst cb, b)
              | _ \<Rightarrow> finish (Failed (Protocol (''first packet was '' @ packet_name P p @ '' not CONNECT''))) (fst cb, b))
      | ReadEof \<Rightarrow> finish Finished cb
      | ReadError e \<Rightarrow> finish (Failed (error_from_protocol e)) cb
      | ReadTimeout \<Rightarrow> finish (Failed (Protocol ''CONNECT timeout'')) cb)"

definition conn_out :: "nat \<Rightarrow> outgoing option \<Rightarrow> write_outcome \<Rightarrow> conn \<times> broker \<Rightarrow> conn \<times> broker" where
  "conn_out time item w cb =
     (case item of
        Some (Send p) \<Rightarrow> send_or_fail time (Publish p) w cb
      | Some (Control p) \<Rightarrow> send_or_fail time p w cb
      | Some (Shutdown rc) \<Rightarrow> finish (Closing False) (send_disconnect rc w cb)
      | None \<Rightarrow> finish (Closing True) cb)"

text \<open>A packet is counted, then checked against the session's epoch (the first section of
  \<^verbatim>\<open>handle_packet\<close>); \<open>conn_handle\<close> is the rest.\<close>

definition conn_read ::
    "protocol \<Rightarrow> nat \<Rightarrow> read_outcome \<Rightarrow> write_outcome \<Rightarrow> conn \<times> broker \<Rightarrow> conn \<times> broker" where
  "conn_read P time r w cb =
     (case r of
        ReadPacket p n \<Rightarrow>
          let b = count_payload_received p (count_received p n (snd cb))
          in if stale (cx_client (fst cb)) (cx_epoch (fst cb)) b then (await_next time (fst cb), b)
             else finish (Handling p) (fst cb, b)
      | ReadEof \<Rightarrow> finish (Closing True) cb
      | ReadError e \<Rightarrow> finish (Closing True) (send_disconnect (framing_reason_code P e) w cb)
      | ReadTimeout \<Rightarrow> finish (Closing True) (send_disconnect KeepAliveTimeout w cb))"

definition conn_handle ::
    "protocol \<Rightarrow> u64 \<Rightarrow> nat \<Rightarrow> packet \<Rightarrow> write_outcome \<Rightarrow> conn \<times> broker \<Rightarrow> conn \<times> broker" where
  "conn_handle P now time p w cb =
     (case dispatch_packet P now (cx_client (fst cb)) (cx_epoch (fst cb)) p (snd cb) of
        (Continue, b) \<Rightarrow> (await_next time (fst cb), b)
      | (ServerDisconnect rc, b) \<Rightarrow> finish (Closing True) (send_disconnect rc w (fst cb, b))
      | (ClientDisconnect pw, b) \<Rightarrow> finish (Closing pw) (fst cb, b))"

definition conn_close :: "bool \<Rightarrow> conn \<times> broker \<Rightarrow> conn \<times> broker" where
  "conn_close publish_will cb =
     finish Finished
       (fst cb, handle_connection_closed (cx_client (fst cb)) (cx_epoch (fst cb)) publish_will (snd cb))"

text \<open>One accepted socket: counted, rate limited, and given a task. \<open>identity\<close> is the common name of the
  peer's certificate, if it presented one; \<open>None\<close> for the task stands for a failed TLS or WebSocket
  handshake.\<close>

definition accept_socket ::
    "nat \<Rightarrow> nat \<Rightarrow> ip_addr \<Rightarrow> string option option \<Rightarrow> broker \<Rightarrow> conn option \<times> broker" where
  "accept_socket clock time ip upgraded b =
     (let mx = (b_metrics b)\<lparr>mx_socket_connections := mx_socket_connections (b_metrics b) + 1\<rparr>;
          (admitted, rl) = check (b_rate_limiter b) clock ip
      in if admitted
         then (map_option (conn_new time) upgraded, b\<lparr>b_metrics := mx, b_rate_limiter := rl\<rparr>)
         else (None, b\<lparr>b_metrics := mx\<lparr>mx_connections_rate_limited := mx_connections_rate_limited mx + 1\<rparr>,
                       b_rate_limiter := rl\<rparr>))"

text \<open>The cleanup task of the rate limiter (\<^verbatim>\<open>ratelimit::run\<close>): \<open>None\<close> when the limiter is off and the task ends at
  once, else the seconds between two sweeps, twice the window.\<close>

definition sweep_period :: "config \<Rightarrow> nat option" where
  "sweep_period cfg =
     (if cfg_max_connections_per_ip cfg = 0 then None else Some (unat (cfg_connection_rate_window_secs cfg) * 2))"

subsection \<open>All tasks\<close>

record server =
  sv_broker :: broker
  sv_conns :: "conn list"

text \<open>One step of one task. A read times out only when its time is up.\<close>

inductive conn_step :: "protocol \<Rightarrow> pbkdf2_verify \<Rightarrow> conn \<times> broker \<Rightarrow> conn \<times> broker \<Rightarrow> bool" for P kdf where
  handshake: "cx_phase cx = Handshake identity \<Longrightarrow> (r = ReadTimeout \<Longrightarrow> cx_deadline cx \<le> time) \<Longrightarrow>
    conn_step P kdf (cx, b) (conn_handshake P kdf now time identity r w (cx, b))"
| outbound: "cx_phase cx = Serving \<Longrightarrow> recv (cx_client cx) (cx_epoch cx) b = (Some item, b1) \<Longrightarrow>
    conn_step P kdf (cx, b) (conn_out time item w (cx, b1))"
| inbound: "cx_phase cx = Serving \<Longrightarrow> (r = ReadTimeout \<Longrightarrow> cx_deadline cx \<le> time) \<Longrightarrow>
    conn_step P kdf (cx, b) (conn_read P time r w (cx, b))"
| handling: "cx_phase cx = Handling p \<Longrightarrow> conn_step P kdf (cx, b) (conn_handle P now time p w (cx, b))"
| closing: "cx_phase cx = Closing pw \<Longrightarrow> conn_step P kdf (cx, b) (conn_close pw (cx, b))"

text \<open>What runs beside the connection tasks: timers, bridges, the status publisher, policy reloads, the
  sweep of the rate limiter.\<close>

inductive background :: "protocol \<Rightarrow> broker \<Rightarrow> broker \<Rightarrow> bool" for P where
  bg_task: "b_tasks b = ts1 @ t # ts2 \<Longrightarrow> run_task P now t (b\<lparr>b_tasks := ts1 @ ts2\<rparr>) = (rest, b') \<Longrightarrow>
    background P b (b'\<lparr>b_tasks := b_tasks b' @ rest\<rparr>)"
| bg_register: "background P b (snd (register_bridge (bridge_client name) channel_new b))"
| bg_bridge_sub: "background P b (bridge_add_subscription (bridge_client name) flt nl b)"
| bg_inject: "background P b (inject_publish P now (bridge_client name) m b)"
| bg_bridge_drain: "background P b (update_session (bridge_client name) (drain k) b)"
| bg_bridge_hang_up: "background P b (update_session (bridge_client name) hang_up b)"
| bg_deregister: "background P b (deregister_bridge (bridge_client name) e b)"
| bg_sys: "background P b (publish_sys P now es b)"
| bg_snapshot: "background P b (snd (broker_snapshot now uptime version b))"
| bg_reload: "background P b (snd (reload_acl P read_file toml b))"
| bg_sweep: "background P b (b\<lparr>b_rate_limiter := sweep (b_rate_limiter b) clock\<rparr>)"

inductive server_step :: "protocol \<Rightarrow> pbkdf2_verify \<Rightarrow> server \<Rightarrow> server \<Rightarrow> bool" for P kdf where
  accepts: "accept_socket clock time ip upgraded b = (cx, b') \<Longrightarrow>
    server_step P kdf \<lparr>sv_broker = b, sv_conns = cs\<rparr>
      \<lparr>sv_broker = b', sv_conns = cs @ (case cx of None \<Rightarrow> [] | Some x \<Rightarrow> [x])\<rparr>"
| task: "i < length cs \<Longrightarrow> conn_step P kdf (cs ! i, b) (cx, b') \<Longrightarrow>
    server_step P kdf \<lparr>sv_broker = b, sv_conns = cs\<rparr> \<lparr>sv_broker = b', sv_conns = cs[i := cx]\<rparr>"
| other: "background P b b' \<Longrightarrow>
    server_step P kdf \<lparr>sv_broker = b, sv_conns = cs\<rparr> \<lparr>sv_broker = b', sv_conns = cs\<rparr>"

inductive server_reachable :: "protocol \<Rightarrow> pbkdf2_verify \<Rightarrow> nat \<Rightarrow> server \<Rightarrow> bool" for P kdf where
  server_init: "init P b \<Longrightarrow> server_reachable P kdf 0 \<lparr>sv_broker = b, sv_conns = []\<rparr>"
| server_next: "server_reachable P kdf n sv \<Longrightarrow> server_step P kdf sv sv' \<Longrightarrow> server_reachable P kdf (Suc n) sv'"

inductive_cases conn_stepE: "conn_step P kdf (cx, b) cb'"
inductive_cases backgroundE: "background P b b'"
inductive_cases server_stepE: "server_step P kdf sv sv'"

subsection \<open>Every step of the server is a sequence of broker steps\<close>

definition within :: "protocol \<Rightarrow> pbkdf2_verify \<Rightarrow> nat \<Rightarrow> broker \<Rightarrow> broker \<Rightarrow> bool" where
  "within P kdf n b b' \<longleftrightarrow> (\<exists>k\<le>n. runs P kdf k b b')"

lemma runs_trans: "runs P kdf m b' b'' \<Longrightarrow> runs P kdf n b b' \<Longrightarrow> runs P kdf (n + m) b b''"
  by (induction rule: runs.induct) (auto intro: runs_step)

lemma within_refl [simp]: "within P kdf n b b"
  unfolding within_def by (auto intro: exI [of _ 0] runs_refl)

lemma within_step: "step P kdf b b' \<Longrightarrow> within P kdf (Suc n) b b'"
  unfolding within_def by (rule exI [of _ "Suc 0"]) (auto intro: runs_step runs_refl)

lemma within_trans: "within P kdf n b b' \<Longrightarrow> within P kdf m b' b'' \<Longrightarrow> within P kdf (n + m) b b''"
  unfolding within_def by (meson add_mono runs_trans)

lemma within_mono: "within P kdf n b b' \<Longrightarrow> n \<le> m \<Longrightarrow> within P kdf m b b'"
  unfolding within_def by (meson le_trans)

lemma step_counts:
  "step P kdf b (b\<lparr>b_metrics := mx\<rparr>)" "step P kdf b (b\<lparr>b_detached := d\<rparr>)"
  "step P kdf b (b\<lparr>b_rate_limiter := rl\<rparr>)" "step P kdf b (b\<lparr>b_metrics := mx, b_rate_limiter := rl\<rparr>)"
  using step_accounting [where b = b and mx = mx and rl = "b_rate_limiter b" and chans = "b_detached b"]
    step_accounting [where b = b and mx = "b_metrics b" and rl = "b_rate_limiter b" and chans = d]
    step_accounting [where b = b and mx = "b_metrics b" and rl = rl and chans = "b_detached b"]
    step_accounting [where b = b and mx = mx and rl = rl and chans = "b_detached b"] by simp_all

lemma server_send_within: "within P kdf 1 b (snd (snd (server_send p w (cx, b))))"
  using within_step [OF step_counts(1), of P kdf 0] by (simp add: server_send_def split: sum.split)

lemma send_disconnect_within: "within P kdf 1 b (snd (send_disconnect rc w (cx, b)))"
  using server_send_within by (simp add: send_disconnect_def)

lemma drop_receiver_within: "within P kdf 1 b (drop_receiver c e b)"
  using within_step [OF step_hang_up, of P kdf 0] by (simp add: drop_receiver_def)

lemma send_or_fail_within: "within P kdf 2 b (snd (send_or_fail time p w (cx, b)))"
proof -
  obtain e cx' b' where s: "server_send p w (cx, b) = (e, cx', b')" by (cases "server_send p w (cx, b)") auto
  then have "within P kdf 1 b b'" using server_send_within [of P kdf b p w cx] by simp
  from within_trans [OF this drop_receiver_within] within_mono [OF this, of 2] s show ?thesis
    by (auto simp: send_or_fail_def numeral_2_eq_2 split: option.split)
qed

lemma finish_snd [simp]: "snd (finish ph cb) = snd cb"
  by (simp add: finish_def)

lemma recv_within: "within P kdf 1 b (snd (recv c e b))"
  using within_step [OF step_drain, of P kdf 0] within_step [OF step_counts(2), of P kdf 0]
  by (simp add: recv_def split: list.split option.split)

lemma conn_connect_within: "within P kdf 3 b (snd (conn_connect P kdf now time identity cn w (cx, b)))"
proof -
  obtain r b1 where h: "handle_connect P kdf now cn channel_new identity b = (r, b1)" by force
  then have "within P kdf 1 b b1"
    using within_step [OF step_connect [of P kdf b now cn identity], of 0] by simp
  note one = this
  show ?thesis
  proof (cases r)
    case (Inl connack)
    have "within P kdf 3 b (snd (snd (server_send p w (cx', b1))))" for p cx'
      using within_mono [OF within_trans [OF one server_send_within], of 3] by simp
    with h Inl show ?thesis by (simp add: conn_connect_def Let_def case_prod_beta)
  next
    case (Inr acc)
    have "within P kdf 3 b (snd (send_or_fail time p w (cx', b1)))" for p cx'
      using within_trans [OF one send_or_fail_within] by (simp add: numeral_3_eq_3)
    with h Inr show ?thesis by (simp add: conn_connect_def Let_def)
  qed
qed

lemma count_received_within: "within P kdf 1 b (count_received p n b)"
  using within_step [OF step_counts(1), of P kdf 0] by (simp add: count_received_def)

lemma count_payload_within: "within P kdf 1 b (count_payload_received p b)"
  using within_step [OF step_counts(1), of P kdf 0] by (cases p) simp_all

lemma conn_read_within: "within P kdf 2 b (snd (conn_read P time r w (cx, b)))"
proof -
  have "within P kdf 2 b (count_payload_received p (count_received p n b))" for p n
    using within_trans [OF count_received_within count_payload_within] by (simp add: numeral_2_eq_2)
  moreover have "within P kdf 2 b (snd (send_disconnect rc w (cx, b)))" for rc
    by (rule within_mono [OF send_disconnect_within]) simp
  ultimately show ?thesis by (simp add: conn_read_def Let_def split: read_outcome.split)
qed

lemma conn_handle_within: "within P kdf 2 b (snd (conn_handle P now time p w (cx, b)))"
proof -
  let ?b = "snd (dispatch_packet P now (cx_client cx) (cx_epoch cx) p b)"
  have one: "within P kdf 1 b ?b" using within_step [OF step_late, of P kdf 0] by simp
  from within_trans [OF one send_disconnect_within]
  have "within P kdf 2 b (snd (send_disconnect rc w (cx, ?b)))" for rc by (simp add: numeral_2_eq_2)
  with within_mono [OF one, of 2] show ?thesis
    by (simp add: conn_handle_def case_prod_beta split: action.split)
qed

lemma conn_out_within: "within P kdf 2 b (snd (conn_out time item w (cx, b)))"
proof -
  have "within P kdf 2 b (snd (send_disconnect rc w (cx, b)))" for rc
    by (rule within_mono [OF send_disconnect_within]) simp
  then show ?thesis by (simp add: conn_out_def send_or_fail_within split: option.split outgoing.split)
qed

lemma conn_handshake_within: "within P kdf 4 b (snd (conn_handshake P kdf now time identity r w (cx, b)))"
proof -
  have "within P kdf 4 b (snd (conn_connect P kdf now time identity cn w (cx, count_received p n b)))" for cn p n
    using within_trans [OF count_received_within conn_connect_within] by (simp add: eval_nat_numeral)
  moreover have "within P kdf 4 b (count_received p n b)" for p n
    by (rule within_mono [OF count_received_within]) simp
  ultimately show ?thesis by (simp add: conn_handshake_def Let_def split: read_outcome.split packet.split)
qed

lemma conn_step_within:
  assumes "conn_step P kdf (cx, b) cb'"
  shows "within P kdf 4 b (snd cb')"
  using assms
proof cases
  case (outbound item b1 time w)
  have "within P kdf 1 b b1" using recv_within [of P kdf b "cx_client cx" "cx_epoch cx"] outbound by simp
  from within_mono [OF within_trans [OF this conn_out_within], of 4] outbound(1) show ?thesis by simp
next
  case (closing pw)
  then show ?thesis using within_step [OF step_closed, of P kdf 3] by (simp add: conn_close_def)
qed (auto intro: conn_handshake_within within_mono [OF conn_read_within] within_mono [OF conn_handle_within])

lemma background_step:
  assumes "background P b b'"
  shows "step P kdf b b'"
  using assms by cases (auto simp only: intro: step.intros step_counts(3) channel_new_ok)

lemma server_step_within:
  assumes "server_step P kdf sv sv'"
  shows "within P kdf 4 (sv_broker sv) (sv_broker sv')"
  using assms
proof cases
  case (accepts clock time ip upgraded b cx b' cs)
  then have "step P kdf b b'"
    by (auto simp: accept_socket_def Let_def case_prod_beta split: if_splits intro: step_counts)
  from within_step [OF this, of 3] accepts show ?thesis by simp
next
  case (task i cs b cx b')
  from conn_step_within [OF task(4)] task(1,2) show ?thesis by simp
next
  case (other b b' cs)
  from within_step [OF background_step [OF other(3)], of kdf 3] other(1,2) show ?thesis by simp
qed

lemma server_reachable_broker:
  assumes "server_reachable P kdf n sv"
  shows "\<exists>k \<le> 4 * n. reachable P kdf k (sv_broker sv)"
  using assms
proof induction
  case (server_init b)
  then show ?case by (auto intro: reachable_init)
next
  case (server_next n sv sv')
  from server_next.IH obtain k where k: "k \<le> 4 * n" "reachable P kdf k (sv_broker sv)" by blast
  from server_step_within [OF server_next.hyps(2)] obtain j
    where "j \<le> 4" "runs P kdf j (sv_broker sv) (sv_broker sv')" by (auto simp: within_def)
  with k reachable_runs show ?case by (intro exI [of _ "k + j"]) auto
qed

subsection \<open>Sessions and the tasks that serve them\<close>

text \<open>\<open>settled b b'\<close>: every client session that is online in \<open>b'\<close> was so in \<open>b\<close>, for the same connection.\<close>

definition settled :: "broker \<Rightarrow> broker \<Rightarrow> bool" where
  "settled b b' \<longleftrightarrow>
     (\<forall>c s'. get_session c b' = Some s' \<and> is_online s' \<and> \<not> is_bridge_id c \<longrightarrow>
        (\<exists>s. get_session c b = Some s \<and> is_online s \<and> ss_epoch s = ss_epoch s'))"

lemma settled_refl [simp]: "settled b b"
  by (auto simp: settled_def)

lemma settled_trans [trans]: "settled a b \<Longrightarrow> settled b c \<Longrightarrow> settled a c"
  unfolding settled_def by metis

lemma settled_same: "b_sessions b' = b_sessions b \<Longrightarrow> settled b b'"
  by (auto simp: settled_def)

lemma settledI:
  assumes "epoch_step b b'" and "b_next_epoch b' = b_next_epoch b"
    and "\<And>c s'. get_session c b' = Some s' \<Longrightarrow> is_online s' \<Longrightarrow> \<exists>s. get_session c b = Some s \<and> is_online s"
  shows "settled b b'"
  unfolding settled_def
proof (intro allI impI, elim conjE)
  fix c s' assume s': "get_session c b' = Some s'" "is_online s'"
  from assms(3) [OF this] obtain s where s: "get_session c b = Some s" "is_online s" by blast
  have "b_next_epoch b \<noteq> b_next_epoch b + 1" by simp
  with assms(1,2) s' s(1) have "ss_epoch s = ss_epoch s'" by (fastforce simp: epoch_step_def)
  with s show "\<exists>s. get_session c b = Some s \<and> is_online s \<and> ss_epoch s = ss_epoch s'" by blast
qed

lemma settled_quiet:
  assumes "quiet b b'" and "epoch_step b b'" and "b_next_epoch b' = b_next_epoch b"
  shows "settled b b'"
  using assms(2,3) by (rule settledI) (use assms(1) in \<open>fastforce simp: quiet_def calmer_def\<close>)

lemma settled_dispatch: "settled b (snd (dispatch_packet P now c e p b))"
proof (cases "\<exists>sub. p = Subscribe sub")
  case True
  then obtain sub where p: "snd (dispatch_packet P now c e p b) = snd (handle_subscribe P now c e sub b)"
    by (auto simp: dispatch_packet_def)
  have o: "own_step c b (snd (handle_subscribe P now c e sub b))" by (rule handle_subscribe_step)
  show ?thesis unfolding p
  proof (rule settledI [OF epoch_step_own [OF o]])
    fix d s' assume s': "get_session d (snd (handle_subscribe P now c e sub b)) = Some s'" "is_online s'"
    with o show "\<exists>s. get_session d b = Some s \<and> is_online s"
      by (cases "d = c") (auto simp: own_step_def)
  qed (use o in \<open>simp add: own_step_def\<close>)
next
  case False
  show ?thesis
    by (rule settled_quiet [OF quiet_dispatch [OF False] epoch_step_others(2) dispatch_packet_counter])
qed

lemma settled_closed: "settled b (handle_connection_closed c e w b)"
  by (rule settled_quiet [OF quiet_closed epoch_step_closed connection_closed_inv(3)])

lemma settled_channel:
  "settled b (update_session c (drain k) b)" "settled b (update_session c hang_up b)"
  by (rule settled_quiet [OF quiet_channel(1) epoch_step_others(6)]
      settled_quiet [OF quiet_channel(2) epoch_step_others(7)], simp)+

lemma settled_other_clients:
  "(\<And>d. \<not> is_bridge_id d \<Longrightarrow> get_session d b' = get_session d b) \<Longrightarrow> settled b b'"
  by (auto simp: settled_def)

lemma revoke_online: "is_online (fst (revoke_session P a s)) = is_online s"
  by (auto simp: revoke_session_def Let_def is_online_def prune_def session_send_def split: option.split)

lemma settled_background:
  assumes "background P b b'"
  shows "settled b b'"
  using assms
proof cases
  case (bg_task ts1 t ts2 now rest b'')
  have "b_next_epoch b'' = b_next_epoch b" using run_task_counter [of P now t "b\<lparr>b_tasks := ts1 @ ts2\<rparr>"] bg_task by simp
  with settled_quiet [OF quiet_task_step [OF bg_task(3)] epoch_step_task [OF bg_task(3)]] bg_task(1)
  show ?thesis by simp
next
  case (bg_inject now name m)
  then show ?thesis using settled_quiet [OF quiet_inject epoch_step_others(3)] by (simp add: inject_publish_def)
next
  case (bg_deregister name e)
  then show ?thesis
    using settled_quiet [OF quiet_deregister epoch_step_others(4)] by (simp add: deregister_bridge_def)
next
  case (bg_sys now es)
  then show ?thesis using settled_quiet [OF quiet_publish_sys epoch_step_sys] by simp
next
  case (bg_reload read_file toml)
  show ?thesis unfolding bg_reload
    by (rule settledI [OF epoch_step_others(5)])
      (auto simp: reload_acl_def get_revoke swap_acl_def revoke_online split: option.splits sum.splits if_splits)
next
  case (bg_bridge_drain name k)
  then show ?thesis by (simp add: settled_channel)
next
  case (bg_bridge_hang_up name)
  then show ?thesis by (simp add: settled_channel)
next
  case (bg_register name)
  show ?thesis unfolding bg_register by (rule settled_other_clients) (auto simp: register_bridge_def Let_def)
next
  case (bg_bridge_sub name flt nl)
  show ?thesis unfolding bg_bridge_sub by (rule settled_other_clients) (auto simp: bridge_add_subscription_def)
qed (auto intro: settled_same)

text \<open>A task serves the session it was accepted for until it returns.\<close>

fun in_service :: "phase \<Rightarrow> bool" where
  "in_service (Handshake _) = False"
| "in_service Finished = False"
| "in_service _ = True"

definition serves :: "conn \<Rightarrow> string \<Rightarrow> u64 \<Rightarrow> bool" where
  "serves cx c e \<longleftrightarrow> in_service (cx_phase cx) \<and> cx_client cx = c \<and> cx_epoch cx = e"

definition served :: "server \<Rightarrow> bool" where
  "served sv \<longleftrightarrow>
     (\<forall>c s. get_session c (sv_broker sv) = Some s \<and> is_online s \<and> \<not> is_bridge_id c \<longrightarrow>
        (\<exists>cx\<in>set (sv_conns sv). serves cx c (ss_epoch s)))"


lemma server_send_conn:
  "cx_client (fst (snd (server_send p w cb))) = cx_client (fst cb)"
  "cx_epoch (fst (snd (server_send p w cb))) = cx_epoch (fst cb)"
  "b_sessions (snd (snd (server_send p w cb))) = b_sessions (snd cb)"
  by (simp_all add: server_send_def split: sum.split)

lemma send_disconnect_conn:
  "cx_client (fst (send_disconnect rc w cb)) = cx_client (fst cb)"
  "cx_epoch (fst (send_disconnect rc w cb)) = cx_epoch (fst cb)"
  "b_sessions (snd (send_disconnect rc w cb)) = b_sessions (snd cb)"
  by (simp_all add: send_disconnect_def server_send_conn)

lemma finish_serves: "serves (fst (finish ph cb)) c e \<longleftrightarrow> in_service ph \<and> cx_client (fst cb) = c \<and> cx_epoch (fst cb) = e"
  by (simp add: finish_def serves_def)

lemma await_serves: "serves (await_next time cx) c e \<longleftrightarrow> cx_client cx = c \<and> cx_epoch cx = e"
  by (simp add: await_next_def serves_def)

lemma send_or_fail_settled:
  "settled (snd cb) (snd (send_or_fail time p w cb))"
  "serves (fst (send_or_fail time p w cb)) c e \<longleftrightarrow> cx_client (fst cb) = c \<and> cx_epoch (fst cb) = e"
proof -
  obtain er cx' b' where s: "server_send p w cb = (er, cx', b')" by (cases "server_send p w cb") auto
  have same: "cx_client cx' = cx_client (fst cb)" "cx_epoch cx' = cx_epoch (fst cb)" "b_sessions b' = b_sessions (snd cb)"
    using server_send_conn [of p w cb] s by simp_all
  from settled_same [OF same(3)] settled_trans [OF settled_same [OF same(3)] settled_channel(2)]
  show "settled (snd cb) (snd (send_or_fail time p w cb))"
    by (simp add: send_or_fail_def s drop_receiver_def split: option.split)
  show "serves (fst (send_or_fail time p w cb)) c e \<longleftrightarrow> cx_client (fst cb) = c \<and> cx_epoch (fst cb) = e"
    using same by (auto simp: send_or_fail_def s await_next_def serves_def split: option.split)
qed

lemma recv_settled: "settled b (snd (recv c e b))"
  by (auto simp: recv_def settled_channel intro: settled_same split: list.split option.split)

lemma counted_sessions [simp]:
  "b_sessions (count_received p n b) = b_sessions b" "b_sessions (count_payload_received p b) = b_sessions b"
  by (simp add: count_received_def) (cases p; simp)

text \<open>An accepted CONNECT binds the session of its own client identifier, and no other.\<close>

lemma conn_connect_serves:
  assumes "get_session c (snd (conn_connect P kdf now time identity cn w (cx, b))) = Some s'" and "is_online s'"
    and "\<not> is_bridge_id c"
  shows "serves (fst (conn_connect P kdf now time identity cn w (cx, b))) c (ss_epoch s')
    \<or> (\<exists>s. get_session c b = Some s \<and> is_online s \<and> ss_epoch s = ss_epoch s')"
proof (cases rule: handle_connect_cases [of P kdf now cn channel_new identity b])
  case (refused rc n)
  then have "b_sessions (snd (conn_connect P kdf now time identity cn w (cx, b))) = b_sessions b"
    by (simp add: conn_connect_def Let_def case_prod_beta server_send_conn)
  with assms(1,2) show ?thesis by auto
next
  case (accepted v who d assigned n)
  let ?b1 = "b\<lparr>b_auto_id_counter := n\<rparr>"
  let ?acc = "fst (bind_connection P now v cn channel_new who d assigned ?b1)"
  let ?b2 = "snd (bind_connection P now v cn channel_new who d assigned ?b1)"
  let ?cx = "cx\<lparr>cx_version := (case version_from_level P (cn_protocol_version cn) of None \<Rightarrow> V3_1_1 | Some v \<Rightarrow> v),
    cx_client := ac_client_id ?acc, cx_epoch := ac_epoch ?acc, cx_read_timeout := read_timeout_of (ac_keep_alive ?acc)\<rparr>"
  have eq: "conn_connect P kdf now time identity cn w (cx, b)
      = send_or_fail time (Connack (ac_connack ?acc)) w (?cx, ?b2)"
    using accepted(6) by (simp add: conn_connect_def Let_def)
  from send_or_fail_settled(1) [of "(?cx, ?b2)"] assms obtain s where
    s: "get_session c ?b2 = Some s" "is_online s" "ss_epoch s = ss_epoch s'"
    unfolding eq settled_def by fastforce
  then show ?thesis
    unfolding eq send_or_fail_settled(2)
    by (cases "c = d") (auto simp: bind_connection_sessions resumed_fields bind_connection_accepted)
qed

text \<open>A step of a task in service: it stays in service for the same session, or it closes it.\<close>

definition keeps_serving :: "conn \<times> broker \<Rightarrow> conn \<times> broker \<Rightarrow> bool" where
  "keeps_serving cb cb' \<longleftrightarrow> settled (snd cb) (snd cb')
     \<and> (\<forall>c e. cx_client (fst cb) = c \<and> cx_epoch (fst cb) = e \<longrightarrow> serves (fst cb') c e)"

lemma keeps_serving_intros:
  "keeps_serving cb (send_or_fail time p w cb)"
  "in_service ph \<Longrightarrow> keeps_serving cb (finish ph (send_disconnect rc w cb))"
  "settled b b' \<Longrightarrow> in_service ph \<Longrightarrow> keeps_serving (cx, b) (finish ph (cx, b'))"
  "settled b b' \<Longrightarrow> keeps_serving (cx, b) (await_next time cx, b')"
  "settled b b' \<Longrightarrow> in_service ph \<Longrightarrow> keeps_serving (cx, b) (finish ph (send_disconnect rc w (cx, b')))"
proof -
  have "settled b (snd (send_disconnect rc w (cx, b)))" for b by (rule settled_same) (simp add: send_disconnect_conn)
  then have "settled b b' \<Longrightarrow> settled b (snd (send_disconnect rc w (cx, b')))" for b b' by (rule settled_trans [rotated])
  note disconnect = this
  show "keeps_serving cb (send_or_fail time p w cb)"
    "in_service ph \<Longrightarrow> keeps_serving cb (finish ph (send_disconnect rc w cb))"
    "settled b b' \<Longrightarrow> in_service ph \<Longrightarrow> keeps_serving (cx, b) (finish ph (cx, b'))"
    "settled b b' \<Longrightarrow> keeps_serving (cx, b) (await_next time cx, b')"
    by (auto simp: keeps_serving_def send_or_fail_settled finish_serves await_serves send_disconnect_conn
        intro: settled_same)
  show "settled b b' \<Longrightarrow> in_service ph \<Longrightarrow> keeps_serving (cx, b) (finish ph (send_disconnect rc w (cx, b')))"
    by (simp add: keeps_serving_def finish_serves send_disconnect_conn disconnect)
qed

lemma keeps_serving_conn:
  "keeps_serving (cx, b) (conn_out time item w (cx, b))"
  "keeps_serving (cx, b) (conn_read P time r w (cx, b))"
  "keeps_serving (cx, b) (conn_handle P now time p w (cx, b))"
proof -
  show "keeps_serving (cx, b) (conn_out time item w (cx, b))"
    by (simp add: conn_out_def keeps_serving_intros split: option.split outgoing.split)
  have "settled b (count_payload_received p (count_received p n b))" for p n by (rule settled_same) simp
  then show "keeps_serving (cx, b) (conn_read P time r w (cx, b))"
    by (simp add: conn_read_def Let_def keeps_serving_intros split: read_outcome.split)
  show "keeps_serving (cx, b) (conn_handle P now time p w (cx, b))"
    by (simp add: conn_handle_def case_prod_beta keeps_serving_intros settled_dispatch split: action.split)
qed

lemma closed_offline:
  "get_session c (handle_connection_closed c e w b) = Some s \<Longrightarrow> ss_epoch s = e \<Longrightarrow> \<not> is_online s"
  by (auto simp: handle_connection_closed_def Let_def case_prod_beta get_remove_if_idle close_session_def go_offline_def
      is_online_def split: option.splits if_splits)

lemma conn_step_served:
  assumes "conn_step P kdf (cx, b) cb'" and s': "get_session c (snd cb') = Some s'" "is_online s'" "\<not> is_bridge_id c"
  shows "serves (fst cb') c (ss_epoch s') \<or> \<not> serves cx c (ss_epoch s')
    \<and> (\<exists>s. get_session c b = Some s \<and> is_online s \<and> ss_epoch s = ss_epoch s')"
proof -
  have kept: ?thesis if "keeps_serving (cx, b0) cb'" "settled b b0" for b0
    using that(1) settled_trans [OF that(2)] s' by (fastforce simp: keeps_serving_def settled_def serves_def)
  from assms(1) show ?thesis
  proof cases
    case (handshake identity r time now w)
    then have n: "\<not> serves cx c e" for e by (simp add: serves_def)
    have "b_sessions (snd (finish ph (cx', b'))) = b_sessions b'" for ph cx' b' by simp
    show ?thesis
    proof (cases "\<exists>cn k. r = ReadPacket (Connect cn) k")
      case True
      then obtain cn k where r: "r = ReadPacket (Connect cn) k" by blast
      with handshake s' conn_connect_serves [of c P kdf now time identity cn w cx "count_received (Connect cn) k b" s'] n
      show ?thesis by (auto simp: conn_handshake_def Let_def)
    next
      case False
      then have "b_sessions (snd cb') = b_sessions b"
        unfolding handshake(1) by (auto simp: conn_handshake_def Let_def split: read_outcome.split packet.split)
      with s' n show ?thesis by auto
    qed
  next
    case (outbound item b1 time w)
    then have "settled b b1" using recv_settled [of b "cx_client cx" "cx_epoch cx"] by simp
    with kept [of b1] keeps_serving_conn(1) outbound(1) show ?thesis by blast
  next
    case (inbound r time w)
    with kept [of b] keeps_serving_conn(2) show ?thesis by simp
  next
    case (handling p now time w)
    with kept [of b] keeps_serving_conn(3) show ?thesis by simp
  next
    case (closing pw)
    then have eq: "snd cb' = handle_connection_closed (cx_client cx) (cx_epoch cx) pw b" by (simp add: conn_close_def)
    have "\<not> serves cx c (ss_epoch s')" using closed_offline [of c "ss_epoch s'" pw b s'] s' by (auto simp: eq serves_def)
    with settled_closed [of b "cx_client cx" "cx_epoch cx" pw] s' show ?thesis
      unfolding eq settled_def by blast
  qed
qed

lemma server_step_served:
  assumes "server_step P kdf sv sv'" and "served sv"
  shows "served sv'"
  unfolding served_def
proof (intro allI impI, elim conjE)
  fix c s' assume s': "get_session c (sv_broker sv') = Some s'" "is_online s'" "\<not> is_bridge_id c"
  from assms(1) show "\<exists>cx\<in>set (sv_conns sv'). serves cx c (ss_epoch s')"
  proof cases
    case (accepts clock time ip upgraded b cx b' cs)
    then have "b_sessions b' = b_sessions b"
      by (auto simp: accept_socket_def Let_def case_prod_beta split: if_splits)
    with accepts assms(2) s' show ?thesis by (fastforce simp: served_def)
  next
    case (task i cs b cx b')
    from conn_step_served [OF task(4), of c s'] s' task(2)
    consider "serves cx c (ss_epoch s')"
      | s where "\<not> serves (cs ! i) c (ss_epoch s')" "get_session c b = Some s" "is_online s" "ss_epoch s = ss_epoch s'"
      by auto
    then show ?thesis
    proof cases
      case 1
      with task(2,3) show ?thesis by (auto intro: bexI [of _ cx] set_update_memI)
    next
      case 2
      with assms(2) task(1) s'(3) obtain cx' where "cx' \<in> set cs" "serves cx' c (ss_epoch s')"
        by (fastforce simp: served_def)
      then obtain j where "j < length cs" "j \<noteq> i" "cs ! j = cx'" using 2(1) by (metis in_set_conv_nth)
      then have "cx' \<in> set (cs[i := cx])" by (metis length_list_update nth_list_update_neq nth_mem)
      with \<open>serves cx' c (ss_epoch s')\<close> task(2) show ?thesis by auto
    qed
  next
    case (other b b' cs)
    from settled_background [OF other(3)] other(1,2) s' assms(2) show ?thesis
      by (fastforce simp: settled_def served_def)
  qed
qed

lemma broker_new_offline: "get_session c (broker_new P cfg loaded a auth) = Some s \<Longrightarrow> \<not> is_online s"
  using restore_sessions_cold [of "[]" P "ld_sessions loaded"] by (auto simp: all_cold_def broker_new_def)

lemma server_reachable_served: "server_reachable P kdf n sv \<Longrightarrow> served sv"
proof (induction rule: server_reachable.induct)
  case (server_init b)
  then show ?case
    by (auto elim!: initE simp: served_def dest: broker_new_offline)
qed (rule server_step_served)

subsection \<open>Keep alive\<close>

text \<open>The patience with a silent client is one and a half times its keep-alive interval, rounded up to a
  whole second and never less than that; the 64-bit arithmetic does not wrap.\<close>

lemma read_timeout_of_unat:
  "unat (read_timeout_of k) = (if k = 0 then 31536000 else unat k * 3 div 2 + 1)"
proof -
  have k: "unat k < 65536" using unsigned_less [of k, where ?'a = nat] by simp
  then have "unat (ucast k :: u64) = unat k" by (simp add: unsigned_ucast_eq take_bit_nat_eq_self)
  with k have "unat (ucast k * 3 :: u64) = unat k * 3" by (simp add: unat_word_ariths)
  with k show ?thesis by (simp add: read_timeout_of_def unat_word_ariths unat_div)
qed

lemma read_timeout_of_bound: "k \<noteq> 0 \<Longrightarrow> 3 * unat k < 2 * unat (read_timeout_of k)"
  by (simp add: read_timeout_of_unat)

text \<open>The wait starts anew with every pass of the loop, so also after a packet to the client.\<close>

lemma outbound_restarts_keep_alive:
  "cx_deadline (fst (conn_out time (Some (Send p)) (Inr n) cb)) = time + secs (unat (cx_read_timeout (fst cb)))"
  by (simp add: conn_out_def send_or_fail_def server_send_def await_next_def)

subsection \<open>Properties\<close>

definition demo_address :: ip_addr where
  "demo_address = V4 0"

definition demo_accepted :: "conn \<times> broker" where
  "demo_accepted = (conn_new 0 None, snd (accept_socket 0 0 demo_address (Some None) demo_start))"

definition demo_connection :: "conn \<times> broker" where
  "demo_connection =
     conn_handshake plain_protocol demo_kdf 0 0 None (ReadPacket (Connect demo_connect) 20) (Inr 5) demo_accepted"

definition demo_server :: server where
  "demo_server = \<lparr>sv_broker = snd demo_connection, sv_conns = [fst demo_connection]\<rparr>"

lemma demo_server_reachable: "server_reachable plain_protocol demo_kdf 2 demo_server"
proof -
  let ?P = plain_protocol
  have start: "server_reachable ?P demo_kdf 0 \<lparr>sv_broker = demo_start, sv_conns = []\<rparr>"
    unfolding demo_start_def by (intro server_init init.intros)
  have acc: "accept_socket 0 0 demo_address (Some None) demo_start = (Some (fst demo_accepted), snd demo_accepted)"
    by (simp add: demo_accepted_def accept_socket_def Let_def case_prod_beta demo_start_def broker_new_def check_def
        config_default_def rate_limiter_new_def with_window_def)
  from server_next [OF start accepts [OF acc]]
  have one: "server_reachable ?P demo_kdf 1 \<lparr>sv_broker = snd demo_accepted, sv_conns = [fst demo_accepted]\<rparr>" by simp
  have ph: "cx_phase (fst demo_accepted) = Handshake None" by (simp add: demo_accepted_def conn_new_def)
  have "conn_step ?P demo_kdf ([fst demo_accepted] ! 0, snd demo_accepted) (fst demo_connection, snd demo_connection)"
    using handshake [OF ph, of "ReadPacket (Connect demo_connect) 20" 0 ?P demo_kdf "snd demo_accepted" 0 "Inr 5"]
    by (simp add: demo_connection_def)
  from server_next [OF one task [OF _ this]] show ?thesis by (simp add: demo_server_def numeral_2_eq_2)
qed



text \<open>C29: no session is online without a task. In every reachable state of the server, every online session
  that is not a bridge belongs to a connection task that was accepted for exactly this client identifier and
  epoch and that has not closed the session: it is serving, is about to close the session, or has failed.\<close>

theorem online_sessions_served:
  assumes "server_reachable P kdf n sv" and "get_session c (sv_broker sv) = Some s" and "is_online s"
    and "\<not> is_bridge_id c"
  shows "\<exists>cx\<in>set (sv_conns sv). cx_client cx = c \<and> cx_epoch cx = ss_epoch s
    \<and> (cx_phase cx = Serving \<or> (\<exists>p. cx_phase cx = Handling p) \<or> (\<exists>w. cx_phase cx = Closing w)
       \<or> (\<exists>e. cx_phase cx = Failed e))"
proof -
  have "in_service ph \<Longrightarrow> ph = Serving \<or> (\<exists>p. ph = Handling p) \<or> (\<exists>w. ph = Closing w) \<or> (\<exists>e. ph = Failed e)" for ph
    by (cases ph) simp_all
  with server_reachable_served [OF assms(1)] assms(2-4) show ?thesis by (fastforce simp: served_def serves_def)
qed

lemma demo_server_session:
  "\<exists>s. get_session ''c'' (sv_broker demo_server) = Some s \<and> is_online s"
proof -
  let ?b = "count_received (Connect demo_connect) 20 (snd demo_accepted)"
  have "b_auth ?b = None"
    by (simp add: count_received_def demo_accepted_def accept_socket_def Let_def case_prod_beta demo_start_def
        broker_new_def)
  moreover have "handle_connect plain_protocol demo_kdf 0 demo_connect channel_new None b =
      (Inr (fst (bind_connection plain_protocol 0 V5 demo_connect channel_new None ''c'' False b)),
       snd (bind_connection plain_protocol 0 V5 demo_connect channel_new None ''c'' False b))"
    if "b_auth b = None" for b
    using that by (simp add: handle_connect_def authenticate_def will_authorized_def demo_connect_def
        resolve_client_id_def reserved_id_def starts_with_def case_prod_beta)
  ultimately have "handle_connect plain_protocol demo_kdf 0 demo_connect channel_new None ?b =
      (Inr (fst (bind_connection plain_protocol 0 V5 demo_connect channel_new None ''c'' False ?b)),
       snd (bind_connection plain_protocol 0 V5 demo_connect channel_new None ''c'' False ?b))" by blast
  then have "b_sessions (snd demo_connection) =
      b_sessions (snd (bind_connection plain_protocol 0 V5 demo_connect channel_new None ''c'' False ?b))"
    by (simp add: demo_connection_def conn_handshake_def conn_connect_def Let_def case_prod_beta send_or_fail_def
        server_send_def)
  then have "get_session ''c'' (snd demo_connection) =
      Some (resumed_session plain_protocol 0 V5 demo_connect channel_new None ''c'' False ?b)"
    using bind_connection_sessions [of "''c''" plain_protocol 0 V5 demo_connect channel_new None "''c''" False ?b]
    by simp
  then show ?thesis by (simp add: demo_server_def resumed_fields)
qed

theorem online_sessions_served_witness:
  "\<exists>s. get_session ''c'' (sv_broker demo_server) = Some s \<and> (\<exists>cx\<in>set (sv_conns demo_server).
     cx_client cx = ''c'' \<and> cx_epoch cx = ss_epoch s)"
proof -
  from demo_server_session obtain s where s: "get_session ''c'' (sv_broker demo_server) = Some s" "is_online s" by blast
  have "\<not> is_bridge_id ''c''" by (simp add: is_bridge_id_def starts_with_def)
  from online_sessions_served [OF demo_server_reachable s this] s(1) show ?thesis by blast
qed

text \<open>C31: a failed write strands the session. When the socket refuses a packet that the task takes from its
  channel, the task returns without closing the session: the session stays online, bound to the dead
  connection, with its Will; no Will and no expiry is scheduled, and its channel accepts nothing any more.\<close>

theorem write_error_strands_session:
  assumes "get_session (cx_client cx) b = Some s" and "ss_epoch s = cx_epoch cx" and "ss_out s = Some tx"
  shows "\<exists>s' tx'. fst (conn_out time (Some (Send p)) (Inl e) (cx, b)) = cx\<lparr>cx_phase := Failed (error_from_protocol e)\<rparr>
    \<and> get_session (cx_client cx) (snd (conn_out time (Some (Send p)) (Inl e) (cx, b))) = Some s'
    \<and> is_online s' \<and> ss_epoch s' = ss_epoch s \<and> ss_will s' = ss_will s
    \<and> ss_out s' = Some tx' \<and> (\<forall>item. \<not> fst (try_send tx' item))
    \<and> b_tasks (snd (conn_out time (Some (Send p)) (Inl e) (cx, b))) = b_tasks b"
proof -
  have "owns (cx_client cx) (cx_epoch cx) b" using assms by (simp add: owns_def is_online_def)
  then have "conn_out time (Some (Send p)) (Inl e) (cx, b) =
      (cx\<lparr>cx_phase := Failed (error_from_protocol e)\<rparr>, update_session (cx_client cx) hang_up b)"
    by (simp add: conn_out_def send_or_fail_def server_send_def drop_receiver_def)
  with assms show ?thesis by (simp add: hang_up_def is_online_def try_send_def)
qed

theorem write_error_strands_session_witness:
  "\<exists>s'. get_session ''c'' (snd (conn_out 9 (Some (Send demo_publish)) (Inl (P_Io ''reset''))
       ((conn_new 0 None)\<lparr>cx_client := ''c'', cx_epoch := 0\<rparr>, demo_broker))) = Some s' \<and> is_online s'"
proof -
  let ?cx = "(conn_new 0 None)\<lparr>cx_client := ''c'', cx_epoch := 0\<rparr>"
  have "get_session (cx_client ?cx) demo_broker = Some (demo_session\<lparr>ss_subscriptions := [demo_sub]\<rparr>)"
    using demo_broker_get by simp
  from write_error_strands_session [OF this, of channel_new 9 demo_publish "P_Io ''reset''"] show ?thesis
    by (auto simp: demo_session_def session_new_def)
qed

end
