(* ===== verification/Bridge_Config.thy ===== *)
theory Bridge_Config
  imports Config
begin

section \<open>Configuration of bridges\<close>

text \<open>
  The first half of \<^verbatim>\<open>src/src/bridge.rs\<close>: the \<^verbatim>\<open>bridges\<close> array of a configuration document, and the
  address of a remote broker. Each error constructor stands for one message of the source; it carries
  the index of the bridge, and of the topic mapping, that the message prints.
\<close>

datatype bridge_error =
    Bridges_not_array
  | Missing_string nat "nat option" string
  | Keepalive_range nat
  | Bad_protocol_version nat int
  | Topics_not_array nat
  | No_topic_mapping nat
  | Invalid_topic_filter nat nat string
  | Bad_direction nat nat
  | Bad_topic_qos nat nat int

definition req_str :: "json \<Rightarrow> string \<Rightarrow> nat \<Rightarrow> nat option \<Rightarrow> bridge_error + string" where
  "req_str node key i j =
     (case json_as_str (json_idx node key) of None \<Rightarrow> Inl (Missing_string i j key) | Some s \<Rightarrow> Inr s)"

definition opt_str :: "json \<Rightarrow> string \<Rightarrow> string option" where
  "opt_str node key = json_as_str (json_idx node key)"

fun parse_direction :: "string option \<Rightarrow> direction option" where
  "parse_direction None = None"
| "parse_direction (Some d) =
     (if d = ''out'' then Some Out else if d = ''in'' then Some In
      else if d = ''both'' then Some Both else None)"

fun parse_topic_qos :: "int option \<Rightarrow> int + qos" where
  "parse_topic_qos None = Inr AtMostOnce"
| "parse_topic_qos (Some n) =
     (if n = 0 then Inr AtMostOnce else if n = 1 then Inr AtLeastOnce
      else if n = 2 then Inr ExactlyOnce else Inl n)"

definition parse_topic :: "protocol \<Rightarrow> nat \<Rightarrow> nat \<Rightarrow> json \<Rightarrow> bridge_error + bridge_topic" where
  "parse_topic P i j t =
     (case req_str t ''pattern'' i (Some j) of
        Inl e \<Rightarrow> Inl e
      | Inr pattern \<Rightarrow>
          if \<not> valid_topic_filter P pattern then Inl (Invalid_topic_filter i j pattern)
          else (case parse_direction (json_as_str (json_idx t ''direction'')) of
                  None \<Rightarrow> Inl (Bad_direction i j)
                | Some direction \<Rightarrow>
                    (case parse_topic_qos (json_as_i64 (json_idx t ''qos'')) of
                       Inl v \<Rightarrow> Inl (Bad_topic_qos i j v)
                     | Inr qos \<Rightarrow>
                         Inr \<lparr>bt_pattern = pattern, bt_direction = direction, bt_qos = qos\<rparr>)))"

fun parse_topic_list :: "protocol \<Rightarrow> nat \<Rightarrow> nat \<Rightarrow> json list \<Rightarrow> bridge_error + bridge_topic list" where
  "parse_topic_list P i j [] = Inr []"
| "parse_topic_list P i j (t # ts) =
     (case parse_topic P i j t of
        Inl e \<Rightarrow> Inl e
      | Inr bt \<Rightarrow> (case parse_topic_list P i (Suc j) ts of Inl e \<Rightarrow> Inl e | Inr bts \<Rightarrow> Inr (bt # bts)))"

definition parse_topics :: "protocol \<Rightarrow> nat \<Rightarrow> json \<Rightarrow> bridge_error + bridge_topic list" where
  "parse_topics P i node =
     (case json_as_array node of
        None \<Rightarrow> Inl (Topics_not_array i)
      | Some ts \<Rightarrow> parse_topic_list P i 0 ts)"

fun parse_version :: "int option \<Rightarrow> int + protocol_version" where
  "parse_version None = Inr V5"
| "parse_version (Some v) =
     (if v = 5 then Inr V5 else if v = 4 then Inr V3_1_1 else if v = 3 then Inr V3_1 else Inl v)"

definition parse_bridge :: "protocol \<Rightarrow> nat \<Rightarrow> json \<Rightarrow> bridge_error + bridge_config" where
  "parse_bridge P i b =
     (case req_str b ''name'' i None of
        Inl e \<Rightarrow> Inl e
      | Inr name \<Rightarrow>
     (case req_str b ''address'' i None of
        Inl e \<Rightarrow> Inl e
      | Inr address \<Rightarrow>
         let client_id = (case opt_str b ''client_id'' of None \<Rightarrow> ''wispmq-bridge-'' @ name | Some c \<Rightarrow> c);
             keepalive = (case json_as_i64 (json_idx b ''keepalive'') of None \<Rightarrow> 60 | Some n \<Rightarrow> n)
         in if keepalive < 0 \<or> 65535 < keepalive then Inl (Keepalive_range i)
            else (case parse_version (json_as_i64 (json_idx b ''protocol_version'')) of
                    Inl v \<Rightarrow> Inl (Bad_protocol_version i v)
                  | Inr version \<Rightarrow>
                      (case parse_topics P i (json_idx b ''topics'') of
                         Inl e \<Rightarrow> Inl e
                       | Inr topics \<Rightarrow>
                           if topics = [] then Inl (No_topic_mapping i)
                           else Inr \<lparr>bc_name = name, bc_address = address, bc_client_id = client_id,
                                     bc_username = opt_str b ''username'',
                                     bc_password = opt_str b ''password'',
                                     bc_keepalive = word_of_int keepalive,
                                     bc_protocol_version = version,
                                     bc_tls_ca = opt_str b ''tls_ca'', bc_tls_cert = opt_str b ''tls_cert'',
                                     bc_tls_key = opt_str b ''tls_key'',
                                     bc_tls_insecure = (case json_as_bool (json_idx b ''tls_insecure'') of
                                                          None \<Rightarrow> False | Some v \<Rightarrow> v),
                                     bc_topics = topics\<rparr>))))"

fun parse_bridge_list :: "protocol \<Rightarrow> nat \<Rightarrow> json list \<Rightarrow> bridge_error + bridge_config list" where
  "parse_bridge_list P i [] = Inr []"
| "parse_bridge_list P i (b # bs) =
     (case parse_bridge P i b of
        Inl e \<Rightarrow> Inl e
      | Inr bc \<Rightarrow> (case parse_bridge_list P (Suc i) bs of Inl e \<Rightarrow> Inl e | Inr bcs \<Rightarrow> Inr (bc # bcs)))"

definition parse_bridges :: "protocol \<Rightarrow> json \<Rightarrow> bridge_error + bridge_config list" where
  "parse_bridges P doc =
     (let node = json_idx doc ''bridges''
      in if node = JNull then Inr []
         else (case json_as_array node of
                 None \<Rightarrow> Inl Bridges_not_array
               | Some bs \<Rightarrow> parse_bridge_list P 0 bs))"

subsection \<open>Remote addresses\<close>

datatype transport = Tcp | Tls | Ws | Wss

record endpoint =
  ep_transport :: transport
  ep_host :: string
  ep_port :: u16
  ep_ws_url :: "string option"

definition is_tls :: "endpoint \<Rightarrow> bool" where
  "is_tls ep \<longleftrightarrow> ep_transport ep = Tls \<or> ep_transport ep = Wss"

datatype endpoint_error =
    No_scheme string | Unknown_scheme string | Invalid_port string | Empty_host

text \<open>\<^verbatim>\<open>split_once("://")\<close>: the text before and after the first occurrence.\<close>

fun split_scheme :: "string \<Rightarrow> (string \<times> string) option" where
  "split_scheme [] = None"
| "split_scheme (c # cs) =
     (if starts_with (c # cs) ''://'' then Some ([], drop 3 (c # cs))
      else map_option (\<lambda>(a, b). (c # a, b)) (split_scheme cs))"

definition scheme_transport :: "string \<Rightarrow> (transport \<times> nat) option" where
  "scheme_transport s =
     (if s = ''tcp'' \<or> s = ''mqtt'' then Some (Tcp, 1883)
      else if s = ''tls'' \<or> s = ''mqtts'' \<or> s = ''ssl'' then Some (Tls, 8883)
      else if s = ''ws'' then Some (Ws, 8080)
      else if s = ''wss'' then Some (Wss, 8443) else None)"

text \<open>\<^verbatim>\<open>rsplit_once(':')\<close>.\<close>

definition rsplit_once :: "char \<Rightarrow> string \<Rightarrow> (string \<times> string) option" where
  "rsplit_once c s = map_option (\<lambda>(a, b). (rev b, rev a)) (split_once c (rev s))"

definition endpoint_parse :: "string \<Rightarrow> endpoint_error + endpoint" where
  "endpoint_parse address =
     (case split_scheme address of
        None \<Rightarrow> Inl (No_scheme address)
      | Some (scheme, rest) \<Rightarrow>
     (case scheme_transport (ascii_lowercase scheme) of
        None \<Rightarrow> Inl (Unknown_scheme (ascii_lowercase scheme))
      | Some (transport, default_port) \<Rightarrow>
         let hostport = takeWhile (\<lambda>c. c \<noteq> CHR ''/'') rest;
             path = dropWhile (\<lambda>c. c \<noteq> CHR ''/'') rest
         in case (case rsplit_once (CHR '':'') hostport of
                    Some (h, p) \<Rightarrow> (case parse_uint 65535 p of
                                     None \<Rightarrow> Inl (Invalid_port p) | Some n \<Rightarrow> Inr (h, n))
                  | None \<Rightarrow> Inr (hostport, default_port)) of
              Inl e \<Rightarrow> Inl e
            | Inr (host, port) \<Rightarrow>
                if host = [] then Inl Empty_host
                else Inr \<lparr>ep_transport = transport, ep_host = host, ep_port = of_nat port,
                          ep_ws_url =
                            (if transport = Ws \<or> transport = Wss
                             then Some (scheme @ ''://'' @ host @ '':'' @ show_nat port
                                        @ (if path = [] then ''/mqtt'' else path))
                             else None)\<rparr>))"

subsection \<open>What a parsed bridge satisfies\<close>

definition bridge_ok :: "protocol \<Rightarrow> bridge_config \<Rightarrow> bool" where
  "bridge_ok P bc \<longleftrightarrow> bc_topics bc \<noteq> [] \<and> list_all (\<lambda>t. valid_topic_filter P (bt_pattern t)) (bc_topics bc)"

lemma parse_topic_list_ok:
  "parse_topic_list P i j ts = Inr bts \<Longrightarrow>
   length bts = length ts \<and> list_all (\<lambda>t. valid_topic_filter P (bt_pattern t)) bts"
  by (induction ts arbitrary: j bts)
    (auto simp: parse_topic_def split: sum.splits if_splits option.splits)

lemma parse_bridge_ok: "parse_bridge P i b = Inr bc \<Longrightarrow> bridge_ok P bc"
  by (auto simp: parse_bridge_def bridge_ok_def parse_topics_def Let_def dest!: parse_topic_list_ok
      split: sum.splits if_splits option.splits)

lemma parse_bridge_list_ok:
  "parse_bridge_list P i bs = Inr bcs \<Longrightarrow> length bcs = length bs \<and> list_all (bridge_ok P) bcs"
  by (induction bs arbitrary: i bcs) (auto split: sum.splits dest: parse_bridge_ok)

lemma parse_bridges_ok: "parse_bridges P doc = Inr bcs \<Longrightarrow> list_all (bridge_ok P) bcs"
  by (auto simp: parse_bridges_def Let_def split: if_splits option.splits dest: parse_bridge_list_ok)

text \<open>An address written as scheme, host and port reads back as exactly these.\<close>

lemma split_scheme_append:
  "CHR '':'' \<notin> set s \<Longrightarrow> split_scheme (s @ ''://'' @ r) = Some (s, r)"
  by (induction s) (auto simp: starts_with_def)

lemma rsplit_once_append: "c \<notin> set p \<Longrightarrow> rsplit_once c (h @ c # p) = Some (h, p)"
  using split_once_append [of c "rev p" "rev h"] by (simp add: rsplit_once_def)

lemma endpoint_roundtrip:
  assumes "CHR '':'' \<notin> set scheme" and "scheme_transport (ascii_lowercase scheme) = Some (tr, dp)"
    and "host \<noteq> []" and "CHR ''/'' \<notin> set host" and "n \<le> 65535"
    and "path = [] \<or> hd path = CHR ''/''"
  shows "\<exists>ep. endpoint_parse (scheme @ ''://'' @ host @ '':'' @ show_nat n @ path) = Inr ep
    \<and> ep_transport ep = tr \<and> ep_host ep = host \<and> unat (ep_port ep) = n"
proof -
  have dig: "\<forall>c \<in> set (show_nat n). c \<noteq> CHR ''/'' \<and> c \<noteq> CHR '':''"
    using show_nat_digits [of n] by (auto simp: is_digit_def)
  have "\<forall>c \<in> set (host @ '':'' @ show_nat n). c \<noteq> CHR ''/''"
    using assms(4) dig by auto
  then have tw: "takeWhile (\<lambda>c. c \<noteq> CHR ''/'') ((host @ '':'' @ show_nat n) @ path) =
      host @ '':'' @ show_nat n"
    using assms(6) by (cases path) (simp_all add: takeWhile_append2)
  have "rsplit_once (CHR '':'') (host @ '':'' @ show_nat n) = Some (host, show_nat n)"
    using rsplit_once_append [of "CHR '':''" "show_nat n" host] dig by auto
  moreover have "unat (of_nat n :: u16) = n" using assms(5) by (simp add: unat_of_nat)
  ultimately show ?thesis
    using split_scheme_append [OF assms(1), of "host @ '':'' @ show_nat n @ path"] assms tw
    by (simp add: endpoint_parse_def parse_uint_show Let_def)
qed

end
