(* ===== verification/Bridge_Link.thy ===== *)
theory Bridge_Link
  imports Server Bridge_Config
begin

section \<open>The bridge runtime\<close>

text \<open>
  The second half of \<^verbatim>\<open>src/src/bridge.rs\<close>: the registration of a bridge, the reconnect loop with its
  back-off, the CONNECT and SUBSCRIBE towards the remote, and the forwarding loop. As for the connection
  tasks, what the remote and the socket do are arguments (the outcome of a read, the outcome \<open>w\<close> of a
  write), and the events of the loop are an item from the channel, a read, and a tick of the ping timer. The
  state of one link is the record \<open>link\<close>; its last two fields are history: the packets written to the
  remote and the messages injected into local routing. The clock counts nanoseconds. Establishing the TCP,
  TLS and WebSocket streams is left to the libraries: \<open>connect_and_serve\<close> starts with their outcome.
\<close>

record link =
  lk_inbound_qos2 :: "u16 list"
  lk_next_id :: u16
  lk_last_rx :: nat
  lk_written :: "packet list"
  lk_injected :: "message list"

definition link_new :: "nat \<Rightarrow> packet list \<Rightarrow> link" where
  "link_new time written =
     \<lparr>lk_inbound_qos2 = [], lk_next_id = 2, lk_last_rx = time, lk_written = written, lk_injected = []\<rparr>"

text \<open>Where the forwarding loop stands after an event: it goes on, or it returned.\<close>

datatype progress = Running | Returned "mqtt_error + bool"

subsection \<open>Packets to and from the remote\<close>

definition bridge_send :: "packet \<Rightarrow> write_outcome \<Rightarrow> broker \<Rightarrow> mqtt_error option \<times> broker" where
  "bridge_send p w b =
     (case w of
        Inl e \<Rightarrow> (Some (error_from_protocol e), b)
      | Inr n \<Rightarrow>
          (None, b\<lparr>b_metrics := count_payload_sent p (record_sent (packet_type p) n (b_metrics b))\<rparr>))"

definition link_send ::
    "packet \<Rightarrow> write_outcome \<Rightarrow> link \<times> broker \<Rightarrow> progress \<times> link \<times> broker" where
  "link_send p w lb =
     (case bridge_send p w (snd lb) of
        (None, b) \<Rightarrow> (Running, (fst lb)\<lparr>lk_written := lk_written (fst lb) @ [p]\<rparr>, b)
      | (Some e, b) \<Rightarrow> (Returned (Inl e), fst lb, b))"

definition bridge_record_received :: "packet \<Rightarrow> nat \<Rightarrow> broker \<Rightarrow> broker" where
  "bridge_record_received p n b = count_payload_received p (count_received p n b)"

definition build_connect :: "protocol \<Rightarrow> bridge_config \<Rightarrow> connect" where
  "build_connect P cfg =
     \<lparr>cn_protocol_name = (if bc_protocol_version cfg = V3_1 then ''MQIsdp'' else ''MQTT''),
      cn_protocol_version = version_level P (bc_protocol_version cfg), cn_clean_start = True,
      cn_keep_alive = bc_keepalive cfg, cn_properties = no_properties, cn_client_id = bc_client_id cfg,
      cn_will = None, cn_username = bc_username cfg, cn_password = map_option bytes_of (bc_password cfg)\<rparr>"

definition out_qos :: "protocol \<Rightarrow> bridge_config \<Rightarrow> string \<Rightarrow> qos" where
  "out_qos P cfg topic =
     (case List.find (\<lambda>t. forwards_out (bt_direction t) \<and> topic_matches P (bt_pattern t) topic) (bc_topics cfg) of
        None \<Rightarrow> AtMostOnce
      | Some t \<Rightarrow> bt_qos t)"

definition in_filters :: "bridge_config \<Rightarrow> topic_filter list" where
  "in_filters cfg =
     map (\<lambda>t. \<lparr>tf_filter = bt_pattern t, tf_qos = bt_qos t, tf_no_local = False,
               tf_retain_as_published = False, tf_retain_handling = SendAtSubscribe\<rparr>)
       (filter (\<lambda>t. forwards_in (bt_direction t)) (bc_topics cfg))"

subsection \<open>The forwarding loop\<close>

text \<open>\<^verbatim>\<open>next_id\<close> as the loop advances it.\<close>

definition advance_id :: "u16 \<Rightarrow> u16" where
  "advance_id i = (if i = 65535 then 1 else i + 1)"

definition forward :: "protocol \<Rightarrow> bridge_config \<Rightarrow> publish \<Rightarrow> link \<Rightarrow> publish \<times> link" where
  "forward P cfg p lk =
     (let q = out_qos P cfg (pub_topic p);
          (packet_id, lk') =
            (if q = AtMostOnce then (None, lk)
             else (Some (lk_next_id lk), lk\<lparr>lk_next_id := advance_id (lk_next_id lk)\<rparr>))
      in (\<lparr>pub_dup = False, pub_qos = q, pub_retain = pub_retain p, pub_topic = pub_topic p,
           pub_packet_id = packet_id, pub_properties = pub_properties p, pub_payload = pub_payload p\<rparr>, lk'))"

definition count_out :: "broker \<Rightarrow> broker" where
  "count_out b = b\<lparr>b_metrics := (b_metrics b)\<lparr>mx_bridge_forwarded_out := mx_bridge_forwarded_out (b_metrics b) + 1\<rparr>\<rparr>"

definition link_out ::
    "protocol \<Rightarrow> bridge_config \<Rightarrow> outgoing option \<Rightarrow> write_outcome \<Rightarrow> link \<times> broker \<Rightarrow>
     progress \<times> link \<times> broker" where
  "link_out P cfg item w lb =
     (case item of
        None \<Rightarrow> (Returned (Inr True), lb)
      | Some (Send p) \<Rightarrow>
          let (fwd, lk) = forward P cfg p (fst lb)
          in (case link_send (Publish fwd) w (lk, snd lb) of
                (Running, lk', b) \<Rightarrow> (Running, lk', count_out b)
              | stop \<Rightarrow> stop)
      | Some (Control _) \<Rightarrow> (Running, lb)
      | Some (Shutdown _) \<Rightarrow> (Returned (Inr True), lb))"

definition count_in :: "broker \<Rightarrow> broker" where
  "count_in b = b\<lparr>b_metrics := (b_metrics b)\<lparr>mx_bridge_forwarded_in := mx_bridge_forwarded_in (b_metrics b) + 1\<rparr>\<rparr>"

definition inject :: "protocol \<Rightarrow> u64 \<Rightarrow> string \<Rightarrow> publish \<Rightarrow> link \<times> broker \<Rightarrow> link \<times> broker" where
  "inject P now from p lb =
     (let i = (case pub_packet_id p of None \<Rightarrow> 0 | Some i \<Rightarrow> i); (lk, b) = lb; m = from_publish now p
      in if pub_qos p = ExactlyOnce \<and> i \<in> set (lk_inbound_qos2 lk) then lb
         else (lk\<lparr>lk_inbound_qos2 :=
                    (if pub_qos p = ExactlyOnce then List.insert i (lk_inbound_qos2 lk) else lk_inbound_qos2 lk),
                  lk_injected := lk_injected lk @ [m]\<rparr>,
               count_in (inject_publish P now from m b)))"

definition handle_inbound ::
    "protocol \<Rightarrow> u64 \<Rightarrow> string \<Rightarrow> publish \<Rightarrow> write_outcome \<Rightarrow> link \<times> broker \<Rightarrow> progress \<times> link \<times> broker" where
  "handle_inbound P now from p w lb =
     (let i = (case pub_packet_id p of None \<Rightarrow> 0 | Some i \<Rightarrow> i); lb' = inject P now from p lb
      in (case pub_qos p of
            AtMostOnce \<Rightarrow> (Running, lb')
          | AtLeastOnce \<Rightarrow> link_send (Puback (puback_new i Success)) w lb'
          | ExactlyOnce \<Rightarrow> link_send (Pubrec (puback_new i Success)) w lb'))"

definition link_packet ::
    "protocol \<Rightarrow> u64 \<Rightarrow> string \<Rightarrow> packet \<Rightarrow> write_outcome \<Rightarrow> link \<times> broker \<Rightarrow> progress \<times> link \<times> broker" where
  "link_packet P now from pkt w lb =
     (case pkt of
        Publish p \<Rightarrow> handle_inbound P now from p w lb
      | Pubrec a \<Rightarrow> link_send (Pubrel (puback_new (ack_packet_id a) Success)) w lb
      | Pubrel a \<Rightarrow>
          link_send (Pubcomp (puback_new (ack_packet_id a) Success)) w
            ((fst lb)\<lparr>lk_inbound_qos2 := removeAll (ack_packet_id a) (lk_inbound_qos2 (fst lb))\<rparr>, snd lb)
      | Disconnect _ \<Rightarrow> (Returned (Inr True), lb)
      | _ \<Rightarrow> (Running, lb))"

text \<open>The read of the forwarding loop has no timeout of its own.\<close>

definition link_read ::
    "protocol \<Rightarrow> u64 \<Rightarrow> nat \<Rightarrow> string \<Rightarrow> (protocol_error + (packet \<times> nat) option) \<Rightarrow> write_outcome \<Rightarrow>
     link \<times> broker \<Rightarrow> progress \<times> link \<times> broker" where
  "link_read P now time from res w lb =
     (let lk = (fst lb)\<lparr>lk_last_rx := time\<rparr>
      in (case res of
            Inl e \<Rightarrow> (Returned (Inl (error_from_protocol e)), lk, snd lb)
          | Inr None \<Rightarrow> (Returned (Inr True), lk, snd lb)
          | Inr (Some (pkt, n)) \<Rightarrow>
              link_packet P now from pkt w (lk, bridge_record_received pkt n (snd lb))))"

definition link_tick ::
    "bridge_config \<Rightarrow> nat \<Rightarrow> write_outcome \<Rightarrow> link \<times> broker \<Rightarrow> progress \<times> link \<times> broker" where
  "link_tick cfg time w lb =
     (let ka = unat (bc_keepalive cfg)
      in if ka > 0 then
           if time - lk_last_rx (fst lb) > secs (ka * 2)
           then (Returned (Inl (Protocol ''bridge remote keep-alive timeout'')), lb)
           else link_send Pingreq w lb
         else (Running, lb))"

definition ping_interval :: "bridge_config \<Rightarrow> nat" where
  "ping_interval cfg = (let ka = unat (bc_keepalive cfg) in secs (if ka > 0 then ka else 3600))"

subsection \<open>One connection\<close>

text \<open>A list of events of the loop, each with the clock it reads and the outcome of its write.\<close>

datatype link_event =
    OutItem "outgoing option" write_outcome
  | Inbound u64 nat "protocol_error + (packet \<times> nat) option" write_outcome
  | Tick nat write_outcome

fun link_step ::
    "protocol \<Rightarrow> bridge_config \<Rightarrow> string \<Rightarrow> link_event \<Rightarrow> link \<times> broker \<Rightarrow> progress \<times> link \<times> broker" where
  "link_step P cfg from (OutItem item w) lb = link_out P cfg item w lb"
| "link_step P cfg from (Inbound now time res w) lb = link_read P now time from res w lb"
| "link_step P cfg from (Tick time w) lb = link_tick cfg time w lb"

text \<open>\<^verbatim>\<open>run_loop\<close> on the events it sees; when they are used up it is still running.\<close>

fun run_loop ::
    "protocol \<Rightarrow> bridge_config \<Rightarrow> string \<Rightarrow> link_event list \<Rightarrow> link \<times> broker \<Rightarrow> progress \<times> link \<times> broker" where
  "run_loop P cfg from [] lb = (Running, lb)"
| "run_loop P cfg from (ev # evs) lb =
     (case link_step P cfg from ev lb of
        (Running, lb') \<Rightarrow> run_loop P cfg from evs lb'
      | stop \<Rightarrow> stop)"

definition count_bridges :: "u64 \<Rightarrow> broker \<Rightarrow> broker" where
  "count_bridges d b = b\<lparr>b_metrics := (b_metrics b)\<lparr>mx_bridges_connected := mx_bridges_connected (b_metrics b) + d\<rparr>\<rparr>"

text \<open>A name between quotes, as the messages show it (the escapes of \<^verbatim>\<open>{:?}\<close> are left out).\<close>

definition quoted :: "string \<Rightarrow> string" where
  "quoted s = [CHR 0x22] @ s @ [CHR 0x22]"

text \<open>\<^verbatim>\<open>serve\<close> up to the loop: CONNECT, CONNACK, SUBSCRIBE. \<open>Inl\<close> is an early return.\<close>

definition serve_start ::
    "protocol \<Rightarrow> bridge_config \<Rightarrow> nat \<Rightarrow> write_outcome \<Rightarrow> (protocol_error + (packet \<times> nat) option) \<Rightarrow> write_outcome \<Rightarrow>
     broker \<Rightarrow> ((mqtt_error + bool) + link) \<times> broker" where
  "serve_start P cfg time w1 res w2 b =
     (let connect = Connect (build_connect P cfg)
      in (case bridge_send connect w1 b of
            (Some e, b1) \<Rightarrow> (Inl (Inl e), b1)
          | (None, b1) \<Rightarrow>
              (case res of
                 Inl e \<Rightarrow> (Inl (Inl (error_from_protocol e)), b1)
               | Inr None \<Rightarrow> (Inl (Inr False), b1)
               | Inr (Some (pkt, n)) \<Rightarrow>
                   let b2 = bridge_record_received pkt n b1
                   in (case pkt of
                         Connack c \<Rightarrow>
                           if rc_is_error P (ca_reason_code c) then (Inl (Inr False), b2)
                           else if in_filters cfg = [] then (Inr (link_new time [connect]), count_bridges 1 b2)
                           else
                             let sub = Subscribe \<lparr>sb_packet_id = 1, sb_properties = no_properties,
                                                  sb_filters = in_filters cfg\<rparr>
                             in (case bridge_send sub w2 b2 of
                                   (Some e, b3) \<Rightarrow> (Inl (Inl e), b3)
                                 | (None, b3) \<Rightarrow> (Inr (link_new time [connect, sub]), count_bridges 1 b3))
                       | _ \<Rightarrow>
                           (Inl (Inl (Protocol (''bridge '' @ quoted (bc_name cfg) @ '': expected CONNACK, got '' @ packet_name P pkt))),
                            b2)))))"

definition serve ::
    "protocol \<Rightarrow> bridge_config \<Rightarrow> string \<Rightarrow> nat \<Rightarrow> write_outcome \<Rightarrow> (protocol_error + (packet \<times> nat) option) \<Rightarrow>
     write_outcome \<Rightarrow> link_event list \<Rightarrow> broker \<Rightarrow> progress \<times> broker" where
  "serve P cfg from time w1 res w2 evs b =
     (case serve_start P cfg time w1 res w2 b of
        (Inl out, b1) \<Rightarrow> (Returned out, b1)
      | (Inr lk, b1) \<Rightarrow>
          (case run_loop P cfg from evs (lk, b1) of
             (Running, _, b2) \<Rightarrow> (Running, b2)
           | (Returned out, _, b2) \<Rightarrow> (Returned out, count_bridges (- 1) b2)))"

subsection \<open>The bridge task\<close>

definition bridge_start :: "bridge_config \<Rightarrow> broker \<Rightarrow> broker" where
  "bridge_start cfg b =
     foldl (\<lambda>b t. if forwards_out (bt_direction t)
                  then bridge_add_subscription (bridge_client (bc_name cfg)) (bt_pattern t) True b else b)
       (snd (register_bridge (bridge_client (bc_name cfg)) channel_new b)) (bc_topics cfg)"

text \<open>The rest of the task's start: an address that does not parse ends the task, which drops the receiving end of the
  channel; otherwise the flag says whether the warning about unverified certificates is logged.\<close>

definition bridge_begin :: "bridge_config \<Rightarrow> broker \<Rightarrow> (endpoint_error + bool \<times> endpoint) \<times> broker" where
  "bridge_begin cfg b =
     (let b1 = bridge_start cfg b
      in case endpoint_parse (bc_address cfg) of
           Inl e \<Rightarrow> (Inl e, update_session (bridge_client (bc_name cfg)) hang_up b1)
         | Inr ep \<Rightarrow> (Inr (bc_tls_insecure cfg \<and> is_tls ep, ep), b1))"

text \<open>The delay, in seconds, before the next attempt.\<close>

fun next_delay :: "mqtt_error + bool \<Rightarrow> nat \<Rightarrow> nat" where
  "next_delay (Inr True) delay = 1"
| "next_delay (Inr False) delay = min (delay * 2) 60"
| "next_delay (Inl _) delay = min (delay * 2) 60"

text \<open>The delays slept after a list of outcomes of \<^verbatim>\<open>connect_and_serve\<close>.\<close>

fun delays :: "nat \<Rightarrow> (mqtt_error + bool) list \<Rightarrow> nat list" where
  "delays delay [] = []"
| "delays delay (out # outs) = next_delay out delay # delays (next_delay out delay) outs"

subsection \<open>Packet identifiers\<close>

lemma advance_id_unat: "i \<noteq> 0 \<Longrightarrow> unat (advance_id i) = unat i mod 65535 + 1"
proof (cases "i = 65535")
  case False
  assume "i \<noteq> 0"
  have "unat i < 65536" using unsigned_less [of i, where ?'a = nat] by simp
  moreover have "unat i \<noteq> 65535" using False by (auto simp: word_unat_eq_iff)
  ultimately show ?thesis using False by (simp add: advance_id_def unat_word_ariths)
qed (simp add: advance_id_def)

lemma advance_id_nonzero: "i \<noteq> 0 \<Longrightarrow> advance_id i \<noteq> 0"
  using advance_id_unat [of i] by auto

lemma advance_iter:
  "i \<noteq> 0 \<Longrightarrow> (advance_id ^^ k) i \<noteq> 0 \<and> unat ((advance_id ^^ k) i) = (unat i - 1 + k) mod 65535 + 1"
proof (induction k)
  case 0
  have "unat i < 65536" using unsigned_less [of i, where ?'a = nat] by simp
  moreover have "unat i \<noteq> 0" using 0 by (simp add: unat_eq_0)
  ultimately show ?case using 0 by simp
next
  case (Suc k)
  then show ?case by (simp add: advance_id_unat advance_id_nonzero mod_simps)
qed

lemma advance_iter_distinct:
  assumes "i \<noteq> 0" and "j < k" and "k - j < 65535"
  shows "(advance_id ^^ j) i \<noteq> (advance_id ^^ k) i"
proof
  assume "(advance_id ^^ j) i = (advance_id ^^ k) i"
  then have "(unat i - 1 + j) mod 65535 = (unat i - 1 + k) mod 65535"
    using advance_iter [OF assms(1), of j] advance_iter [OF assms(1), of k] by simp
  then have "65535 dvd k - j" using assms(2) by (metis add_diff_cancel_left less_imp_le mod_eq_dvd_iff_nat nat_add_left_cancel_le)
  with assms(2,3) show False by (auto dest: dvd_imp_le)
qed

fun publish_id :: "packet \<Rightarrow> u16 option" where
  "publish_id (Publish q) = pub_packet_id q"
| "publish_id _ = None"

definition written_ids :: "packet list \<Rightarrow> u16 list" where
  "written_ids ps = List.map_filter publish_id ps"

lemma written_ids_snoc [simp]:
  "written_ids (ps @ [p]) = written_ids ps @ (case publish_id p of None \<Rightarrow> [] | Some i \<Rightarrow> [i])"
  by (simp add: written_ids_def List.map_filter_def split: option.split)

text \<open>The identifiers written so far are the first ones of the sequence, and the next one follows them,
  unless the loop has ended with a write that failed.\<close>

definition ids_in_sequence :: "progress \<Rightarrow> link \<Rightarrow> bool" where
  "ids_in_sequence pr lk \<longleftrightarrow>
     (let ids = written_ids (lk_written lk)
      in ids = map (\<lambda>k. (advance_id ^^ k) 2) [0..<length ids]
         \<and> (pr = Running \<longrightarrow> lk_next_id lk = (advance_id ^^ length ids) 2))"

lemma ids_stop: "ids_in_sequence Running lk \<Longrightarrow> ids_in_sequence pr lk"
  by (simp add: ids_in_sequence_def Let_def)

lemma ids_same:
  "lk_written lk' = lk_written lk \<Longrightarrow> lk_next_id lk' = lk_next_id lk \<Longrightarrow> ids_in_sequence pr lk' = ids_in_sequence pr lk"
  by (simp add: ids_in_sequence_def)

lemma link_send_ids:
  assumes "ids_in_sequence Running lk" and "publish_id p = None"
  shows "ids_in_sequence (fst (link_send p w (lk, b))) (fst (snd (link_send p w (lk, b))))"
  using assms by (auto simp: link_send_def bridge_send_def ids_in_sequence_def Let_def split: sum.split)

lemma forward_ids:
  assumes "ids_in_sequence Running lk"
  shows "ids_in_sequence (fst (link_out P cfg (Some (Send p)) w (lk, b)))
    (fst (snd (link_out P cfg (Some (Send p)) w (lk, b))))"
proof -
  obtain fwd lk' where f: "forward P cfg p lk = (fwd, lk')" by force
  then have same: "lk_written lk' = lk_written lk" by (auto simp: forward_def Let_def split: if_splits)
  show ?thesis
  proof (cases "pub_packet_id fwd")
    case None
    with f have "lk' = lk" by (auto simp: forward_def Let_def split: if_splits)
    with None f assms show ?thesis
      by (auto simp: link_out_def link_send_def bridge_send_def ids_in_sequence_def Let_def split: sum.split)
  next
    case (Some i)
    with f have "i = lk_next_id lk" "lk_next_id lk' = advance_id (lk_next_id lk)"
      by (auto simp: forward_def Let_def split: if_splits)
    with Some f assms same show ?thesis
      by (auto simp: link_out_def link_send_def bridge_send_def ids_in_sequence_def Let_def split: sum.split)
  qed
qed

lemma handle_inbound_ids:
  assumes "ids_in_sequence Running lk"
  shows "ids_in_sequence (fst (handle_inbound P now from p w (lk, b))) (fst (snd (handle_inbound P now from p w (lk, b))))"
proof -
  obtain lk' b' where j: "inject P now from p (lk, b) = (lk', b')" by force
  then have "lk_written lk' = lk_written lk" "lk_next_id lk' = lk_next_id lk"
    by (auto simp: inject_def Let_def split: if_splits)
  from ids_same [OF this] assms have "ids_in_sequence Running lk'" by simp
  from link_send_ids [OF this] this show ?thesis
    by (simp add: handle_inbound_def Let_def j split: qos.split)
qed

lemma link_packet_ids:
  assumes "ids_in_sequence Running lk"
  shows "ids_in_sequence (fst (link_packet P now from pkt w (lk, b))) (fst (snd (link_packet P now from pkt w (lk, b))))"
proof -
  have "ids_in_sequence Running (lk\<lparr>lk_inbound_qos2 := x\<rparr>)" for x
    using assms ids_same [of "lk\<lparr>lk_inbound_qos2 := x\<rparr>" lk] by simp
  note released = link_send_ids [OF this]
  from assms show ?thesis
    by (cases pkt) (simp_all add: link_packet_def handle_inbound_ids link_send_ids released ids_stop)
qed

lemma link_step_ids:
  assumes "ids_in_sequence Running lk"
  shows "ids_in_sequence (fst (link_step P cfg from ev (lk, b))) (fst (snd (link_step P cfg from ev (lk, b))))"
proof (cases ev)
  case (OutItem item w)
  show ?thesis
  proof (cases "\<exists>p. item = Some (Send p)")
    case True
    then show ?thesis using forward_ids [OF assms] by (auto simp: OutItem)
  next
    case False
    then show ?thesis using assms
      by (cases item; cases "the item") (auto simp: OutItem link_out_def ids_stop)
  qed
next
  case (Inbound now time res w)
  have rx: "ids_in_sequence Running (lk\<lparr>lk_last_rx := time\<rparr>)"
    using assms ids_same [of "lk\<lparr>lk_last_rx := time\<rparr>" lk] by simp
  from link_packet_ids [OF this] ids_stop [OF this] show ?thesis
    by (simp add: Inbound link_read_def Let_def split: sum.split option.split)
next
  case (Tick time w)
  with assms link_send_ids [OF assms] show ?thesis by (simp add: link_tick_def Let_def ids_stop)
qed

lemma run_loop_ids:
  "ids_in_sequence Running lk \<Longrightarrow>
     ids_in_sequence (fst (run_loop P cfg from evs (lk, b))) (fst (snd (run_loop P cfg from evs (lk, b))))"
proof (induction evs arbitrary: lk b)
  case (Cons ev evs)
  obtain pr lk' b' where s: "link_step P cfg from ev (lk, b) = (pr, lk', b')"
    by (cases "link_step P cfg from ev (lk, b)") auto
  from link_step_ids [OF Cons.prems, of P cfg "from" ev b] s Cons.IH [of lk' b'] show ?case
    by (cases pr) (simp_all add: s)
qed simp

subsection \<open>Exactly-once injection\<close>

text \<open>The packets that a list of events reads, with the clock at each; a missing identifier counts as 0.\<close>

fun read_of :: "link_event \<Rightarrow> (u64 \<times> packet) option" where
  "read_of (Inbound now _ (Inr (Some (pkt, _))) _) = Some (now, pkt)"
| "read_of _ = None"

fun qos2_id :: "packet \<Rightarrow> u16 option" where
  "qos2_id (Publish p) =
     (if pub_qos p = ExactlyOnce then Some (case pub_packet_id p of None \<Rightarrow> 0 | Some i \<Rightarrow> i) else None)"
| "qos2_id _ = None"

fun released_id :: "packet \<Rightarrow> u16 option" where
  "released_id (Pubrel a) = Some (ack_packet_id a)"
| "released_id _ = None"

text \<open>The reference: a QoS 2 PUBLISH with identifier \<open>i\<close> is open in \<open>ps\<close> when no PUBREL for \<open>i\<close> followed it.
  A PUBLISH of \<open>ps\<close> is a repetition when it is QoS 2 and its identifier was open before it.\<close>

definition open_in :: "packet list \<Rightarrow> u16 \<Rightarrow> bool" where
  "open_in ps i \<longleftrightarrow>
     (\<exists>j < length ps. qos2_id (ps ! j) = Some i \<and> (\<forall>k. j < k \<and> k < length ps \<longrightarrow> released_id (ps ! k) \<noteq> Some i))"

definition passed :: "packet list \<Rightarrow> u64 \<times> packet \<Rightarrow> message list" where
  "passed before r =
     (case snd r of
        Publish p \<Rightarrow>
          if (case qos2_id (snd r) of None \<Rightarrow> False | Some i \<Rightarrow> open_in before i) then []
          else [from_publish (fst r) p]
      | _ \<Rightarrow> [])"

definition once_only :: "(u64 \<times> packet) list \<Rightarrow> message list" where
  "once_only rs = concat (map (\<lambda>n. passed (map snd (take n rs)) (rs ! n)) [0..<length rs])"

lemma open_in_Nil [simp]: "\<not> open_in [] i"
  by (simp add: open_in_def)

lemma open_in_snoc:
  "open_in (ps @ [p]) i \<longleftrightarrow> qos2_id p = Some i \<or> open_in ps i \<and> released_id p \<noteq> Some i"
proof
  assume "open_in (ps @ [p]) i"
  then obtain j where j: "j < Suc (length ps)" "qos2_id ((ps @ [p]) ! j) = Some i"
    "\<And>k. j < k \<Longrightarrow> k < Suc (length ps) \<Longrightarrow> released_id ((ps @ [p]) ! k) \<noteq> Some i"
    by (auto simp: open_in_def)
  show "qos2_id p = Some i \<or> open_in ps i \<and> released_id p \<noteq> Some i"
  proof (cases "j = length ps")
    case False
    with j(1) have l: "j < length ps" by simp
    with j(3) [of "length ps"] have "released_id p \<noteq> Some i" by simp
    moreover have "open_in ps i" unfolding open_in_def
    proof (intro exI [of _ j] conjI allI impI)
      show "released_id (ps ! k) \<noteq> Some i" if "j < k \<and> k < length ps" for k
        using j(3) [of k] that by (simp add: nth_append)
    qed (use l j(2) in \<open>simp_all add: nth_append\<close>)
    ultimately show ?thesis by blast
  qed (use j in simp)
next
  assume "qos2_id p = Some i \<or> open_in ps i \<and> released_id p \<noteq> Some i"
  then show "open_in (ps @ [p]) i"
  proof (elim disjE conjE)
    assume "qos2_id p = Some i"
    then show ?thesis unfolding open_in_def by (intro exI [of _ "length ps"]) auto
  next
    assume "open_in ps i" "released_id p \<noteq> Some i"
    then show ?thesis unfolding open_in_def
      by (metis (no_types, lifting) length_append_singleton less_Suc_eq nth_append nth_append_length)
  qed
qed

lemma once_only_snoc: "once_only (rs @ [r]) = once_only rs @ passed (map snd rs) r"
proof -
  let ?f = "\<lambda>n. passed (map snd (take n (rs @ [r]))) ((rs @ [r]) ! n)"
  have same: "map ?f [0..<length rs] = map (\<lambda>n. passed (map snd (take n rs)) (rs ! n)) [0..<length rs]"
    by (rule map_cong) (auto simp: nth_append)
  have "once_only (rs @ [r]) = concat (map ?f [0..<length rs]) @ ?f (length rs)"
    by (simp add: once_only_def del: take_append)
  then show ?thesis unfolding same by (simp add: once_only_def)
qed

text \<open>The loop keeps exactly the open identifiers, and has injected what the reference passes.\<close>

definition injection_inv :: "(u64 \<times> packet) list \<Rightarrow> link \<Rightarrow> bool" where
  "injection_inv rs lk \<longleftrightarrow>
     (\<forall>i. i \<in> set (lk_inbound_qos2 lk) \<longleftrightarrow> open_in (map snd rs) i) \<and> lk_injected lk = once_only rs"

lemma link_send_history:
  "lk_inbound_qos2 (fst (snd (link_send p w lb))) = lk_inbound_qos2 (fst lb)"
  "lk_injected (fst (snd (link_send p w lb))) = lk_injected (fst lb)"
  by (simp_all add: link_send_def bridge_send_def split: sum.split)

lemma handle_inbound_history:
  "lk_inbound_qos2 (fst (snd (handle_inbound P now from p w lb))) = lk_inbound_qos2 (fst (inject P now from p lb))"
  "lk_injected (fst (snd (handle_inbound P now from p w lb))) = lk_injected (fst (inject P now from p lb))"
  by (simp_all add: handle_inbound_def Let_def link_send_history split: qos.split)

lemma link_packet_history:
  assumes "injection_inv rs lk"
  shows "injection_inv (rs @ [(now, pkt)]) (fst (snd (link_packet P now from pkt w (lk, b))))"
  using assms
  by (cases pkt)
    (auto simp: injection_inv_def link_packet_def open_in_snoc once_only_snoc passed_def link_send_history
      handle_inbound_history inject_def Let_def)

lemma link_step_history:
  assumes "injection_inv rs lk"
  shows "injection_inv (rs @ (case read_of ev of None \<Rightarrow> [] | Some r \<Rightarrow> [r]))
    (fst (snd (link_step P cfg from ev (lk, b))))"
proof (cases ev)
  case (OutItem item w)
  have "injection_inv rs (fst (snd (link_out P cfg item w (lk, b))))"
    using assms by (auto simp: link_out_def forward_def Let_def injection_inv_def link_send_def bridge_send_def
        split: option.split outgoing.split sum.split)
  then show ?thesis by (simp add: OutItem)
next
  case (Inbound now time res w)
  have "injection_inv rs (lk\<lparr>lk_last_rx := time\<rparr>)" using assms by (simp add: injection_inv_def)
  from link_packet_history [OF this] this show ?thesis
    by (auto simp: Inbound link_read_def Let_def split: sum.split option.split)
next
  case (Tick time w)
  with assms show ?thesis by (simp add: link_tick_def Let_def injection_inv_def link_send_history)
qed

lemma run_loop_history:
  "injection_inv rs lk \<Longrightarrow> fst (run_loop P cfg from evs (lk, b)) = Running \<Longrightarrow>
     injection_inv (rs @ List.map_filter read_of evs) (fst (snd (run_loop P cfg from evs (lk, b))))"
proof (induction evs arbitrary: rs lk b)
  case Nil
  then show ?case by (simp add: List.map_filter_def)
next
  case (Cons ev evs)
  obtain pr lk' b' where s: "link_step P cfg from ev (lk, b) = (pr, lk', b')"
    by (cases "link_step P cfg from ev (lk, b)") auto
  with Cons.prems(2) have pr: "pr = Running" by (cases pr) simp_all
  let ?r = "case read_of ev of None \<Rightarrow> [] | Some r \<Rightarrow> [r]"
  have "injection_inv (rs @ ?r) lk'"
    using link_step_history [OF Cons.prems(1), of ev P cfg "from" b] s by simp
  from Cons.IH [OF this, of b'] Cons.prems(2) s pr show ?case
    by (auto simp: List.map_filter_def split: option.splits)
qed

subsection \<open>Back-off\<close>

lemma next_delay_range: "1 \<le> d \<Longrightarrow> 1 \<le> next_delay out d \<and> next_delay out d \<le> 60"
  by (cases "(out, d)" rule: next_delay.cases) auto

lemma delays_range: "1 \<le> d \<Longrightarrow> \<forall>x \<in> set (delays d outs). 1 \<le> x \<and> x \<le> 60"
  by (induction d outs rule: delays.induct) (use next_delay_range in force)+

lemma delays_failures:
  "\<forall>out \<in> set outs. out \<noteq> Inr True \<Longrightarrow> 1 \<le> d \<Longrightarrow>
     delays d outs = map (\<lambda>k. min (d * 2 ^ Suc k) 60) [0..<length outs]"
proof (induction d outs rule: delays.induct)
  case (2 d out outs)
  then have n: "next_delay out d = min (d * 2) 60" by (cases "(out, d)" rule: next_delay.cases) auto
  have "min (next_delay out d * 2 ^ Suc k) 60 = min (d * 2 ^ Suc (Suc k)) 60" for k :: nat
  proof (cases "d * 2 \<le> 60")
    case False
    have "d \<le> d * 2 ^ k" by simp
    with False have "15 \<le> d * 2 ^ k" by linarith
    moreover have "\<not> 2 * (2::nat) ^ k \<le> Suc 0" using one_le_power [of "2::nat" k] by linarith
    ultimately show ?thesis using False n by (simp add: min_def algebra_simps)
  qed (simp add: n algebra_simps)
  with 2 n show ?case
    by (simp add: map_upt_Suc next_delay_range del: upt_Suc)
qed simp

subsection \<open>The session of a bridge\<close>

lemma count_frame [simp]:
  "b_sessions (count_in b) = b_sessions b" "b_sessions (count_out b) = b_sessions b"
  "b_sessions (snd (bridge_send p w b)) = b_sessions b"
  "b_sessions (bridge_record_received p n b) = b_sessions b"
  by (simp_all add: count_in_def count_out_def bridge_send_def bridge_record_received_def split: sum.split)

lemma count_inv [simp]:
  "broker_inv (count_in b) = broker_inv b" "broker_inv (count_out b) = broker_inv b"
  "broker_inv (snd (bridge_send p w b)) = broker_inv b"
  "broker_inv (bridge_record_received p n b) = broker_inv b"
  by (cases p; simp add: count_in_def count_out_def bridge_send_def bridge_record_received_def count_received_def
      split: sum.split)+

definition no_echo :: "string \<Rightarrow> broker \<Rightarrow> broker \<Rightarrow> bool" where
  "no_echo c b b' \<longleftrightarrow> (broker_inv b \<longrightarrow> broker_inv b')
     \<and> (\<forall>s. broker_inv b \<and> get_session c b = Some s \<and> (\<forall>x \<in> set (ss_subscriptions s). sub_no_local x) \<longrightarrow>
          get_session c b' = Some s)"

lemma no_echo_trans [trans]: "no_echo c a b \<Longrightarrow> no_echo c b d \<Longrightarrow> no_echo c a d"
  by (auto simp: no_echo_def)

lemma no_echo_same: "b_sessions b' = b_sessions b \<Longrightarrow> broker_inv b' = broker_inv b \<Longrightarrow> no_echo c b b'"
  by (simp add: no_echo_def)

lemma no_echo_inject: "no_echo c b (inject_publish P now c m b)"
proof -
  let ?b = "if m_retain m then store_retained (m_topic m) m b else b"
  have inv: "broker_inv b \<Longrightarrow> broker_inv ?b" using inv_store_retained by auto
  have "get_session c (snd (route P now (Some c) m ?b)) = Some s"
    if "broker_inv b" "get_session c b = Some s" "\<forall>x \<in> set (ss_subscriptions s). sub_no_local x" for s
  proof (rule route_unmatched)
    show "get_session c ?b = Some s" using that(2) by simp
    show "hm_wf (b_sessions ?b)" using inv [OF that(1)] by (simp add: broker_inv_def sessions_ok_def)
    show "\<forall>x \<in> set (ss_subscriptions s). \<not> eligible P (Some c) m c x" using that(3) by (auto simp: eligible_def)
  qed
  then show ?thesis using inject_inv by (simp add: no_echo_def inject_publish_def)
qed

lemma no_echo_link_send: "no_echo c (snd lb) (snd (snd (link_send p w lb)))"
  by (rule no_echo_same) (auto simp: link_send_def bridge_send_def split: sum.split)

lemma no_echo_handle_inbound: "no_echo c (snd lb) (snd (snd (handle_inbound P now c p w lb)))"
proof -
  have i: "no_echo c (snd lb) (snd (inject P now c p lb))"
    using no_echo_trans [OF no_echo_inject no_echo_same [of "count_in _"]]
    by (auto simp: inject_def Let_def case_prod_beta no_echo_same)
  from no_echo_trans [OF this no_echo_link_send] this show ?thesis
    by (simp add: handle_inbound_def Let_def split: qos.split)
qed

lemma no_echo_link_read: "no_echo c b (snd (snd (link_read P now time c res w (lk, b))))"
proof -
  have refl: "no_echo c b b" by (rule no_echo_same) simp_all
  have rec: "no_echo c b (bridge_record_received pkt n b)" for pkt n by (rule no_echo_same) simp_all
  have "no_echo c (snd lb) (snd (snd (link_packet P now c pkt w lb)))" for pkt lb
    using no_echo_link_send [of c "((fst lb)\<lparr>lk_inbound_qos2 := _\<rparr>, snd lb)"]
    by (cases pkt) (simp_all add: link_packet_def no_echo_handle_inbound no_echo_link_send no_echo_same)
  note packet = this
  have "no_echo c b (snd (snd (link_packet P now c pkt w (lk', bridge_record_received pkt n b))))" for pkt n lk'
    using no_echo_trans [OF rec [of pkt n], of "snd (snd (link_packet P now c pkt w (lk', bridge_record_received pkt n b)))"]
      packet [of "(lk', bridge_record_received pkt n b)" pkt] by simp
  with refl show ?thesis by (simp add: link_read_def Let_def split: sum.split option.split)
qed

lemma no_echo_run_loop:
  "list_all (\<lambda>ev. \<exists>now time res w. ev = Inbound now time res w) evs \<Longrightarrow>
     no_echo c b (snd (snd (run_loop P cfg c evs (lk, b))))"
proof (induction evs arbitrary: lk b)
  case Nil
  then show ?case by (simp add: no_echo_same)
next
  case (Cons ev evs)
  then obtain now time res w where ev: "ev = Inbound now time res w" by auto
  obtain pr lk' b' where s: "link_step P cfg c ev (lk, b) = (pr, lk', b')"
    by (cases "link_step P cfg c ev (lk, b)") auto
  have "no_echo c b b'" using no_echo_link_read [of c b P now time res w lk] s by (simp add: ev)
  from no_echo_trans [OF this] this Cons s show ?case by (cases pr) auto
qed

text \<open>The session a bridge starts with: one No Local subscription for every topic it forwards.\<close>

definition bridge_sub :: "bridge_topic \<Rightarrow> subscription" where
  "bridge_sub t =
     \<lparr>sub_filter = bt_pattern t, sub_share_name = None, sub_qos = AtMostOnce, sub_no_local = True,
      sub_retain_as_published = True, sub_subscription_identifier = None\<rparr>"

lemma bridge_subs_added:
  fixes ts :: "bridge_topic list"
  assumes "broker_inv b" and "get_session c b = Some s"
  defines "add \<equiv> foldl (\<lambda>b t. if forwards_out (bt_direction t) then bridge_add_subscription c (bt_pattern t) True b else b)"
  shows "broker_inv (add b ts) \<and> get_session c (add b ts) =
    Some (s\<lparr>ss_subscriptions := ss_subscriptions s @ map bridge_sub (filter (\<lambda>t. forwards_out (bt_direction t)) ts)\<rparr>)"
  using assms(1,2)
proof (induction ts arbitrary: b s)
  case Nil
  then show ?case by (simp add: add_def)
next
  case (Cons t ts)
  show ?case
  proof (cases "forwards_out (bt_direction t)")
    case True
    have "broker_inv (bridge_add_subscription c (bt_pattern t) True b)" by (rule bridge_add_inv [OF Cons.prems(1)])
    moreover have "get_session c (bridge_add_subscription c (bt_pattern t) True b)
        = Some (s\<lparr>ss_subscriptions := ss_subscriptions s @ [bridge_sub t]\<rparr>)"
      using Cons.prems(2) by (simp add: bridge_add_subscription_def bridge_sub_def)
    ultimately show ?thesis using Cons.IH True by (simp add: add_def)
  next
    case False
    with Cons show ?thesis by (simp add: add_def)
  qed
qed

lemma bridge_start_session:
  assumes "broker_inv b"
  shows "broker_inv (bridge_start cfg b)
    \<and> (\<exists>s. get_session (bridge_client (bc_name cfg)) (bridge_start cfg b) = Some s
         \<and> ss_subscriptions s = map bridge_sub (filter (\<lambda>t. forwards_out (bt_direction t)) (bc_topics cfg))
         \<and> ss_out s = Some channel_new \<and> ss_queue s = [] \<and> inflight_ids s = [])"
proof -
  let ?c = "bridge_client (bc_name cfg)"
  let ?b = "snd (register_bridge ?c channel_new b)"
  have "broker_inv ?b" by (rule register_bridge_inv [OF assms channel_new_ok])
  moreover obtain s where "get_session ?c ?b = Some s" "ss_subscriptions s = []" "ss_out s = Some channel_new"
      "ss_queue s = []" "inflight_ids s = []"
    by (simp add: register_bridge_def Let_def session_new_def inflight_ids_def)
  ultimately show ?thesis using bridge_subs_added [of ?b ?c s "bc_topics cfg"]
    by (simp add: bridge_start_def inflight_ids_def)
qed

text \<open>A bridge whose address does not parse ends, but its session stays: it counts as online, keeps the
  bridge's subscriptions, and every message routed to it is offered to a channel nobody reads.\<close>

lemma bad_address_leaves_session:
  assumes "broker_inv b" and "endpoint_parse (bc_address cfg) = Inl e"
  shows "\<exists>s tx. get_session (bridge_client (bc_name cfg)) (snd (bridge_begin cfg b)) = Some s \<and> is_online s
    \<and> ss_subscriptions s = map bridge_sub (filter (\<lambda>t. forwards_out (bt_direction t)) (bc_topics cfg))
    \<and> ss_out s = Some tx \<and> (\<forall>item. \<not> fst (try_send tx item))"
proof -
  from bridge_start_session [OF assms(1), of cfg] obtain s where
    s: "get_session (bridge_client (bc_name cfg)) (bridge_start cfg b) = Some s" "ss_out s = Some channel_new"
      "ss_subscriptions s = map bridge_sub (filter (\<lambda>t. forwards_out (bt_direction t)) (bc_topics cfg))" by blast
  then show ?thesis
    by (simp add: bridge_begin_def Let_def assms(2) hang_up_def is_online_def try_send_def)
qed

subsection \<open>Every step of a bridge is a sequence of broker steps\<close>

lemma bridge_send_within: "within P kdf 1 b (snd (bridge_send p w b))"
  using within_step [OF step_counts(1), of P kdf 0] by (simp add: bridge_send_def split: sum.split)

lemma link_send_within: "within P kdf 1 (snd lb) (snd (snd (link_send p w lb)))"
  using bridge_send_within [of P kdf "snd lb" p w]
  by (auto simp: link_send_def bridge_send_def split: sum.split)

lemma count_within:
  "within P kdf 1 b (count_in b)" "within P kdf 1 b (count_out b)" "within P kdf 2 b (bridge_record_received p n b)"
proof -
  show "within P kdf 1 b (count_in b)" "within P kdf 1 b (count_out b)"
    using within_step [OF step_counts(1), of P kdf 0] by (simp_all add: count_in_def count_out_def)
  show "within P kdf 2 b (bridge_record_received p n b)"
    using within_trans [OF count_received_within [of P kdf b p n] count_payload_within [where p = p]]
    by (simp add: bridge_record_received_def numeral_2_eq_2)
qed

lemma link_out_within: "within P kdf 2 b (snd (snd (link_out P cfg item w (lk, b))))"
proof (cases "\<exists>p. item = Some (Send p)")
  case True
  then obtain p where item: "item = Some (Send p)" by blast
  obtain fwd lk' where f: "forward P cfg p lk = (fwd, lk')" by force
  obtain pr lk2 b2 where s: "link_send (Publish fwd) w (lk', b) = (pr, lk2, b2)"
    by (cases "link_send (Publish fwd) w (lk', b)") auto
  have "within P kdf 1 b b2" using link_send_within [of P kdf "(lk', b)" "Publish fwd" w] s by simp
  from within_trans [OF this count_within(2)] within_mono [OF this, of 2] show ?thesis
    by (simp add: item link_out_def f s numeral_2_eq_2 split: progress.split)
next
  case False
  then have "snd (snd (link_out P cfg item w (lk, b))) = b"
    by (auto simp: link_out_def split: option.split outgoing.split)
  then show ?thesis by simp
qed

lemma handle_inbound_within:
  "within P kdf 3 (snd lb) (snd (snd (handle_inbound P now (bridge_client name) p w lb)))"
proof -
  have "within P kdf 1 (snd lb) (inject_publish P now (bridge_client name) m (snd lb))" for m
    using within_step [OF step_inject, of P kdf 0] by simp
  from within_trans [OF this count_within(1)]
  have two: "within P kdf 2 (snd lb) (snd (inject P now (bridge_client name) p lb))"
    by (simp add: inject_def Let_def case_prod_beta numeral_2_eq_2)
  from within_trans [OF this link_send_within] within_mono [OF this, of 3] show ?thesis
    by (simp add: handle_inbound_def Let_def numeral_3_eq_3 split: qos.split)
qed

lemma link_packet_within:
  "within P kdf 3 (snd lb) (snd (snd (link_packet P now (bridge_client name) pkt w lb)))"
proof -
  have "within P kdf 3 (snd lb) (snd (snd (link_send p w (lk, snd lb))))" for p lk
    using within_mono [OF link_send_within [of P kdf "(lk, snd lb)"], of 3] by simp
  from this [of _ "fst lb"] this show ?thesis
    by (cases pkt) (simp_all add: link_packet_def handle_inbound_within)
qed

lemma link_step_within:
  "within P kdf 5 b (snd (snd (link_step P cfg (bridge_client name) ev (lk, b))))"
proof (cases ev)
  case (OutItem item w)
  then show ?thesis using within_mono [OF link_out_within [of P kdf b cfg item w lk], of 5] by simp
next
  case (Inbound now time res w)
  have "within P kdf (2 + 3) b
      (snd (snd (link_packet P now (bridge_client name) pkt w (lk', bridge_record_received pkt n b))))" for pkt n lk'
    by (rule within_trans [OF count_within(3)])
      (use link_packet_within [of P kdf "(lk', bridge_record_received pkt n b)" now name pkt w] in simp)
  then show ?thesis by (simp add: Inbound link_read_def Let_def split: sum.split option.split)
next
  case (Tick time w)
  then show ?thesis
    using within_mono [OF link_send_within [of P kdf "(lk, b)" Pingreq w], of 5] by (simp add: link_tick_def Let_def)
qed

lemma run_loop_within:
  "within P kdf (5 * length evs) b (snd (snd (run_loop P cfg (bridge_client name) evs (lk, b))))"
proof (induction evs arbitrary: lk b)
  case (Cons ev evs)
  obtain pr lk' b' where s: "link_step P cfg (bridge_client name) ev (lk, b) = (pr, lk', b')"
    by (cases "link_step P cfg (bridge_client name) ev (lk, b)") auto
  then have "within P kdf 5 b b'" using link_step_within [of P kdf b cfg name ev lk] by simp
  from within_trans [OF this Cons.IH [of b' lk']] within_mono [OF this, of "5 * length (ev # evs)"] s show ?case
    by (simp split: progress.split)
qed simp

subsection \<open>Properties\<close>

text \<open>C32: exactly once across a bridge. While the forwarding loop runs, the messages it has injected into
  local routing are exactly the PUBLISH packets it has read, in order, without the repetitions: a QoS 2
  PUBLISH whose identifier was used by an earlier one and not released by a PUBREL since. So a remote that
  sends a QoS 2 message again until it is acknowledged has it routed once.\<close>

theorem bridge_exactly_once:
  assumes "run_loop P cfg from evs (link_new t written, b) = (Running, lk, b')"
  shows "lk_injected lk = once_only (List.map_filter read_of evs)"
proof -
  have "injection_inv [] (link_new t written)" by (simp add: injection_inv_def link_new_def once_only_def)
  from run_loop_history [OF this, of P cfg "from" evs b] assms show ?thesis by (simp add: injection_inv_def)
qed

definition demo_bridge :: bridge_config where
  "demo_bridge =
     \<lparr>bc_name = ''b'', bc_address = ''h:1883'', bc_client_id = ''x'', bc_username = None, bc_password = None,
      bc_keepalive = 60, bc_protocol_version = V5, bc_tls_ca = None, bc_tls_cert = None, bc_tls_key = None,
      bc_tls_insecure = False, bc_topics = [\<lparr>bt_pattern = ''t'', bt_direction = Both, bt_qos = AtLeastOnce\<rparr>]\<rparr>"

definition demo_qos2 :: publish where
  "demo_qos2 = demo_publish\<lparr>pub_qos := ExactlyOnce, pub_packet_id := Some 7\<rparr>"

text \<open>The remote sends a QoS 2 PUBLISH twice, releases it, and uses the identifier again.\<close>

definition demo_reads :: "packet list" where
  "demo_reads = [Publish demo_qos2, Publish demo_qos2, Pubrel (puback_new 7 Success), Publish demo_qos2]"

theorem bridge_exactly_once_witness:
  "\<exists>lk b. run_loop plain_protocol demo_bridge ''$bridge/b'' (map (\<lambda>p. Inbound 0 0 (Inr (Some (p, 9))) (Inr 4)) demo_reads)
       (link_new 0 [], demo_broker) = (Running, lk, b)
     \<and> lk_injected lk = [from_publish 0 demo_qos2, from_publish 0 demo_qos2]"
proof -
  let ?evs = "map (\<lambda>p. Inbound 0 0 (Inr (Some (p, 9))) (Inr 4)) demo_reads"
  obtain lk b where run: "run_loop plain_protocol demo_bridge ''$bridge/b'' ?evs (link_new 0 [], demo_broker) = (Running, lk, b)"
    by (simp add: demo_reads_def demo_qos2_def link_read_def Let_def link_packet_def handle_inbound_def link_send_def
        bridge_send_def inject_def link_new_def puback_new_def)
  have q: "qos2_id (Publish demo_qos2) = Some 7" by (simp add: demo_qos2_def)
  have first: "open_in [Publish demo_qos2] 7" using open_in_snoc [of "[]" "Publish demo_qos2" 7] q by simp
  have third: "\<not> open_in [Publish demo_qos2, Publish demo_qos2, Pubrel (puback_new 7 Success)] 7"
    using open_in_snoc [of "[Publish demo_qos2, Publish demo_qos2]" "Pubrel (puback_new 7 Success)" 7]
    by (simp add: puback_new_def)
  have "once_only (List.map_filter read_of ?evs) = [from_publish 0 demo_qos2, from_publish 0 demo_qos2]"
    using q first third
    by (simp add: List.map_filter_def demo_reads_def once_only_def upt_rec passed_def numeral_2_eq_2 numeral_3_eq_3
        del: qos2_id.simps(1))
  with bridge_exactly_once [OF run] run show ?thesis by auto
qed

text \<open>C33: a bridge does not send back what it received. From its start on, as long as only the remote
  speaks, the session of the bridge stays exactly as it was registered, with an empty channel: no message
  injected from the remote, whatever its topic, is put on the channel that leads back to the remote.\<close>

theorem bridge_no_echo:
  assumes "broker_inv b" and "list_all (\<lambda>ev. \<exists>now time res w. ev = Inbound now time res w) evs"
  shows "\<exists>s. get_session (bridge_client (bc_name cfg))
        (snd (snd (run_loop P cfg (bridge_client (bc_name cfg)) evs (lk, bridge_start cfg b)))) = Some s
      \<and> ss_out s = Some channel_new \<and> ss_queue s = [] \<and> inflight_ids s = []"
proof -
  from bridge_start_session [OF assms(1), of cfg] obtain s where inv: "broker_inv (bridge_start cfg b)"
    and s: "get_session (bridge_client (bc_name cfg)) (bridge_start cfg b) = Some s"
    and subs: "ss_subscriptions s = map bridge_sub (filter (\<lambda>t. forwards_out (bt_direction t)) (bc_topics cfg))"
    and rest: "ss_out s = Some channel_new" "ss_queue s = []" "inflight_ids s = []"
    by auto
  have "\<forall>x \<in> set (ss_subscriptions s). sub_no_local x" by (auto simp: subs bridge_sub_def)
  with no_echo_run_loop [OF assms(2), of "bridge_client (bc_name cfg)" "bridge_start cfg b" P cfg lk] inv s rest show ?thesis
    by (auto simp: no_echo_def)
qed

theorem bridge_no_echo_witness:
  "\<exists>s. get_session ''$bridge/b''
      (snd (snd (run_loop plain_protocol demo_bridge ''$bridge/b''
         [Inbound 0 0 (Inr (Some (Publish demo_publish, 9))) (Inr 4)] (link_new 0 [], bridge_start demo_bridge demo_broker)))) = Some s
     \<and> ss_out s = Some channel_new"
proof -
  have name: "bridge_client (bc_name demo_bridge) = ''$bridge/b''" by (simp add: bridge_client_def demo_bridge_def)
  from bridge_no_echo [OF demo_broker_inv, of "[Inbound 0 0 (Inr (Some (Publish demo_publish, 9))) (Inr 4)]" demo_bridge
      plain_protocol "link_new 0 []"]
  show ?thesis by (auto simp: name)
qed

text \<open>The identifiers of the PUBLISH packets a bridge writes are never 0, and two of them that are less than
  65535 apart differ.\<close>

lemma bridge_ids_distinct:
  assumes "run_loop P cfg from evs (link_new t [], b) = (pr, lk, b')"
  shows "0 \<notin> set (written_ids (lk_written lk))
    \<and> (\<forall>j k. j < k \<and> k < length (written_ids (lk_written lk)) \<and> k - j < 65535 \<longrightarrow>
         written_ids (lk_written lk) ! j \<noteq> written_ids (lk_written lk) ! k)"
proof -
  have two: "(2::u16) \<noteq> 0" by simp
  have "ids_in_sequence Running (link_new t [])"
    by (simp add: ids_in_sequence_def Let_def link_new_def written_ids_def List.map_filter_def)
  from run_loop_ids [OF this, of P cfg "from" evs b] assms
  have ids: "written_ids (lk_written lk) = map (\<lambda>k. (advance_id ^^ k) 2) [0..<length (written_ids (lk_written lk))]"
    by (simp add: ids_in_sequence_def Let_def)
  have nth: "written_ids (lk_written lk) ! k = (advance_id ^^ k) 2" if "k < length (written_ids (lk_written lk))" for k
    using that by (subst ids) simp
  have "0 \<notin> set (written_ids (lk_written lk))"
  proof
    assume "0 \<in> set (written_ids (lk_written lk))"
    then obtain k where "k < length (written_ids (lk_written lk))" "(advance_id ^^ k) 2 = 0"
      using nth by (auto simp: in_set_conv_nth)
    with advance_iter [OF two, of k] show False by simp
  qed
  then show ?thesis using nth advance_iter_distinct [OF two] by auto
qed

end
