(* ===== verification/Tls.thy ===== *)
theory Tls
  imports Config Acl
begin

section \<open>TLS material\<close>

text \<open>
  \<^verbatim>\<open>src/src/tls.rs\<close>: loading certificates and keys, and the configurations of the two directions. The file
  system, the PEM and X.509 parsers and rustls are the fields of \<open>tls_lib\<close>: each returns what the call
  returns, an error as its text. What the code decides is in the records \<open>acceptor\<close> and \<open>client_tls\<close>: the
  certificates and the key presented, and whose certificates are trusted. A certificate is its DER bytes.
\<close>

record tls_lib =
  tl_open :: "string \<Rightarrow> string + bytes"
  tl_certs :: "bytes \<Rightarrow> string + bytes list"
  tl_private_key :: "bytes \<Rightarrow> string + bytes option"
  tl_protocols :: "string option"
  tl_add_root :: "bytes \<Rightarrow> string option"
  tl_client_verifier :: "bytes list \<Rightarrow> string option"
  tl_single_cert :: "bytes list \<Rightarrow> bytes \<Rightarrow> string option"
  tl_client_auth_cert :: "bytes list \<Rightarrow> bytes \<Rightarrow> string option"
  tl_common_names :: "bytes \<Rightarrow> (string option list) option"

text \<open>The server side: \<open>ac_client_roots\<close> is the trust store client certificates are verified against, \<open>None\<close>
  where none is asked for. The client side: \<open>ct_roots\<close> is \<open>None\<close> where any server certificate is accepted.\<close>

record acceptor =
  ac_certs :: "bytes list"
  ac_key :: bytes
  ac_client_roots :: "bytes list option"

record client_tls =
  ct_roots :: "bytes list option"
  ct_identity :: "(bytes list \<times> bytes) option"

definition colon :: "string \<Rightarrow> string \<Rightarrow> string \<Rightarrow> string" where
  "colon what path e = what @ '' '' @ path @ '': '' @ e"

definition load_certs :: "tls_lib \<Rightarrow> string \<Rightarrow> mqtt_error + bytes list" where
  "load_certs L path =
     (if has_parent_dir path then Inl (Errors.Config (''Invalid input: '' @ path))
      else (case tl_open L path of
              Inl e \<Rightarrow> Inl (Errors.Config (colon ''open cert'' path e))
            | Inr file \<Rightarrow>
                (case tl_certs L file of
                   Inl e \<Rightarrow> Inl (Errors.Config (colon ''parse cert'' path e))
                 | Inr certs \<Rightarrow>
                     if certs = [] then Inl (Errors.Config (''no certificates found in '' @ path))
                     else Inr certs)))"

definition load_key :: "tls_lib \<Rightarrow> string \<Rightarrow> mqtt_error + bytes" where
  "load_key L path =
     (if has_parent_dir path then Inl (Errors.Config (''Invalid input: '' @ path))
      else (case tl_open L path of
              Inl e \<Rightarrow> Inl (Errors.Config (colon ''open key'' path e))
            | Inr file \<Rightarrow>
                (case tl_private_key L file of
                   Inl e \<Rightarrow> Inl (Errors.Config (colon ''parse key'' path e))
                 | Inr None \<Rightarrow> Inl (Errors.Config (''no private key found in '' @ path))
                 | Inr (Some key) \<Rightarrow> Inr key)))"

text \<open>The loop that fills a \<^verbatim>\<open>RootCertStore\<close>.\<close>

fun add_roots :: "tls_lib \<Rightarrow> string \<Rightarrow> string \<Rightarrow> bytes list \<Rightarrow> bytes list \<Rightarrow> mqtt_error + bytes list" where
  "add_roots L what path roots [] = Inr roots"
| "add_roots L what path roots (cert # certs) =
     (case tl_add_root L cert of
        Some e \<Rightarrow> Inl (Errors.Config (colon what path e))
      | None \<Rightarrow> add_roots L what path (roots @ [cert]) certs)"

definition load_roots :: "tls_lib \<Rightarrow> string \<Rightarrow> string \<Rightarrow> mqtt_error + bytes list" where
  "load_roots L what path =
     (case load_certs L path of Inl e \<Rightarrow> Inl e | Inr certs \<Rightarrow> add_roots L what path [] certs)"

definition client_roots :: "tls_lib \<Rightarrow> string option \<Rightarrow> mqtt_error + bytes list option" where
  "client_roots L client_ca =
     (case client_ca of
        None \<Rightarrow> Inr None
      | Some ca_path \<Rightarrow>
          (case load_roots L ''client CA'' ca_path of
             Inl e \<Rightarrow> Inl e
           | Inr roots \<Rightarrow>
               (case tl_client_verifier L roots of
                  Some e \<Rightarrow> Inl (Errors.Config (''client verifier: '' @ e))
                | None \<Rightarrow> Inr (Some roots))))"

definition build_acceptor :: "tls_lib \<Rightarrow> string \<Rightarrow> string \<Rightarrow> string option \<Rightarrow> mqtt_error + acceptor" where
  "build_acceptor L cert_path key_path client_ca =
     (case load_certs L cert_path of Inl e \<Rightarrow> Inl e | Inr certs \<Rightarrow>
      case load_key L key_path of Inl e \<Rightarrow> Inl e | Inr key \<Rightarrow>
      case tl_protocols L of Some e \<Rightarrow> Inl (Errors.Config (''tls provider: '' @ e)) | None \<Rightarrow>
      case client_roots L client_ca of Inl e \<Rightarrow> Inl e | Inr roots \<Rightarrow>
      case tl_single_cert L certs key of
        Some e \<Rightarrow> Inl (Errors.Config (''tls certificate/key mismatch: '' @ e))
      | None \<Rightarrow> Inr \<lparr>ac_certs = certs, ac_key = key, ac_client_roots = roots\<rparr>)"

definition maybe_acceptor ::
    "tls_lib \<Rightarrow> string option \<Rightarrow> string option \<Rightarrow> string option \<Rightarrow> string \<Rightarrow> mqtt_error + acceptor option" where
  "maybe_acceptor L cert key client_ca label =
     (case (cert, key) of
        (Some c, Some k) \<Rightarrow> map_sum id Some (build_acceptor L c k client_ca)
      | (None, None) \<Rightarrow>
          if client_ca \<noteq> None then
            Inl (Errors.Config (label @ '': a client CA was set but TLS is not enabled (needs a certificate and key)''))
          else Inr None
      | _ \<Rightarrow> Inl (Errors.Config (label @ '': both a certificate and a private key are required to enable TLS'')))"

text \<open>
  The verifier used when \<open>ct_roots\<close> is \<open>None\<close>: every server certificate is accepted for every name, but the
  handshake signatures are still checked by the crypto provider, so that the peer must hold the key of the
  certificate it presents.
\<close>

record ('sig, 'scheme) crypto_provider =
  cp_tls12 :: "bytes \<Rightarrow> bytes \<Rightarrow> 'sig \<Rightarrow> string option"
  cp_tls13 :: "bytes \<Rightarrow> bytes \<Rightarrow> 'sig \<Rightarrow> string option"
  cp_schemes :: "'scheme list"

record ('sig, 'scheme) cert_verifier =
  vf_server_cert :: "bytes \<Rightarrow> bytes list \<Rightarrow> string \<Rightarrow> bytes \<Rightarrow> nat \<Rightarrow> string option"
  vf_tls12_signature :: "bytes \<Rightarrow> bytes \<Rightarrow> 'sig \<Rightarrow> string option"
  vf_tls13_signature :: "bytes \<Rightarrow> bytes \<Rightarrow> 'sig \<Rightarrow> string option"
  vf_schemes :: "'scheme list"

definition no_verify :: "('sig, 'scheme) crypto_provider \<Rightarrow> ('sig, 'scheme) cert_verifier" where
  "no_verify C =
     \<lparr>vf_server_cert = (\<lambda>_ _ _ _ _. None), vf_tls12_signature = cp_tls12 C, vf_tls13_signature = cp_tls13 C,
      vf_schemes = cp_schemes C\<rparr>"

definition client_trust :: "tls_lib \<Rightarrow> string option \<Rightarrow> bool \<Rightarrow> mqtt_error + bytes list option" where
  "client_trust L ca_path insecure =
     (if insecure then Inr None
      else (case ca_path of
              None \<Rightarrow> Inl (Errors.Config ''a TLS bridge requires tls_ca (or tls_insecure)'')
            | Some ca \<Rightarrow> map_sum id Some (load_roots L ''bridge CA'' ca)))"

definition client_config ::
    "tls_lib \<Rightarrow> string option \<Rightarrow> string option \<Rightarrow> string option \<Rightarrow> bool \<Rightarrow> mqtt_error + client_tls" where
  "client_config L ca_path client_cert client_key insecure =
     (case tl_protocols L of Some e \<Rightarrow> Inl (Errors.Config (''tls provider: '' @ e)) | None \<Rightarrow>
      case client_trust L ca_path insecure of Inl e \<Rightarrow> Inl e | Inr roots \<Rightarrow>
      case (client_cert, client_key) of
        (Some c, Some k) \<Rightarrow>
          (case load_certs L c of Inl e \<Rightarrow> Inl e | Inr certs \<Rightarrow>
           case load_key L k of Inl e \<Rightarrow> Inl e | Inr key \<Rightarrow>
           case tl_client_auth_cert L certs key of
             Some e \<Rightarrow> Inl (Errors.Config (''bridge client cert/key: '' @ e))
           | None \<Rightarrow> Inr \<lparr>ct_roots = roots, ct_identity = Some (certs, key)\<rparr>)
      | (None, None) \<Rightarrow> Inr \<lparr>ct_roots = roots, ct_identity = None\<rparr>
      | _ \<Rightarrow> Inl (Errors.Config ''bridge tls_cert and tls_key must be set together''))"

text \<open>The identity of a peer: the first common name of its leaf certificate, where that is a string.\<close>

definition peer_cn :: "tls_lib \<Rightarrow> bytes list option \<Rightarrow> string option" where
  "peer_cn L peer_certificates =
     (case peer_certificates of
        None \<Rightarrow> None
      | Some [] \<Rightarrow> None
      | Some (leaf # _) \<Rightarrow>
          (case tl_common_names L leaf of
             None \<Rightarrow> None
           | Some [] \<Rightarrow> None
           | Some (cn # _) \<Rightarrow> cn))"

subsection \<open>What is loaded\<close>

lemma load_certs_ok:
  "load_certs L path = Inr certs \<Longrightarrow> certs \<noteq> [] \<and> \<not> has_parent_dir path
     \<and> (\<exists>file. tl_open L path = Inr file \<and> tl_certs L file = Inr certs)"
  by (auto simp: load_certs_def split: if_splits sum.splits)

lemma load_key_ok:
  "load_key L path = Inr key \<Longrightarrow> \<not> has_parent_dir path
     \<and> (\<exists>file. tl_open L path = Inr file \<and> tl_private_key L file = Inr (Some key))"
  by (auto simp: load_key_def split: if_splits sum.splits option.splits)

lemma add_roots_ok: "add_roots L what path roots certs = Inr rs \<Longrightarrow> rs = roots @ certs"
  by (induction certs arbitrary: roots) (fastforce split: option.splits)+

lemma load_roots_ok: "load_roots L what path = Inr rs \<Longrightarrow> load_certs L path = Inr rs"
  by (auto simp: load_roots_def dest: add_roots_ok split: sum.splits)

lemma client_roots_ok:
  "client_roots L ca = Inr roots \<Longrightarrow>
     (case ca of None \<Rightarrow> roots = None | Some path \<Rightarrow> \<exists>rs. roots = Some rs \<and> load_certs L path = Inr rs)"
  by (auto simp: client_roots_def dest: load_roots_ok split: option.splits sum.splits)

lemma build_acceptor_ok:
  "build_acceptor L c k ca = Inr a \<Longrightarrow>
     load_certs L c = Inr (ac_certs a) \<and> load_key L k = Inr (ac_key a) \<and> client_roots L ca = Inr (ac_client_roots a)"
  by (auto simp: build_acceptor_def split: sum.splits option.splits)

text \<open>A listener is plain only where nothing of TLS is configured for it.\<close>

lemma maybe_acceptor_None: "maybe_acceptor L cert key ca label = Inr None \<longleftrightarrow> cert = None \<and> key = None \<and> ca = None"
  by (cases cert; cases key; cases ca) (auto simp: maybe_acceptor_def map_sum_def split: sum.splits)

lemma maybe_acceptor_Some:
  "maybe_acceptor L cert key ca label = Inr (Some a) \<Longrightarrow>
     \<exists>c k. cert = Some c \<and> key = Some k \<and> build_acceptor L c k ca = Inr a"
  by (cases cert; cases key) (auto simp: maybe_acceptor_def map_sum_def split: sum.splits if_splits)

text \<open>A bridge that is not marked insecure verifies its remote against the certificates of its CA file, of
  which there is at least one.\<close>

lemma client_config_verifies:
  assumes "client_config L ca cert key False = Inr t"
  shows "\<exists>path rs. ca = Some path \<and> load_certs L path = Inr rs \<and> rs \<noteq> [] \<and> ct_roots t = Some rs
    \<and> (ct_identity t \<noteq> None \<longleftrightarrow> cert \<noteq> None \<and> key \<noteq> None)"
proof -
  from assms obtain roots where r: "client_trust L ca False = Inr roots" and t: "ct_roots t = roots"
    and i: "ct_identity t \<noteq> None \<longleftrightarrow> cert \<noteq> None \<and> key \<noteq> None"
    by (cases cert; cases key) (auto simp: client_config_def split: option.splits sum.splits)
  from r obtain path rs where "ca = Some path" "load_roots L ''bridge CA'' path = Inr rs" "roots = Some rs"
    by (auto simp: client_trust_def map_sum_def split: option.splits sum.splits)
  with load_certs_ok [OF load_roots_ok, of L "''bridge CA''" path rs] load_roots_ok [of L "''bridge CA''" path rs] t i
  show ?thesis by simp
qed

end
