(* ===== verification/Ws.thy ===== *)
theory Ws
  imports Prelude
begin

section \<open>MQTT over WebSockets\<close>

text \<open>
  \<^verbatim>\<open>src/src/ws.rs\<close>: the adapter that shows a WebSocket as a byte stream. The WebSocket library is what the
  adapter polls: \<open>ws_inner\<close> lists what its successive \<^verbatim>\<open>poll_next\<close> calls return (a message, an error, or the
  end), and a list that has run out stands for \<^verbatim>\<open>Poll::Pending\<close>. A write hands one message to the library,
  kept in \<open>ws_sent\<close>; what the library says of its readiness and of the message are arguments. The locale
  \<open>byte_stream\<close> is what a reader relies on.
\<close>

subsection \<open>Byte streams\<close>

datatype 'a poll = Pending | Ready 'a

text \<open>A reader's loop: one read per buffer size, collecting the bytes, until the sizes are used up or a read
  has no bytes to return.\<close>

fun collect :: "(nat \<Rightarrow> 's \<Rightarrow> ('e + bytes) poll \<times> 's) \<Rightarrow> nat list \<Rightarrow> 's \<Rightarrow> bytes \<times> 's" where
  "collect read [] s = ([], s)"
| "collect read (n # ns) s =
     (case read n s of
        (Ready (Inr (x # xs)), s') \<Rightarrow> (let (d, s'') = collect read ns s' in (x # xs @ d, s''))
      | (_, s') \<Rightarrow> ([], s'))"

text \<open>
  \<open>ahead s\<close> are the bytes that have arrived and are not read yet. As long as there are any, a read with room
  for one returns some of them, in order; the empty answer, which a reader takes for the end of the
  stream, comes only when nothing is ahead.
\<close>

locale byte_stream =
  fixes read :: "nat \<Rightarrow> 's \<Rightarrow> ('e + bytes) poll \<times> 's"
    and ahead :: "'s \<Rightarrow> bytes"
  assumes read_some: "ahead s \<noteq> [] \<Longrightarrow> 0 < n \<Longrightarrow>
      \<exists>x xs s'. read n s = (Ready (Inr (x # xs)), s') \<and> length xs < n \<and> x # xs @ ahead s' = ahead s"
    and read_none: "ahead s = [] \<Longrightarrow> fst (read n s) \<noteq> Ready (Inr (x # xs))"
begin

lemma collect_none: "ahead s = [] \<Longrightarrow> fst (collect read ns s) = []"
  using read_none by (cases ns) (auto split: prod.split poll.split sum.split list.split simp: prod_eq_iff)

lemma collect_prefix:
  assumes "\<forall>n \<in> set ns. 0 < n"
  shows "\<exists>rest. fst (collect read ns s) @ rest = ahead s"
  using assms
proof (induction ns arbitrary: s)
  case (Cons n ns)
  show ?case
  proof (cases "ahead s = []")
    case True
    then show ?thesis using collect_none [OF True, of "n # ns"] by simp
  next
    case False
    with read_some [OF this, of n] Cons.prems obtain x xs s' where
      "read n s = (Ready (Inr (x # xs)), s')" "x # xs @ ahead s' = ahead s" by auto
    with Cons.IH [of s'] Cons.prems show ?thesis by (auto simp: case_prod_beta) metis
  qed
qed simp

text \<open>As many reads as there are bytes return them all, whatever the sizes of the buffers.\<close>

lemma collect_all:
  assumes "\<forall>n \<in> set ns. 0 < n" and "length (ahead s) \<le> length ns"
  shows "fst (collect read ns s) = ahead s"
  using assms
proof (induction ns arbitrary: s)
  case (Cons n ns)
  show ?case
  proof (cases "ahead s = []")
    case False
    with read_some [OF this, of n] Cons.prems obtain x xs s' where
      r: "read n s = (Ready (Inr (x # xs)), s')" "x # xs @ ahead s' = ahead s" by auto
    have "length (ahead s') < length (ahead s)" by (simp flip: r(2))
    with Cons.IH [of s'] Cons.prems r show ?thesis by (auto simp: case_prod_beta)
  qed (simp add: collect_none del: collect.simps)
qed simp

end

subsection \<open>The adapter\<close>

datatype ws_message = Text bytes | Binary bytes | Ping bytes | Pong bytes | Close | Frame bytes

datatype ws_error = WsIo string | WsOther string

datatype io_error = IoError string | OtherError ws_error | InvalidData string | InvalidInput string

datatype ws_event = Item ws_message | Failed ws_error | Ended

record ws_stream =
  ws_inner :: "ws_event list"
  ws_read_buf :: bytes
  ws_sent :: "ws_message list"

record web_socket_config =
  max_message_size :: nat
  max_frame_size :: nat

definition ws_config :: "u32 \<Rightarrow> web_socket_config" where
  "ws_config max_packet_size =
     \<lparr>max_message_size = unat max_packet_size, max_frame_size = unat max_packet_size\<rparr>"

definition ws_new :: "ws_event list \<Rightarrow> ws_stream" where
  "ws_new inner = \<lparr>ws_inner = inner, ws_read_buf = [], ws_sent = []\<rparr>"

definition ws_to_io :: "ws_error \<Rightarrow> io_error" where
  "ws_to_io e = (case e of WsIo io \<Rightarrow> IoError io | WsOther _ \<Rightarrow> OtherError e)"

text \<open>\<^verbatim>\<open>poll_read\<close>: the loop over the messages, with the buffer and the room of the reader.\<close>

fun read_loop :: "nat \<Rightarrow> ws_event list \<Rightarrow> bytes \<Rightarrow> (io_error + bytes) poll \<times> ws_event list \<times> bytes" where
  "read_loop n [] buf =
     (if buf \<noteq> [] then (Ready (Inr (take n buf)), [], drop n buf) else (Pending, [], []))"
| "read_loop n (event # inner) buf =
     (if buf \<noteq> [] then (Ready (Inr (take n buf)), event # inner, drop n buf)
      else (case event of
              Item (Binary d) \<Rightarrow> read_loop n inner d
            | Item Close \<Rightarrow> (Ready (Inr []), inner, [])
            | Item (Text _) \<Rightarrow>
                (Ready (Inl (InvalidData ''unexpected WebSocket text frame on MQTT connection'')), inner, [])
            | Item _ \<Rightarrow> read_loop n inner []
            | Failed e \<Rightarrow> (Ready (Inl (ws_to_io e)), inner, [])
            | Ended \<Rightarrow> (Ready (Inr []), inner, [])))"

definition poll_read :: "nat \<Rightarrow> ws_stream \<Rightarrow> (io_error + bytes) poll \<times> ws_stream" where
  "poll_read n s =
     (let (r, inner, buf) = read_loop n (ws_inner s) (ws_read_buf s)
      in (r, s\<lparr>ws_inner := inner, ws_read_buf := buf\<rparr>))"

definition poll_write ::
    "(ws_error option) poll \<Rightarrow> ws_error option \<Rightarrow> bytes \<Rightarrow> ws_stream \<Rightarrow> (io_error + nat) poll \<times> ws_stream" where
  "poll_write ready started buf s =
     (case ready of
        Pending \<Rightarrow> (Pending, s)
      | Ready (Some e) \<Rightarrow> (Ready (Inl (ws_to_io e)), s)
      | Ready None \<Rightarrow>
          (case started of
             Some e \<Rightarrow> (Ready (Inl (ws_to_io e)), s)
           | None \<Rightarrow> (Ready (Inr (length buf)), s\<lparr>ws_sent := ws_sent s @ [Binary buf]\<rparr>)))"

text \<open>\<^verbatim>\<open>poll_flush\<close> and \<^verbatim>\<open>poll_shutdown\<close> pass on what the library answers.\<close>

definition poll_pass :: "(ws_error option) poll \<Rightarrow> (io_error option) poll" where
  "poll_pass p = (case p of Pending \<Rightarrow> Pending | Ready r \<Rightarrow> Ready (map_option ws_to_io r))"

subsection \<open>Handshakes\<close>

text \<open>The values of the request's \<^verbatim>\<open>Sec-WebSocket-Protocol\<close> headers are given as \<^verbatim>\<open>to_str().ok()\<close> returns them.\<close>

definition PROTOCOL_HEADER :: string where
  "PROTOCOL_HEADER = ''Sec-WebSocket-Protocol''"

definition offers_mqtt :: "string option list \<Rightarrow> bool" where
  "offers_mqtt values =
     list_ex (\<lambda>p. eq_ignore_case (trim p) ''mqtt'')
       (concat (map (split_on (CHR '','')) (List.map_filter id values)))"

definition on_request :: "string option list \<Rightarrow> (string, string) hashmap \<Rightarrow> (string, string) hashmap" where
  "on_request values response =
     (if offers_mqtt values then hm_insert PROTOCOL_HEADER ''mqtt'' response else response)"

text \<open>The handshakes themselves are the library's, given the size limits: \<open>handshake\<close> and \<open>connect\<close>; so is the
  request a URL denotes.\<close>

definition ws_accept :: "(web_socket_config \<Rightarrow> ws_error + ws_event list) \<Rightarrow> u32 \<Rightarrow> io_error + ws_stream" where
  "ws_accept handshake max_packet_size =
     (case handshake (ws_config max_packet_size) of
        Inl e \<Rightarrow> Inl (ws_to_io e)
      | Inr inner \<Rightarrow> Inr (ws_new inner))"

definition ws_client ::
    "(string \<Rightarrow> string + (string, string) hashmap)
     \<Rightarrow> ((string, string) hashmap \<Rightarrow> web_socket_config \<Rightarrow> ws_error + ws_event list)
     \<Rightarrow> string \<Rightarrow> u32 \<Rightarrow> io_error + ws_stream" where
  "ws_client into_client_request connect url max_packet_size =
     (case into_client_request url of
        Inl e \<Rightarrow> Inl (InvalidInput e)
      | Inr headers \<Rightarrow>
          (case connect (hm_insert PROTOCOL_HEADER ''mqtt'' headers) (ws_config max_packet_size) of
             Inl e \<Rightarrow> Inl (ws_to_io e)
           | Inr inner \<Rightarrow> Inr (ws_new inner)))"

subsection \<open>The adapter is a byte stream\<close>

fun payload :: "ws_event list \<Rightarrow> bytes" where
  "payload (Item (Binary d) # inner) = d @ payload inner"
| "payload (Item (Ping _) # inner) = payload inner"
| "payload (Item (Pong _) # inner) = payload inner"
| "payload (Item (Frame _) # inner) = payload inner"
| "payload _ = []"

definition ws_ahead :: "ws_stream \<Rightarrow> bytes" where
  "ws_ahead s = ws_read_buf s @ payload (ws_inner s)"

lemma read_loop_some:
  assumes "buf @ payload inner \<noteq> []" and "0 < n"
  shows "\<exists>x xs inner' buf'. read_loop n inner buf = (Ready (Inr (x # xs)), inner', buf')
    \<and> length xs < n \<and> x # xs @ buf' @ payload inner' = buf @ payload inner"
proof -
  have cut: "\<exists>x xs. take n b = x # xs \<and> length xs < n \<and> x # xs @ drop n b @ p = b @ p"
    if "b \<noteq> []" for b p :: bytes
    using that \<open>0 < n\<close> by (cases b; cases n) auto
  from assms(1) show ?thesis
  proof (induction inner arbitrary: buf)
    case Nil
    with cut [of buf "[]"] show ?case by auto
  next
    case (Cons event inner)
    show ?case
    proof (cases "buf = []")
      case False
      with cut [OF False, of "payload (event # inner)"] show ?thesis by auto
    next
      case True
      with Cons.prems Cons.IH [of "[]"] Cons.IH show ?thesis
        by (cases event; cases "case event of Item m \<Rightarrow> m") (auto split: ws_message.split)
    qed
  qed
qed

lemma read_loop_none: "payload inner = [] \<Longrightarrow> fst (read_loop n inner []) \<noteq> Ready (Inr (x # xs))"
proof (induction inner)
  case (Cons event inner)
  show ?case
  proof (cases event)
    case (Item m)
    with Cons show ?thesis by (cases m) simp_all
  qed simp_all
qed simp

interpretation ws: byte_stream poll_read ws_ahead
proof unfold_locales
  fix s :: ws_stream and n x xs
  show "\<exists>x xs s'. poll_read n s = (Ready (Inr (x # xs)), s') \<and> length xs < n \<and> x # xs @ ws_ahead s' = ws_ahead s"
    if "ws_ahead s \<noteq> []" "0 < n"
    using read_loop_some [of "ws_read_buf s" "ws_inner s" n] that by (fastforce simp: ws_ahead_def poll_read_def)
  show "fst (poll_read n s) \<noteq> Ready (Inr (x # xs))" if "ws_ahead s = []"
    using read_loop_none [of "ws_inner s" n x xs] that by (auto simp: ws_ahead_def poll_read_def case_prod_beta)
qed

subsection \<open>Between two adapters\<close>

text \<open>Writing buffers one after the other, each accepted by the library.\<close>

fun write_all :: "bytes list \<Rightarrow> ws_stream \<Rightarrow> ws_stream" where
  "write_all [] s = s"
| "write_all (d # ds) s = write_all ds (snd (poll_write (Ready None) None d s))"

lemma write_all_sent: "ws_sent (write_all ds s) = ws_sent s @ map Binary ds"
  by (induction ds arbitrary: s) (simp_all add: poll_write_def)

fun is_binary :: "ws_message \<Rightarrow> bool" where
  "is_binary (Binary _) = True"
| "is_binary _ = False"

fun is_control :: "ws_message \<Rightarrow> bool" where
  "is_control (Ping _) = True"
| "is_control (Pong _) = True"
| "is_control (Frame _) = True"
| "is_control _ = False"

lemma payload_messages:
  assumes "list_all (\<lambda>m. is_binary m \<or> is_control m) ms"
  shows "payload (map Item ms @ rest) = concat (map (\<lambda>m. case m of Binary d \<Rightarrow> d | _ \<Rightarrow> []) (filter is_binary ms)) @ payload rest"
  using assms
proof (induction ms)
  case (Cons m ms)
  then show ?case by (cases m) simp_all
qed simp

text \<open>
  C25. A WebSocket carries the same byte stream as a TCP connection: whatever one side writes, in whatever
  pieces, and however its frames arrive, empty ones among them and with control frames in between, the
  other side reads exactly these bytes in this order, with buffers of any sizes, and never takes the stream
  for ended before the last byte. A text frame is refused.
\<close>

theorem ws_stream_transparent:
  assumes "filter is_binary ms = ws_sent (write_all ds (ws_new inner))"
    and "list_all (\<lambda>m. is_binary m \<or> is_control m) ms" and "payload rest = []"
    and "list_all (\<lambda>n. 0 < n) ns"
  shows "(\<exists>later. fst (collect poll_read ns (ws_new (map Item ms @ rest))) @ later = concat ds)
    \<and> (length (concat ds) \<le> length ns \<longrightarrow> fst (collect poll_read ns (ws_new (map Item ms @ rest))) = concat ds)
    \<and> (\<exists>msg. fst (poll_read n (ws_new (Item (Text t) # rest))) = Ready (Inl (InvalidData msg)))"
proof -
  have "ws_sent (write_all ds (ws_new inner)) = map Binary ds" by (simp add: write_all_sent ws_new_def)
  then have "ws_ahead (ws_new (map Item ms @ rest)) = concat ds"
    using assms by (simp add: ws_ahead_def ws_new_def payload_messages comp_def)
  moreover have "\<forall>n \<in> set ns. 0 < n" using assms(4) by (simp add: list_all_iff)
  ultimately show ?thesis
    using ws.collect_prefix [of ns "ws_new (map Item ms @ rest)"] ws.collect_all [of ns "ws_new (map Item ms @ rest)"]
    by (simp add: poll_read_def ws_new_def)
qed

theorem ws_stream_transparent_witness:
  "fst (collect poll_read [1, 5, 1, 7]
     (ws_new (map Item [Binary [16, 2], Ping [9], Binary [], Binary [7]] @ [Ended]))) = [16, 2, 7]"
proof -
  let ?ms = "[Binary [16, 2], Ping [9], Binary [], Binary [7]]" and ?ds = "[[16, 2], [], [7 :: u8]]"
  have "filter is_binary ?ms = ws_sent (write_all ?ds (ws_new []))"
    unfolding write_all_sent by (simp add: ws_new_def)
  note sent = ws_stream_transparent [OF this, of "[Ended]" "[1, 5, 1, 7]" 1 "[]"]
  have "length (concat ?ds) \<le> length [1, 5, 1, 7 :: nat]" by simp
  with sent [THEN conjunct2, THEN conjunct1, rule_format] show ?thesis by (simp del: collect.simps)
qed

text \<open>The handshake answers with the subprotocol exactly when the client offers it.\<close>

lemma subprotocol_iff_offered:
  "hm_get PROTOCOL_HEADER response = None \<Longrightarrow>
    hm_get PROTOCOL_HEADER (on_request values response) = (if offers_mqtt values then Some ''mqtt'' else None)"
  by (simp add: on_request_def)

end
