(* ===== verification/Listeners.thy ===== *)
theory Listeners
  imports Bridge_Link Bridge_Config Tls Ws
begin

section \<open>Listeners and outgoing transports\<close>

text \<open>
  How connections come about: \<^verbatim>\<open>run\<close>, \<^verbatim>\<open>run_tls\<close>, \<^verbatim>\<open>run_ws\<close> and \<^verbatim>\<open>run_ws_tls\<close> of \<^verbatim>\<open>src/src/server.rs\<close>, the start of
  \<^verbatim>\<open>run\<close> of \<^verbatim>\<open>src/src/admin.rs\<close>, the upgrade of an accepted socket, whose outcome is what \<open>accept_socket\<close> is given,
  and \<^verbatim>\<open>connect_and_serve\<close> of \<^verbatim>\<open>src/src/bridge.rs\<close> up to \<open>serve\<close>. A listener is idle when it is not
  configured, has stopped with an error, or listens with the acceptor it has. \<open>bind\<close> is the operating
  system's answer to \<^verbatim>\<open>TcpListener::bind\<close>, an error as its text.
\<close>

datatype listener = Idle | Stopped mqtt_error | Listening socket_addr "acceptor option"

definition listen :: "(socket_addr \<Rightarrow> string option) \<Rightarrow> socket_addr \<Rightarrow> acceptor option \<Rightarrow> listener" where
  "listen bind addr acc = (case bind addr of Some e \<Rightarrow> Stopped (Errors.Io e) | None \<Rightarrow> Listening addr acc)"

definition run_mqtt :: "(socket_addr \<Rightarrow> string option) \<Rightarrow> config \<Rightarrow> listener" where
  "run_mqtt bind cfg = (case cfg_listen_addr cfg of None \<Rightarrow> Idle | Some addr \<Rightarrow> listen bind addr None)"

definition run_ws :: "(socket_addr \<Rightarrow> string option) \<Rightarrow> config \<Rightarrow> listener" where
  "run_ws bind cfg = (case cfg_ws_listen_addr cfg of None \<Rightarrow> Idle | Some addr \<Rightarrow> listen bind addr None)"

definition em_dash :: string where
  "em_dash = map char_of [226, 128, 148 :: nat]"

definition should_have_been_rejected :: "string \<Rightarrow> string \<Rightarrow> mqtt_error" where
  "should_have_been_rejected addr_key cert_keys =
     Errors.Config (addr_key @ '' is set but '' @ cert_keys @ '' are not '' @ em_dash
       @ '' this should have been rejected at startup'')"

definition run_tls :: "tls_lib \<Rightarrow> (socket_addr \<Rightarrow> string option) \<Rightarrow> config \<Rightarrow> listener" where
  "run_tls L bind cfg =
     (case cfg_tls_listen_addr cfg of
        None \<Rightarrow> Idle
      | Some addr \<Rightarrow>
          (case maybe_acceptor L (cfg_tls_cert cfg) (cfg_tls_key cfg) (cfg_tls_client_ca cfg) ''mqtt-tls'' of
             Inl e \<Rightarrow> Stopped e
           | Inr None \<Rightarrow> Stopped (should_have_been_rejected ''tls_listen_addr'' ''tls_cert/tls_key'')
           | Inr (Some a) \<Rightarrow> listen bind addr (Some a)))"

definition run_ws_tls :: "tls_lib \<Rightarrow> (socket_addr \<Rightarrow> string option) \<Rightarrow> config \<Rightarrow> listener" where
  "run_ws_tls L bind cfg =
     (case cfg_ws_tls_listen_addr cfg of
        None \<Rightarrow> Idle
      | Some addr \<Rightarrow>
          (case maybe_acceptor L (cfg_ws_tls_cert cfg) (cfg_ws_tls_key cfg) (cfg_ws_tls_client_ca cfg) ''websocket-tls'' of
             Inl e \<Rightarrow> Stopped e
           | Inr None \<Rightarrow> Stopped (should_have_been_rejected ''ws_tls_listen_addr'' ''ws_tls_cert/ws_tls_key'')
           | Inr (Some a) \<Rightarrow> listen bind addr (Some a)))"

definition run_admin :: "tls_lib \<Rightarrow> (socket_addr \<Rightarrow> string option) \<Rightarrow> config \<Rightarrow> listener" where
  "run_admin L bind cfg =
     (case maybe_acceptor L (cfg_admin_tls_cert cfg) (cfg_admin_tls_key cfg) (cfg_admin_tls_client_ca cfg) ''admin'' of
        Inl e \<Rightarrow> Stopped e
      | Inr acc \<Rightarrow> listen bind (cfg_admin_addr cfg) acc)"

subsection \<open>Accepted sockets\<close>

text \<open>What becomes of an accepted socket: \<open>None\<close> when a handshake fails, else the identity its task starts
  with. \<open>accept\<close> is rustls: an error, or the certificates the peer presented.\<close>

definition tls_upgrade :: "tls_lib \<Rightarrow> (acceptor \<Rightarrow> string + bytes list option) \<Rightarrow> acceptor option \<Rightarrow> string option option" where
  "tls_upgrade L accept acc =
     (case acc of
        None \<Rightarrow> Some None
      | Some a \<Rightarrow> (case accept a of Inl _ \<Rightarrow> None | Inr certs \<Rightarrow> Some (peer_cn L certs)))"

definition ws_upgrade ::
    "tls_lib \<Rightarrow> (acceptor \<Rightarrow> string + bytes list option) \<Rightarrow> (web_socket_config \<Rightarrow> ws_error + ws_event list) \<Rightarrow> u32 \<Rightarrow>
     acceptor option \<Rightarrow> string option option" where
  "ws_upgrade L accept handshake max_packet_size acc =
     (case tls_upgrade L accept acc of
        None \<Rightarrow> None
      | Some identity \<Rightarrow> (case ws_accept handshake max_packet_size of Inl _ \<Rightarrow> None | Inr _ \<Rightarrow> Some identity))"

text \<open>One pass of the two accept loops: a socket is counted, checked against the rate limit, and only then upgraded; a
  socket that passes both gets a connection task.\<close>

definition serve_mqtt ::
    "tls_lib \<Rightarrow> (acceptor \<Rightarrow> string + bytes list option) \<Rightarrow> acceptor option \<Rightarrow> nat \<Rightarrow> nat \<Rightarrow> ip_addr \<Rightarrow> broker \<Rightarrow>
     conn option \<times> broker" where
  "serve_mqtt L accept acc clock time ip b = accept_socket clock time ip (tls_upgrade L accept acc) b"

definition serve_ws ::
    "tls_lib \<Rightarrow> (acceptor \<Rightarrow> string + bytes list option) \<Rightarrow> (web_socket_config \<Rightarrow> ws_error + ws_event list) \<Rightarrow> u32 \<Rightarrow>
     acceptor option \<Rightarrow> nat \<Rightarrow> nat \<Rightarrow> ip_addr \<Rightarrow> broker \<Rightarrow> conn option \<times> broker" where
  "serve_ws L accept handshake max_packet_size acc clock time ip b =
     accept_socket clock time ip (ws_upgrade L accept handshake max_packet_size acc) b"

text \<open>A task exists only for a socket the rate limiter admitted and whose handshakes went through; its identity is the
  common name of the certificate presented, and none without TLS.\<close>

lemma served_socket:
  assumes "fst (serve_ws L accept handshake mps acc clock time ip b) = Some cx"
  shows "fst (check (b_rate_limiter b) clock ip)
    \<and> (\<exists>stream. ws_accept handshake mps = Inr stream)
    \<and> cx = conn_new time (case acc of None \<Rightarrow> None | Some a \<Rightarrow> (case accept a of Inl _ \<Rightarrow> None | Inr certs \<Rightarrow> peer_cn L certs))"
  using assms
  by (auto simp: serve_ws_def accept_socket_def Let_def case_prod_beta ws_upgrade_def tls_upgrade_def
      split: if_splits option.splits sum.splits)

subsection \<open>The transport of a bridge\<close>

text \<open>The network as a bridge sees it. \<open>Missing_url\<close> is the panic of the \<^verbatim>\<open>unwrap\<close> in \<^verbatim>\<open>connect_and_serve\<close>.\<close>

record network =
  nt_tcp :: "string \<Rightarrow> u16 \<Rightarrow> string option"
  nt_server_name :: "string \<Rightarrow> bool"
  nt_tls :: "client_tls \<Rightarrow> string \<Rightarrow> string option"
  nt_ws_request :: "string \<Rightarrow> string + (string, string) hashmap"
  nt_ws_connect :: "(string, string) hashmap \<Rightarrow> web_socket_config \<Rightarrow> ws_error + ws_event list"

datatype connect_error =
    Tcp_failed string
  | Tls_config mqtt_error
  | Invalid_server_name string
  | Tls_failed string
  | Ws_failed io_error
  | Missing_url

definition tls_connect :: "network \<Rightarrow> tls_lib \<Rightarrow> bridge_config \<Rightarrow> endpoint \<Rightarrow> connect_error + client_tls" where
  "tls_connect N L cfg ep =
     (case client_config L (bc_tls_ca cfg) (bc_tls_cert cfg) (bc_tls_key cfg) (bc_tls_insecure cfg) of
        Inl e \<Rightarrow> Inl (Tls_config e)
      | Inr t \<Rightarrow>
          if \<not> nt_server_name N (ep_host ep) then Inl (Invalid_server_name (ep_host ep))
          else (case nt_tls N t (ep_host ep) of Some e \<Rightarrow> Inl (Tls_failed e) | None \<Rightarrow> Inr t))"

definition ws_over :: "network \<Rightarrow> endpoint \<Rightarrow> u32 \<Rightarrow> 'a \<Rightarrow> connect_error + 'a" where
  "ws_over N ep max_packet_size below =
     (case ep_ws_url ep of
        None \<Rightarrow> Inl Missing_url
      | Some url \<Rightarrow>
          (case ws_client (nt_ws_request N) (nt_ws_connect N) url max_packet_size of
             Inl e \<Rightarrow> Inl (Ws_failed e)
           | Inr _ \<Rightarrow> Inr below))"

text \<open>The transport \<open>serve\<close> runs over: its TLS configuration, if it is a TLS one.\<close>

definition open_transport ::
    "network \<Rightarrow> tls_lib \<Rightarrow> bridge_config \<Rightarrow> endpoint \<Rightarrow> u32 \<Rightarrow> connect_error + client_tls option" where
  "open_transport N L cfg ep max_packet_size =
     (case nt_tcp N (ep_host ep) (ep_port ep) of
        Some e \<Rightarrow> Inl (Tcp_failed e)
      | None \<Rightarrow>
          (case ep_transport ep of
             Tcp \<Rightarrow> Inr None
           | Tls \<Rightarrow> (case tls_connect N L cfg ep of Inl e \<Rightarrow> Inl e | Inr t \<Rightarrow> Inr (Some t))
           | Ws \<Rightarrow> ws_over N ep max_packet_size None
           | Wss \<Rightarrow> (case tls_connect N L cfg ep of
                       Inl e \<Rightarrow> Inl e
                     | Inr t \<Rightarrow> ws_over N ep max_packet_size (Some t))))"

subsection \<open>Guarantees\<close>

definition secured :: "tls_lib \<Rightarrow> string option \<Rightarrow> string option \<Rightarrow> string option \<Rightarrow> acceptor \<Rightarrow> bool" where
  "secured L cert key ca a \<longleftrightarrow>
     (\<exists>c k. cert = Some c \<and> key = Some k \<and> load_certs L c = Inr (ac_certs a) \<and> load_key L k = Inr (ac_key a))
     \<and> (case ca of
          None \<Rightarrow> ac_client_roots a = None
        | Some path \<Rightarrow> \<exists>rs. ac_client_roots a = Some rs \<and> rs \<noteq> [] \<and> load_certs L path = Inr rs)"

lemma maybe_acceptor_secured:
  assumes "maybe_acceptor L cert key ca label = Inr (Some a)"
  shows "secured L cert key ca a"
proof -
  from maybe_acceptor_Some [OF assms] obtain c k where ck: "cert = Some c" "key = Some k"
    and "build_acceptor L c k ca = Inr a" by blast
  from build_acceptor_ok [OF this(3)] have
    "load_certs L c = Inr (ac_certs a)" "load_key L k = Inr (ac_key a)" "client_roots L ca = Inr (ac_client_roots a)"
    by simp_all
  with ck client_roots_ok [OF this(3)] load_certs_ok show ?thesis
    by (auto simp: secured_def split: option.splits)
qed

lemma listen_Listening: "listen bind addr acc = Listening addr' acc' \<longleftrightarrow> bind addr = None \<and> addr' = addr \<and> acc' = acc"
  by (auto simp: listen_def split: option.splits)

text \<open>An endpoint that was parsed has the URL its transport needs.\<close>

lemma parsed_url:
  assumes "endpoint_parse address = Inr ep" and "ep_transport ep = Ws \<or> ep_transport ep = Wss"
  shows "ep_ws_url ep \<noteq> None"
proof -
  have last: "ep_ws_url e \<noteq> None"
    if "(case r of Inl x \<Rightarrow> Inl x
         | Inr (host, port) \<Rightarrow>
             if host = [] then Inl Empty_host
             else Inr \<lparr>ep_transport = t, ep_host = host, ep_port = of_nat port,
                       ep_ws_url = (if t = Ws \<or> t = Wss then Some (u host port) else None)\<rparr>) = Inr e"
      "ep_transport e = Ws \<or> ep_transport e = Wss" for r t e and u :: "string \<Rightarrow> nat \<Rightarrow> string"
    using that by (auto split: sum.splits prod.splits if_splits)
  from assms(1) obtain scheme rest where ss: "split_scheme address = Some (scheme, rest)"
    unfolding endpoint_parse_def by (cases "split_scheme address") auto
  from this assms(1) obtain t p where st: "scheme_transport (ascii_lowercase scheme) = Some (t, p)"
    unfolding endpoint_parse_def by (cases "scheme_transport (ascii_lowercase scheme)") auto
  from assms(1) show ?thesis
    unfolding endpoint_parse_def Let_def ss st option.case prod.case by (rule last [OF _ assms(2)])
qed

text \<open>The certificate of a peer is known only where one was asked for: rustls's \<^verbatim>\<open>with_no_client_auth\<close>.\<close>

definition no_client_auth :: "(acceptor \<Rightarrow> string + bytes list option) \<Rightarrow> bool" where
  "no_client_auth accept \<longleftrightarrow> (\<forall>a certs. accept a = Inr certs \<and> ac_client_roots a = None \<longrightarrow> certs = None)"

lemma run_tls_Listening:
  "run_tls L bind c = Listening addr acc \<Longrightarrow>
     \<exists>a. acc = Some a \<and> secured L (cfg_tls_cert c) (cfg_tls_key c) (cfg_tls_client_ca c) a"
  by (auto simp: run_tls_def listen_Listening dest: maybe_acceptor_secured split: option.splits sum.splits)

lemma run_ws_tls_Listening:
  "run_ws_tls L bind c = Listening addr acc \<Longrightarrow>
     \<exists>a. acc = Some a \<and> secured L (cfg_ws_tls_cert c) (cfg_ws_tls_key c) (cfg_ws_tls_client_ca c) a"
  by (auto simp: run_ws_tls_def listen_Listening dest: maybe_acceptor_secured split: option.splits sum.splits)

lemma run_admin_Listening:
  "run_admin L bind c = Listening addr acc \<Longrightarrow>
     (case acc of
        None \<Rightarrow> cfg_admin_tls_cert c = None \<and> cfg_admin_tls_key c = None \<and> cfg_admin_tls_client_ca c = None
      | Some a \<Rightarrow> secured L (cfg_admin_tls_cert c) (cfg_admin_tls_key c) (cfg_admin_tls_client_ca c) a)"
  by (auto simp: run_admin_def listen_Listening maybe_acceptor_None dest: maybe_acceptor_secured
      split: option.splits sum.splits)

lemma tls_upgrade_identity:
  "no_client_auth accept \<Longrightarrow> tls_upgrade L accept acc = Some (Some who) \<Longrightarrow> \<exists>a rs. acc = Some a \<and> ac_client_roots a = Some rs"
  by (cases acc; cases "ac_client_roots (the acc)")
    (force simp: no_client_auth_def tls_upgrade_def peer_cn_def split: sum.splits)+

lemma ws_upgrade_identity: "ws_upgrade L accept hs mx acc = Some who \<Longrightarrow> tls_upgrade L accept acc = Some who"
  by (auto simp: ws_upgrade_def split: option.splits sum.splits)

lemma tls_connect_ok:
  "tls_connect N L cfg ep = Inr t \<Longrightarrow>
     client_config L (bc_tls_ca cfg) (bc_tls_cert cfg) (bc_tls_key cfg) (bc_tls_insecure cfg) = Inr t"
  by (auto simp: tls_connect_def split: sum.splits option.splits if_splits)

lemma tls_connect_url: "tls_connect N L cfg ep \<noteq> Inl Missing_url"
  by (auto simp: tls_connect_def split: sum.splits option.splits)

lemma ws_over_ok: "ws_over N ep mx below = Inr t \<Longrightarrow> t = below"
  by (auto simp: ws_over_def split: option.splits sum.splits)

lemma ws_over_url: "ws_over N ep mx below = Inl Missing_url \<longleftrightarrow> ep_ws_url ep = None"
  by (auto simp: ws_over_def split: option.splits sum.splits)

lemma open_transport_tls:
  assumes "open_transport N L bc ep mx = Inr t" and "is_tls ep" and "\<not> bc_tls_insecure bc"
  shows "\<exists>ct path rs. t = Some ct \<and> bc_tls_ca bc = Some path \<and> load_certs L path = Inr rs \<and> rs \<noteq> [] \<and> ct_roots ct = Some rs"
proof -
  from assms(1,2) obtain ct where ct: "t = Some ct" "tls_connect N L bc ep = Inr ct"
    by (force simp: open_transport_def is_tls_def dest: ws_over_ok split: option.splits sum.splits)
  from tls_connect_ok [OF this(2)] assms(3)
  have "client_config L (bc_tls_ca bc) (bc_tls_cert bc) (bc_tls_key bc) False = Inr ct" by simp
  from client_config_verifies [OF this] ct(1) show ?thesis by blast
qed

lemma open_transport_url:
  assumes "endpoint_parse address = Inr ep"
  shows "open_transport N L bc ep mx \<noteq> Inl Missing_url"
  using parsed_url [OF assms] tls_connect_url
  by (auto simp: open_transport_def ws_over_url split: option.splits sum.splits transport.splits)

text \<open>
  C21. Configured security is what runs. In a configuration that passed the start-up checks, a TLS listener
  (MQTT or WebSocket) that listens does so with the certificate chain and the key of its own files, demands
  client certificates exactly where a client CA is set, and verifies them against the certificates of that
  file, of which there is at least one; the branch for a listener without a certificate is never taken.
  The admin listener is plain only where nothing of its TLS is configured. A task starts with an identity
  only over a listener that verifies client certificates. And a bridge to a TLS address that is not marked
  insecure is served only over a connection that verifies the remote against its CA file; no bridge with a
  parsed address runs into the missing URL.
\<close>

theorem transport_security:
  assumes "validate c = None" and "no_client_auth accept"
    and "endpoint_parse (bc_address bc) = Inr ep"
  shows "(run_tls L bind c = Listening addr acc \<longrightarrow>
        (\<exists>a. acc = Some a \<and> secured L (cfg_tls_cert c) (cfg_tls_key c) (cfg_tls_client_ca c) a))
    \<and> (run_ws_tls L bind c = Listening addr acc \<longrightarrow>
        (\<exists>a. acc = Some a \<and> secured L (cfg_ws_tls_cert c) (cfg_ws_tls_key c) (cfg_ws_tls_client_ca c) a))
    \<and> (cfg_tls_listen_addr c \<noteq> None \<longrightarrow>
        maybe_acceptor L (cfg_tls_cert c) (cfg_tls_key c) (cfg_tls_client_ca c) ''mqtt-tls'' \<noteq> Inr None)
    \<and> (cfg_ws_tls_listen_addr c \<noteq> None \<longrightarrow>
        maybe_acceptor L (cfg_ws_tls_cert c) (cfg_ws_tls_key c) (cfg_ws_tls_client_ca c) ''websocket-tls'' \<noteq> Inr None)
    \<and> (run_admin L bind c = Listening addr acc \<longrightarrow>
        (case acc of
           None \<Rightarrow> cfg_admin_tls_cert c = None \<and> cfg_admin_tls_key c = None \<and> cfg_admin_tls_client_ca c = None
         | Some a \<Rightarrow> secured L (cfg_admin_tls_cert c) (cfg_admin_tls_key c) (cfg_admin_tls_client_ca c) a))
    \<and> (tls_upgrade L accept acc = Some (Some who) \<longrightarrow> (\<exists>a rs. acc = Some a \<and> ac_client_roots a = Some rs))
    \<and> (ws_upgrade L accept hs mx acc = Some (Some who) \<longrightarrow> (\<exists>a rs. acc = Some a \<and> ac_client_roots a = Some rs))
    \<and> (open_transport N L bc ep mx = Inr t \<and> is_tls ep \<and> \<not> bc_tls_insecure bc \<longrightarrow>
        (\<exists>ct path rs. t = Some ct \<and> bc_tls_ca bc = Some path \<and> load_certs L path = Inr rs \<and> rs \<noteq> [] \<and> ct_roots ct = Some rs))
    \<and> open_transport N L bc ep mx \<noteq> Inl Missing_url"
proof (intro conjI impI)
  show "\<exists>a. acc = Some a \<and> secured L (cfg_tls_cert c) (cfg_tls_key c) (cfg_tls_client_ca c) a"
    if "run_tls L bind c = Listening addr acc" by (rule run_tls_Listening [OF that])
  show "\<exists>a. acc = Some a \<and> secured L (cfg_ws_tls_cert c) (cfg_ws_tls_key c) (cfg_ws_tls_client_ca c) a"
    if "run_ws_tls L bind c = Listening addr acc" by (rule run_ws_tls_Listening [OF that])
  show "maybe_acceptor L (cfg_tls_cert c) (cfg_tls_key c) (cfg_tls_client_ca c) ''mqtt-tls'' \<noteq> Inr None"
    if "cfg_tls_listen_addr c \<noteq> None" using assms(1) that unfolding validate_None maybe_acceptor_None by blast
  show "maybe_acceptor L (cfg_ws_tls_cert c) (cfg_ws_tls_key c) (cfg_ws_tls_client_ca c) ''websocket-tls'' \<noteq> Inr None"
    if "cfg_ws_tls_listen_addr c \<noteq> None" using assms(1) that unfolding validate_None maybe_acceptor_None by blast
  show "case acc of
      None \<Rightarrow> cfg_admin_tls_cert c = None \<and> cfg_admin_tls_key c = None \<and> cfg_admin_tls_client_ca c = None
    | Some a \<Rightarrow> secured L (cfg_admin_tls_cert c) (cfg_admin_tls_key c) (cfg_admin_tls_client_ca c) a"
    if "run_admin L bind c = Listening addr acc" by (rule run_admin_Listening [OF that])
  show "\<exists>a rs. acc = Some a \<and> ac_client_roots a = Some rs" if "tls_upgrade L accept acc = Some (Some who)"
    by (rule tls_upgrade_identity [OF assms(2) that])
  show "\<exists>a rs. acc = Some a \<and> ac_client_roots a = Some rs" if "ws_upgrade L accept hs mx acc = Some (Some who)"
    by (rule tls_upgrade_identity [OF assms(2) ws_upgrade_identity [OF that]])
  show "\<exists>ct path rs. t = Some ct \<and> bc_tls_ca bc = Some path \<and> load_certs L path = Inr rs \<and> rs \<noteq> [] \<and> ct_roots ct = Some rs"
    if "open_transport N L bc ep mx = Inr t \<and> is_tls ep \<and> \<not> bc_tls_insecure bc" using open_transport_tls that by blast
  show "open_transport N L bc ep mx \<noteq> Inl Missing_url" by (rule open_transport_url [OF assms(3)])
qed

definition demo_tls :: tls_lib where
  "demo_tls =
     \<lparr>tl_open = (\<lambda>path. Inr (bytes_of path)), tl_certs = (\<lambda>file. Inr [file]), tl_private_key = (\<lambda>file. Inr (Some file)),
      tl_protocols = None, tl_add_root = (\<lambda>_. None), tl_client_verifier = (\<lambda>_. None),
      tl_single_cert = (\<lambda>_ _. None), tl_client_auth_cert = (\<lambda>_ _. None), tl_common_names = (\<lambda>_. None)\<rparr>"

definition demo_tls_config :: config where
  "demo_tls_config = config_default
     \<lparr>cfg_tls_listen_addr := Some \<lparr>sa_host = ''0.0.0.0'', sa_port = 8883\<rparr>, cfg_tls_cert := Some ''c.pem'',
      cfg_tls_key := Some ''k.pem'', cfg_tls_client_ca := Some ''ca.pem''\<rparr>"

theorem transport_security_witness:
  "\<exists>a. run_tls demo_tls (\<lambda>_. None) demo_tls_config = Listening \<lparr>sa_host = ''0.0.0.0'', sa_port = 8883\<rparr> (Some a)
     \<and> ac_client_roots a = Some [bytes_of ''ca.pem'']"
proof -
  let ?bc = "demo_bridge\<lparr>bc_address := ''tls://h''\<rparr>"
  have v: "validate demo_tls_config = None" by (simp add: validate_def demo_tls_config_def config_default_def)
  have n: "no_client_auth (\<lambda>_. Inr None)" by (simp add: no_client_auth_def)
  obtain ep where "endpoint_parse (bc_address ?bc) = Inr ep"
  proof -
    have "endpoint_parse ''tls://h'' =
        Inr \<lparr>ep_transport = Tls, ep_host = ''h'', ep_port = 8883, ep_ws_url = None\<rparr>" by code_simp
    with that show ?thesis by auto
  qed
  note secure = transport_security [OF v n this]
  obtain a where a: "run_tls demo_tls (\<lambda>_. None) demo_tls_config = Listening \<lparr>sa_host = ''0.0.0.0'', sa_port = 8883\<rparr> (Some a)"
    by (simp add: run_tls_def demo_tls_config_def maybe_acceptor_def build_acceptor_def load_certs_def load_key_def
        has_parent_dir_def demo_tls_def client_roots_def load_roots_def listen_def)
  from conjunct1 [OF secure, rule_format, OF a] have "secured demo_tls (Some ''c.pem'') (Some ''k.pem'') (Some ''ca.pem'') a"
    by (simp add: demo_tls_config_def)
  then have "ac_client_roots a = Some [bytes_of ''ca.pem'']"
    by (auto simp: secured_def load_certs_def demo_tls_def split: if_splits)
  with a show ?thesis by blast
qed

end
