(* ===== verification/Exposition.thy ===== *)
theory Exposition
  imports Stats Bridging
begin

section \<open>The exposition of the statistics\<close>

text \<open>
  The rendering half of \<^verbatim>\<open>src/src/metrics.rs\<close> and the publisher \<^verbatim>\<open>src/src/sysinfo.rs\<close>: the one
  enumeration of the statistics (\<open>snapshot_series\<close>), the Prometheus text, the \<^verbatim>\<open>$SYS\<close> topics and the Home
  Assistant topics, and the tick that publishes them. \<^verbatim>\<open>serde_json\<close>'s rendering of a JSON value is the
  argument \<open>render\<close>.
\<close>

definition PACKET_NAMES :: "string list" where
  "PACKET_NAMES =
     [''reserved'', ''connect'', ''connack'', ''publish'', ''puback'', ''pubrec'', ''pubrel'',
      ''pubcomp'', ''subscribe'', ''suback'', ''unsubscribe'', ''unsuback'', ''pingreq'',
      ''pingresp'', ''disconnect'', ''auth'']"

definition packet_type_publish :: nat where
  "packet_type_publish = 3"

datatype series_kind = Counter | Gauge

record series =
  sr_name :: string
  sr_kind :: series_kind
  sr_help :: string
  sr_value :: u64

definition show_u64 :: "u64 \<Rightarrow> string" where
  "show_u64 n = show_nat (unat n)"

text \<open>\<^verbatim>\<open>str::strip_suffix\<close> and \<^verbatim>\<open>str::strip_prefix\<close>.\<close>

definition strip_suffix :: "string \<Rightarrow> string \<Rightarrow> string option" where
  "strip_suffix s sfx =
     (if length sfx \<le> length s \<and> drop (length s - length sfx) s = sfx
      then Some (take (length s - length sfx) s) else None)"

definition strip_prefix :: "string \<Rightarrow> string \<Rightarrow> string option" where
  "strip_prefix s pfx = (if starts_with s pfx then Some (drop (length pfx) s) else None)"

definition otel_name :: "series \<Rightarrow> string" where
  "otel_name s =
     (case sr_kind s of
        Counter \<Rightarrow> (case strip_suffix (sr_name s) ''_total'' of Some n \<Rightarrow> n | None \<Rightarrow> sr_name s)
      | Gauge \<Rightarrow> sr_name s)"

text \<open>\<^verbatim>\<open>str::to_uppercase\<close> on ASCII text.\<close>

definition upper_char :: "char \<Rightarrow> char" where
  "upper_char c = (let n = (of_char c :: nat) in if 97 \<le> n \<and> n \<le> 122 then char_of (n - 32) else c)"

definition PACKET_SERIES_TEXT :: "(string \<times> string) list" where
  "PACKET_SERIES_TEXT =
     concat (map (\<lambda>name. map (\<lambda>verb. (''mqtt_packet_'' @ name @ ''_'' @ verb @ ''_total'',
                                     ''Total '' @ map upper_char name @ '' packets '' @ verb @ ''.''))
                    [''received'', ''sent'']) (tl PACKET_NAMES))"

subsection \<open>The statistics\<close>

definition counter :: "string \<Rightarrow> string \<Rightarrow> u64 \<Rightarrow> series" where
  "counter name help value = \<lparr>sr_name = name, sr_kind = Counter, sr_help = help, sr_value = value\<rparr>"

definition gauge :: "string \<Rightarrow> string \<Rightarrow> u64 \<Rightarrow> series" where
  "gauge name help value = \<lparr>sr_name = name, sr_kind = Gauge, sr_help = help, sr_value = value\<rparr>"

definition counter_series :: "snapshot \<Rightarrow> series list" where
  "counter_series s =
     (let m = sn_counters s
      in [
        counter ''mqtt_connections_total'' ''Total accepted client connections.'' (mx_connections_total m),
        counter ''mqtt_packets_received_total''
          ''Total MQTT control packets received.'' (mx_packets_received m),
        counter ''mqtt_packets_sent_total'' ''Total MQTT control packets sent.'' (mx_packets_sent m),
        counter ''mqtt_bytes_received_total''
          ''Total bytes received from clients and bridge remotes.'' (mx_bytes_received m),
        counter ''mqtt_bytes_sent_total''
          ''Total bytes sent to clients and bridge remotes.'' (mx_bytes_sent m),
        counter ''mqtt_publish_received_total''
          ''Total PUBLISH packets received from clients and bridge remotes.'' (mx_publish_received m),
        counter ''mqtt_publish_delivered_total''
          ''Total PUBLISH deliveries to subscribers.'' (mx_publish_delivered m),
        counter ''mqtt_publish_dropped_total''
          ''Total messages dropped because an offline session's queue was full.'' (mx_publish_dropped m),
        counter ''mqtt_bridge_forwarded_out_total''
          ''Total messages forwarded out to bridged remote brokers.'' (mx_bridge_forwarded_out m),
        counter ''mqtt_bridge_forwarded_in_total''
          ''Total messages received from bridged remotes and injected locally.'' (mx_bridge_forwarded_in m),
        counter ''mqtt_messages_received_total''
          ''Total MQTT messages (all control packets) received.'' (mx_packets_received m),
        counter ''mqtt_messages_sent_total''
          ''Total MQTT messages (all control packets) sent.'' (mx_packets_sent m),
        counter ''mqtt_publish_sent_total''
          ''Total PUBLISH packets sent to clients and bridge remotes.'' (mx_packet_sent m ! packet_type_publish),
        counter ''mqtt_publish_bytes_received_total''
          ''Total PUBLISH payload bytes received.'' (mx_publish_bytes_received m),
        counter ''mqtt_publish_bytes_sent_total''
          ''Total PUBLISH payload bytes sent.'' (mx_publish_bytes_sent m),
        counter ''mqtt_socket_connections_total''
          ''Total sockets accepted (including those that never sent CONNECT).'' (mx_socket_connections m),
        counter ''mqtt_clients_expired_total''
          ''Total persistent sessions discarded after Session Expiry elapsed.'' (mx_clients_expired m),
        counter ''mqtt_connections_rate_limited_total''
          ''Total connections refused by the per-source-IP rate limiter.'' (mx_connections_rate_limited m)])"

definition packet_series :: "snapshot \<Rightarrow> series list" where
  "packet_series s =
     concat (map (\<lambda>kind.
        let line = (\<lambda>i. PACKET_SERIES_TEXT ! ((kind - 1) * 2 + i)); m = sn_counters s
        in [counter (fst (line 0)) (snd (line 0)) (mx_packet_received m ! kind),
            counter (fst (line 1)) (snd (line 1)) (mx_packet_sent m ! kind)])
       [1..<length PACKET_NAMES])"

definition gauge_series :: "snapshot \<Rightarrow> series list" where
  "gauge_series s =
     (let m = sn_counters s
      in [
        gauge ''mqtt_clients_connected'' ''Currently connected clients.'' (sn_clients_connected s),
        gauge ''mqtt_sessions_total''
          ''Sessions currently held (online and offline).'' (sn_sessions_total s),
        gauge ''mqtt_retained_messages'' ''Retained messages currently stored.'' (sn_retained_messages s),
        gauge ''mqtt_subscriptions_total''
          ''Active subscriptions across all sessions.'' (sn_subscriptions_total s),
        gauge ''mqtt_bridges_connected''
          ''Currently-connected broker-to-broker bridges.'' (mx_bridges_connected m),
        gauge ''mqtt_clients_disconnected''
          ''Persistent sessions currently offline.'' (sn_clients_disconnected s),
        gauge ''mqtt_clients_total''
          ''Clients known to the broker (connected plus offline persistent).'' (sn_clients_total s),
        gauge ''mqtt_clients_maximum''
          ''High-water mark of concurrently connected clients.'' (mx_clients_maximum m),
        gauge ''mqtt_retained_bytes'' ''Payload bytes held in retained messages.'' (sn_retained_bytes s),
        gauge ''mqtt_shared_subscriptions_count''
          ''Active shared subscriptions ($share/...) across all sessions.'' (sn_shared_subscriptions_count s),
        gauge ''mqtt_store_messages_count''
          ''Messages held in memory (queued for offline sessions plus retained).'' (sn_store_messages_count s),
        gauge ''mqtt_store_messages_bytes''
          ''Payload bytes of messages held in memory.'' (sn_store_messages_bytes s),
        gauge ''mqtt_packet_out_count''
          ''Messages queued for delivery across all sessions.'' (sn_packet_out_count s),
        gauge ''mqtt_packet_out_bytes''
          ''Payload bytes queued for delivery across all sessions.'' (sn_packet_out_bytes s),
        gauge ''mqtt_uptime_seconds'' ''Seconds since the broker started.'' (sn_uptime_seconds s)])"

definition snapshot_series :: "snapshot \<Rightarrow> series list" where
  "snapshot_series s = counter_series s @ packet_series s @ gauge_series s"

subsection \<open>Prometheus\<close>

definition newline :: char where
  "newline = CHR 0x0A"

definition quote :: string where
  "quote = [CHR 0x22]"

definition kind_word :: "series_kind \<Rightarrow> string" where
  "kind_word k = (case k of Counter \<Rightarrow> ''counter'' | Gauge \<Rightarrow> ''gauge'')"

definition series_text :: "series \<Rightarrow> string" where
  "series_text s =
     ''# HELP '' @ sr_name s @ '' '' @ sr_help s @ [newline] @
     ''# TYPE '' @ sr_name s @ '' '' @ kind_word (sr_kind s) @ [newline] @
     sr_name s @ '' '' @ show_u64 (sr_value s) @ [newline]"

definition to_prometheus :: "snapshot \<Rightarrow> string" where
  "to_prometheus s =
     concat (map series_text (snapshot_series s)) @
     ''# HELP mqtt_build_info Broker build information.'' @ [newline] @
     ''# TYPE mqtt_build_info gauge'' @ [newline] @
     ''mqtt_build_info{version='' @ quote @ sn_version s @ quote @ ''} 1'' @ [newline]"

subsection \<open>Status topics\<close>

definition sys :: "string \<Rightarrow> string \<Rightarrow> string \<times> string" where
  "sys topic value = (''$SYS/broker/'' @ topic, value)"

definition to_sys_topics :: "snapshot \<Rightarrow> (string \<times> string) list" where
  "to_sys_topics s =
     (let m = sn_counters s
      in [
        sys ''version'' (''WispMQ '' @ sn_version s),
        sys ''uptime'' (show_u64 (sn_uptime_seconds s) @ '' seconds''),
        sys ''clients/connected'' (show_u64 (sn_clients_connected s)),
        sys ''clients/disconnected'' (show_u64 (sn_clients_disconnected s)),
        sys ''clients/total'' (show_u64 (sn_clients_total s)),
        sys ''clients/maximum'' (show_u64 (mx_clients_maximum m)),
        sys ''clients/expired'' (show_u64 (mx_clients_expired m)),
        sys ''bytes/received'' (show_u64 (mx_bytes_received m)),
        sys ''bytes/sent'' (show_u64 (mx_bytes_sent m)),
        sys ''messages/received'' (show_u64 (mx_packets_received m)),
        sys ''messages/sent'' (show_u64 (mx_packets_sent m)),
        sys ''publish/messages/received'' (show_u64 (mx_publish_received m)),
        sys ''publish/messages/sent'' (show_u64 (mx_packet_sent m ! packet_type_publish)),
        sys ''publish/messages/dropped'' (show_u64 (mx_publish_dropped m)),
        sys ''publish/bytes/received'' (show_u64 (mx_publish_bytes_received m)),
        sys ''publish/bytes/sent'' (show_u64 (mx_publish_bytes_sent m)),
        sys ''subscriptions/count'' (show_u64 (sn_subscriptions_total s)),
        sys ''shared_subscriptions/count'' (show_u64 (sn_shared_subscriptions_count s)),
        sys ''retained messages/count'' (show_u64 (sn_retained_messages s)),
        sys ''store/messages/count'' (show_u64 (sn_store_messages_count s)),
        sys ''store/messages/bytes'' (show_u64 (sn_store_messages_bytes s)),
        sys ''connections/socket/count'' (show_u64 (mx_socket_connections m)),
        sys ''connections/rate_limited'' (show_u64 (mx_connections_rate_limited m)),
        sys ''bridges/connected'' (show_u64 (mx_bridges_connected m))]
        @ concat (map (\<lambda>(kind, name).
             [sys (''mqtt/'' @ name @ ''/received'') (show_u64 (mx_packet_received m ! kind)),
              sys (''mqtt/'' @ name @ ''/sent'') (show_u64 (mx_packet_sent m ! kind))])
            (tl (zip [0..<length PACKET_NAMES] PACKET_NAMES))))"

subsection \<open>Home Assistant\<close>

definition ha_state_topic :: "string \<Rightarrow> string \<Rightarrow> string" where
  "ha_state_topic node_id object_id = ''wispmq/'' @ node_id @ ''/'' @ object_id"

definition friendly_series_name :: "string \<Rightarrow> string" where
  "friendly_series_name object_id =
     map (\<lambda>c. if c = CHR ''_'' then CHR '' '' else c)
       (case strip_prefix object_id ''mqtt_'' of Some n \<Rightarrow> n | None \<Rightarrow> object_id)"

definition ha_config :: "snapshot \<Rightarrow> string \<Rightarrow> series \<Rightarrow> json" where
  "ha_config s node_id x =
     JObject
       [(''device'',
         JObject
           [(''identifiers'', JArray [JString (''wispmq_'' @ node_id)]), (''manufacturer'', JString ''elpapimango''),
            (''model'', JString ''wispmq''),
            (''name'', JString (if node_id = ''wispmq'' then ''WispMQ'' else ''WispMQ ('' @ node_id @ '')'')),
            (''sw_version'', JString (sn_version s))]),
        (''name'', JString (friendly_series_name (sr_name x))),
        (''state_class'',
         JString (case sr_kind x of Counter \<Rightarrow> ''total_increasing'' | Gauge \<Rightarrow> ''measurement'')),
        (''state_topic'', JString (ha_state_topic node_id (sr_name x))),
        (''unique_id'', JString (''wispmq_'' @ node_id @ ''_'' @ sr_name x))]"

definition to_ha_discovery :: "(json \<Rightarrow> string) \<Rightarrow> snapshot \<Rightarrow> string \<Rightarrow> string \<Rightarrow> (string \<times> string) list" where
  "to_ha_discovery render s pfx node_id =
     map (\<lambda>x. (pfx @ ''/sensor/'' @ node_id @ ''/'' @ sr_name x @ ''/config'', render (ha_config s node_id x)))
       (snapshot_series s)"

definition to_ha_states :: "snapshot \<Rightarrow> string \<Rightarrow> (string \<times> string) list" where
  "to_ha_states s node_id =
     map (\<lambda>x. (ha_state_topic node_id (sr_name x), show_u64 (sr_value x))) (snapshot_series s)"

subsection \<open>The publisher\<close>

definition publish_once ::
    "protocol \<Rightarrow> u64 \<Rightarrow> u64 \<Rightarrow> string \<Rightarrow> bool \<Rightarrow> broker \<Rightarrow> broker" where
  "publish_once P now uptime version ha_discovery b =
     (let (snapshot, b1) = broker_snapshot now uptime version b;
          entries = to_sys_topics snapshot
            @ (if ha_discovery then to_ha_states snapshot (cfg_service_name (b_config b1)) else [])
      in publish_sys P now entries b1)"

definition publish_ha_discovery ::
    "protocol \<Rightarrow> (json \<Rightarrow> string) \<Rightarrow> u64 \<Rightarrow> u64 \<Rightarrow> string \<Rightarrow> broker \<Rightarrow> broker" where
  "publish_ha_discovery P render now uptime version b =
     (let (snapshot, b1) = broker_snapshot now uptime version b;
          cfg = b_config b1
      in publish_sys P now (to_ha_discovery render snapshot (cfg_ha_discovery_prefix cfg) (cfg_service_name cfg)) b1)"

text \<open>What \<^verbatim>\<open>sysinfo::run\<close> does before its timer loop, each of whose ticks is a \<open>publish_once\<close>; nothing at
  all when the interval is 0.\<close>

definition sysinfo_start ::
    "protocol \<Rightarrow> (json \<Rightarrow> string) \<Rightarrow> u64 \<Rightarrow> u64 \<Rightarrow> string \<Rightarrow> broker \<Rightarrow> broker" where
  "sysinfo_start P render now uptime version b =
     (if cfg_sys_interval (b_config b) = 0 then b
      else
        let ha = cfg_ha_discovery (b_config b);
            b1 = (if ha then publish_ha_discovery P render now uptime version b else b)
        in publish_once P now uptime version ha b1)"

subsection \<open>Names\<close>

text \<open>The names, kinds and help texts are the same in every snapshot, so what is said of them can be
  computed on one.\<close>

definition series_label :: "series \<Rightarrow> string \<times> series_kind \<times> string" where
  "series_label x = (sr_name x, sr_kind x, sr_help x)"

definition empty_snapshot :: snapshot where
  "empty_snapshot =
     \<lparr>sn_counters = metrics_default, sn_clients_connected = 0, sn_clients_disconnected = 0, sn_clients_total = 0,
      sn_sessions_total = 0, sn_retained_messages = 0, sn_retained_bytes = 0, sn_subscriptions_total = 0,
      sn_shared_subscriptions_count = 0, sn_store_messages_count = 0, sn_store_messages_bytes = 0,
      sn_packet_out_count = 0, sn_packet_out_bytes = 0, sn_uptime_seconds = 0, sn_version = ''0''\<rparr>"

lemma series_labels: "map series_label (snapshot_series s) = map series_label (snapshot_series t)"
  by (simp add: snapshot_series_def counter_series_def gauge_series_def packet_series_def Let_def counter_def gauge_def
      series_label_def map_concat comp_def)

definition plain_name :: "string \<Rightarrow> bool" where
  "plain_name n \<longleftrightarrow> n \<noteq> [] \<and> hd n \<noteq> CHR ''#'' \<and> newline \<notin> set n \<and> CHR '' '' \<notin> set n"

definition plain_label :: "string \<times> series_kind \<times> string \<Rightarrow> bool" where
  "plain_label l \<longleftrightarrow> plain_name (fst l) \<and> newline \<notin> set (snd (snd l))"

lemma empty_labels:
  "distinct (map fst (map series_label (snapshot_series empty_snapshot)))"
  "list_all plain_label (map series_label (snapshot_series empty_snapshot))"
  by code_simp+

lemma series_names_distinct: "distinct (map sr_name (snapshot_series s))"
  using empty_labels(1) unfolding series_labels [of empty_snapshot s] by (simp add: comp_def series_label_def)

lemma series_plain:
  "x \<in> set (snapshot_series s) \<Longrightarrow> plain_name (sr_name x) \<and> newline \<notin> set (sr_help x)"
  using empty_labels(2) unfolding series_labels [of empty_snapshot s]
  by (auto simp: list_all_iff plain_label_def series_label_def)

text \<open>So are the topics of the status tree.\<close>

lemma sys_topics_const: "map fst (to_sys_topics s) = map fst (to_sys_topics t)"
  by (simp add: to_sys_topics_def Let_def sys_def map_concat comp_def case_prod_beta)

lemma sys_topics_distinct: "distinct (map fst (to_sys_topics s))"
proof -
  have "distinct (map fst (to_sys_topics empty_snapshot))" by code_simp
  then show ?thesis unfolding sys_topics_const [of empty_snapshot s] .
qed

subsection \<open>Reading the Prometheus text back\<close>

text \<open>A scraper: the lines of the text that are neither empty nor comments, split at the first blank.\<close>

definition scrape_line :: "string \<Rightarrow> (string \<times> string) list" where
  "scrape_line l =
     (if l = [] \<or> hd l = CHR ''#'' then []
      else (case split_once (CHR '' '') l of None \<Rightarrow> [] | Some nv \<Rightarrow> [nv]))"

definition scrape :: "string \<Rightarrow> (string \<times> string) list" where
  "scrape t = concat (map scrape_line (split_on newline t))"

lemma scrape_line_free: "newline \<notin> set l \<Longrightarrow> scrape (l @ newline # t) = scrape_line l @ scrape t"
  by (simp add: scrape_def split_on_append)

lemma scrape_Nil [simp]: "scrape [] = []"
  by (simp add: scrape_def scrape_line_def)

lemma newline_free [simp]:
  "newline \<notin> set (show_nat n)" "newline \<notin> set (kind_word k)" "newline \<noteq> CHR '' ''"
proof -
  show "newline \<notin> set (show_nat n)" using show_nat_digits [of n] by (auto simp: is_digit_def newline_def)
  show "newline \<notin> set (kind_word k)" by (cases k) (simp_all add: kind_word_def newline_def)
qed (simp add: newline_def)

lemma scrape_comment:
  "newline \<notin> set l \<Longrightarrow> scrape (CHR ''#'' # l @ newline # t) = scrape t"
  using scrape_line_free [of "CHR ''#'' # l" t] by (simp add: scrape_line_def newline_def)

lemma scrape_line_pair:
  "n \<noteq> [] \<Longrightarrow> hd n \<noteq> CHR ''#'' \<Longrightarrow> CHR '' '' \<notin> set n \<Longrightarrow> scrape_line (n @ CHR '' '' # v) = [(n, v)]"
  by (simp add: scrape_line_def split_once_append)

lemma scrape_series:
  assumes "plain_name (sr_name x)" and "newline \<notin> set (sr_help x)"
  shows "scrape (series_text x @ t) = (sr_name x, show_u64 (sr_value x)) # scrape t"
proof -
  let ?n = "sr_name x" and ?v = "show_u64 (sr_value x)"
  have n: "newline \<notin> set ?n" "CHR '' '' \<notin> set ?n" "?n \<noteq> []" "hd ?n \<noteq> CHR ''#''"
    using assms(1) by (simp_all add: plain_name_def)
  have hlp: "newline \<notin> set ('' HELP '' @ ?n @ '' '' @ sr_help x)"
    and ty: "newline \<notin> set ('' TYPE '' @ ?n @ '' '' @ kind_word (sr_kind x))"
    using n(1) assms(2) newline_free(2) by (simp_all, simp_all add: newline_def)
  let ?l3 = "?n @ CHR '' '' # ?v"
  have layout: "series_text x @ t = CHR ''#'' # ('' HELP '' @ ?n @ '' '' @ sr_help x) @ newline #
      (CHR ''#'' # ('' TYPE '' @ ?n @ '' '' @ kind_word (sr_kind x)) @ newline # (?l3 @ newline # t))"
    by (simp add: series_text_def)
  have "scrape (series_text x @ t) = scrape (?l3 @ newline # t)"
    unfolding layout scrape_comment [OF hlp] scrape_comment [OF ty] ..
  moreover have "scrape (?l3 @ newline # t) = scrape_line ?l3 @ scrape t"
    using n by (intro scrape_line_free) (simp add: show_u64_def)
  moreover have "scrape_line ?l3 = [(?n, ?v)]" using n by (simp add: scrape_line_pair)
  ultimately show ?thesis by simp
qed

lemma scrape_all:
  "(\<And>x. x \<in> set xs \<Longrightarrow> plain_name (sr_name x) \<and> newline \<notin> set (sr_help x)) \<Longrightarrow>
     scrape (concat (map series_text xs) @ t) = map (\<lambda>x. (sr_name x, show_u64 (sr_value x))) xs @ scrape t"
  by (induction xs) (simp_all add: scrape_series)

lemma scrape_build_info:
  assumes "newline \<notin> set v" and "CHR '' '' \<notin> set v"
  shows "scrape (''# HELP mqtt_build_info Broker build information.'' @ [newline] @
      ''# TYPE mqtt_build_info gauge'' @ [newline] @ ''mqtt_build_info{version='' @ quote @ v @ quote @ ''} 1'' @ [newline])
    = [(''mqtt_build_info{version='' @ quote @ v @ quote @ ''}'', ''1'')]"
proof -
  let ?n = "''mqtt_build_info{version='' @ quote @ v @ quote @ ''}''"
  have n: "newline \<notin> set (?n @ CHR '' '' # ''1'')" "CHR '' '' \<notin> set ?n"
    using assms by (simp_all add: quote_def newline_def)
  have hlp: "newline \<notin> set '' HELP mqtt_build_info Broker build information.''"
    and ty: "newline \<notin> set '' TYPE mqtt_build_info gauge''" by (simp_all add: newline_def)
  have "scrape_line (?n @ CHR '' '' # ''1'') = [(?n, ''1'')]"
    using n(2) by (intro scrape_line_pair) simp_all
  with scrape_line_free [OF n(1), of "[]"] scrape_comment [OF hlp] scrape_comment [OF ty] show ?thesis by simp
qed

text \<open>The retained messages after a tick.\<close>

lemma retained_route [simp]: "b_retained (snd (route P now publisher m b)) = b_retained b"
  by simp

lemma publish_sys_retained:
  "distinct (map fst es) \<Longrightarrow>
     hm_get t (b_retained (publish_sys P now es b)) =
       (case map_of es t of None \<Rightarrow> hm_get t (b_retained b) | Some v \<Rightarrow> Some (sys_message t v))"
proof (induction P now es b rule: publish_sys.induct)
  case (2 P now topic payload rest b)
  then have "map_of rest topic = None" by (simp add: map_of_eq_None_iff)
  with 2 show ?case by (simp split: option.split)
qed simp

lemma ha_topics_distinct: "distinct (map fst (to_ha_states s node_id))"
  using series_names_distinct [of s] by (simp add: to_ha_states_def ha_state_topic_def comp_def distinct_map inj_on_def)

lemma status_topics_distinct: "distinct (map fst (to_sys_topics s @ to_ha_states s node_id))"
proof -
  have "starts_with t ''$''" if "t \<in> set (map fst (to_sys_topics s))" for t
    using that by (auto simp: to_sys_topics_def Let_def sys_def case_prod_beta starts_with_def)
  moreover have "starts_with t ''w''" if "t \<in> set (map fst (to_ha_states s node_id))" for t
    using that by (auto simp: to_ha_states_def ha_state_topic_def starts_with_def)
  ultimately have "set (map fst (to_sys_topics s)) \<inter> set (map fst (to_ha_states s node_id)) = {}"
    by (fastforce simp: starts_with_def)
  then show ?thesis
    using sys_topics_distinct [of s] ha_topics_distinct [of s node_id] by simp
qed

text \<open>A tick leaves every status topic retained with the value of the snapshot it took, so that a client
  that subscribes between two ticks gets the current value at once.\<close>

lemma status_topics_retained:
  fixes P now uptime version ha b
  defines "sn \<equiv> fst (broker_snapshot now uptime version b)"
  assumes "(t, v) \<in> set (to_sys_topics sn)
    \<or> ha \<and> (t, v) \<in> set (to_ha_states sn (cfg_service_name (b_config b)))"
  shows "hm_get t (b_retained (publish_once P now uptime version ha b)) = Some (sys_message t v)"
proof -
  let ?b = "snd (broker_snapshot now uptime version b)"
  let ?es = "to_sys_topics sn @ (if ha then to_ha_states sn (cfg_service_name (b_config ?b)) else [])"
  have cfg: "b_config ?b = b_config b" by (simp add: broker_snapshot_def Let_def case_prod_beta)
  have d: "distinct (map fst ?es)"
    using status_topics_distinct [of sn] sys_topics_distinct [of sn] by simp
  moreover have "(t, v) \<in> set ?es" using assms(2) cfg by auto
  ultimately have "map_of ?es t = Some v" by (rule map_of_is_SomeI)
  then have "hm_get t (b_retained (publish_sys P now ?es ?b)) = Some (sys_message t v)"
    unfolding publish_sys_retained [OF d] by (simp only: option.case)
  moreover have "publish_once P now uptime version ha b = publish_sys P now ?es ?b"
    by (simp only: publish_once_def Let_def case_prod_beta sn_def)
  ultimately show ?thesis by simp
qed

text \<open>Discovery points every sensor at the topic on which its state is published.\<close>

lemma ha_discovery_state_topics:
  "map (\<lambda>x. json_idx (ha_config s node_id x) ''state_topic'') (snapshot_series s)
     = map (JString \<circ> fst) (to_ha_states s node_id)"
  by (simp add: ha_config_def json_idx_def hm_get_Cons to_ha_states_def)

lemma otel_name_counter:
  "sr_kind x = Counter \<Longrightarrow> sr_name x = n @ ''_total'' \<Longrightarrow> otel_name x = n"
  by (simp add: otel_name_def strip_suffix_def)

subsection \<open>Properties\<close>

text \<open>C24: the Prometheus text says what the snapshot says. A scraper that reads the text back finds every
  statistic once, under its own name, in the order of the enumeration, with a decimal number that parses to
  the value in the snapshot, followed by the build information, and nothing else; no two statistics share a
  name.\<close>

theorem scrape_roundtrip:
  assumes "newline \<notin> set (sn_version s)" and "CHR '' '' \<notin> set (sn_version s)"
  shows "scrape (to_prometheus s) =
      map (\<lambda>x. (sr_name x, show_u64 (sr_value x))) (snapshot_series s)
        @ [(''mqtt_build_info{version='' @ quote @ sn_version s @ quote @ ''}'', ''1'')]
    \<and> distinct (map sr_name (snapshot_series s))
    \<and> list_all (\<lambda>x. parse_uint 18446744073709551615 (show_u64 (sr_value x)) = Some (unat (sr_value x))) (snapshot_series s)"
proof -
  have "unat (v :: u64) \<le> 18446744073709551615" for v
    using unsigned_less [of v, where ?'a = nat] by simp
  then have "parse_uint 18446744073709551615 (show_u64 v) = Some (unat v)" for v
    unfolding show_u64_def by (rule parse_uint_show)
  then have "list_all (\<lambda>x. parse_uint 18446744073709551615 (show_u64 (sr_value x)) = Some (unat (sr_value x)))
      (snapshot_series s)" by (simp add: list_all_iff)
  moreover have "scrape (to_prometheus s) = map (\<lambda>x. (sr_name x, show_u64 (sr_value x))) (snapshot_series s)
      @ [(''mqtt_build_info{version='' @ quote @ sn_version s @ quote @ ''}'', ''1'')]"
    unfolding to_prometheus_def scrape_build_info [OF assms, symmetric] by (rule scrape_all) (rule series_plain)
  ultimately show ?thesis using series_names_distinct by blast
qed

theorem scrape_roundtrip_witness:
  "last (scrape (to_prometheus empty_snapshot)) = (''mqtt_build_info{version='' @ quote @ ''0'' @ quote @ ''}'', ''1'')
   \<and> distinct (map sr_name (snapshot_series empty_snapshot))"
proof -
  have v: "sn_version empty_snapshot = ''0''" by (simp add: empty_snapshot_def)
  have "newline \<notin> set (sn_version empty_snapshot)" "CHR '' '' \<notin> set (sn_version empty_snapshot)"
    by (simp_all add: v newline_def)
  note scraped = scrape_roundtrip [OF this]
  from conjunct1 [OF scraped] have "last (scrape (to_prometheus empty_snapshot)) =
      (''mqtt_build_info{version='' @ quote @ sn_version empty_snapshot @ quote @ ''}'', ''1'')"
    by (simp only: last_snoc)
  with conjunct1 [OF conjunct2 [OF scraped]] show ?thesis by (simp only: v)
qed

end
