(* ===== verification/Net_Addr.thy ===== *)
theory Net_Addr
  imports Config
begin

section \<open>Socket addresses as text\<close>

text \<open>
  The parser behind \<^verbatim>\<open>str::parse::<SocketAddr>\<close> of the standard library, which every configuration
  layer applies to listener addresses: an IPv4 address in dotted decimal, or an IPv6 address in
  brackets with an optional numeric scope, then a colon and a decimal port. Each reader returns what it
  read and the rest of the input; a \<open>socket_addr\<close> keeps the text of the host and the value of the port.
\<close>

type_synonym 'a reader = "string \<Rightarrow> ('a \<times> string) option"

definition read_char :: "char \<Rightarrow> unit reader" where
  "read_char c s = (case s of [] \<Rightarrow> None | x # xs \<Rightarrow> if x = c then Some ((), xs) else None)"

definition radix_val :: "nat \<Rightarrow> char \<Rightarrow> nat option" where
  "radix_val radix c =
     (let n = (of_char c :: nat);
          v = (if 48 \<le> n \<and> n \<le> 57 then n - 48
               else if 97 \<le> n \<and> n \<le> 122 then n - 87
               else if 65 \<le> n \<and> n \<le> 90 then n - 55 else radix)
      in if v < radix then Some v else None)"

text \<open>\<^verbatim>\<open>Parser::read_number\<close>: the digits up to the first other character; refused when there are none,
  more than \<open>max_digits\<close>, a leading zero where that is not allowed, or a value above \<open>mx\<close>.\<close>

definition read_number :: "nat \<Rightarrow> nat option \<Rightarrow> bool \<Rightarrow> nat \<Rightarrow> nat reader" where
  "read_number radix max_digits zero_prefix mx s =
     (let ds = takeWhile (\<lambda>c. radix_val radix c \<noteq> None) s;
          rest = dropWhile (\<lambda>c. radix_val radix c \<noteq> None) s;
          v = foldl (\<lambda>a c. radix * a + the (radix_val radix c)) 0 ds
      in if ds = [] \<or> mx < v then None
         else if (case max_digits of None \<Rightarrow> False | Some k \<Rightarrow> k < length ds) then None
         else if \<not> zero_prefix \<and> hd ds = CHR ''0'' \<and> 1 < length ds then None
         else Some (v, rest))"

definition read_octet :: "nat reader" where
  "read_octet s = read_number 10 (Some 3) False 255 s"

fun read_octets :: "nat \<Rightarrow> unit reader" where
  "read_octets 0 s = Some ((), s)"
| "read_octets (Suc k) s =
     (case read_char (CHR ''.'') s of
        None \<Rightarrow> None
      | Some (_, s1) \<Rightarrow>
          (case read_octet s1 of
             None \<Rightarrow> None
           | Some (_, s2) \<Rightarrow> read_octets k s2))"

definition read_ipv4 :: "unit reader" where
  "read_ipv4 s =
     (case read_octet s of
        None \<Rightarrow> None
      | Some (_, s1) \<Rightarrow> read_octets 3 s1)"

text \<open>A sequence of at most \<open>limit\<close> groups, separated by colons; an embedded IPv4 address counts as two
  groups and ends the sequence. The result is the number of groups and whether it ended that way.\<close>

function read_groups :: "nat \<Rightarrow> nat \<Rightarrow> string \<Rightarrow> (nat \<times> bool) \<times> string" where
  "read_groups i limit s =
     (if limit \<le> i then ((i, False), s)
      else
        let sep = (\<lambda>p. if i = 0 then p s
                        else (case read_char (CHR '':'') s of None \<Rightarrow> None | Some (_, t) \<Rightarrow> p t))
        in case (if Suc i < limit then sep (\<lambda>t. map_option snd (read_ipv4 t)) else None) of
             Some rest \<Rightarrow> ((i + 2, True), rest)
           | None \<Rightarrow> (case sep (\<lambda>t. map_option snd (read_number 16 (Some 4) True 65535 t)) of
                        None \<Rightarrow> ((i, False), s)
                      | Some rest \<Rightarrow> read_groups (Suc i) limit rest))"
  by pat_completeness auto
termination
  by (relation "measure (\<lambda>(i, limit, _). limit - i)") auto

declare read_groups.simps [simp del]

definition read_ipv6 :: "unit reader" where
  "read_ipv6 s =
     (case read_groups 0 8 s of
        ((n, v4), rest) \<Rightarrow>
          if n = 8 then Some ((), rest)
          else if v4 then None
          else (case read_char (CHR '':'') rest of
                  None \<Rightarrow> None
                | Some (_, r1) \<Rightarrow>
                    (case read_char (CHR '':'') r1 of
                       None \<Rightarrow> None
                     | Some (_, r2) \<Rightarrow> Some ((), snd (read_groups 0 (8 - (n + 1)) r2)))))"

definition read_port :: "nat reader" where
  "read_port s =
     (case read_char (CHR '':'') s of
        None \<Rightarrow> None
      | Some (_, t) \<Rightarrow> read_number 10 None True 65535 t)"

definition read_scope :: "string \<Rightarrow> string option" where
  "read_scope s =
     (case read_char (CHR ''%'') s of
        None \<Rightarrow> Some s
      | Some (_, t) \<Rightarrow> map_option snd (read_number 10 None True 4294967295 t))"

definition socket_of :: "string \<Rightarrow> string \<Rightarrow> socket_addr option" where
  "socket_of s after_host =
     (case read_port after_host of
        Some (port, []) \<Rightarrow>
          Some \<lparr>sa_host = take (length s - length after_host) s, sa_port = of_nat port\<rparr>
      | _ \<Rightarrow> None)"

definition parse_socket_v6 :: "string \<Rightarrow> socket_addr option" where
  "parse_socket_v6 s =
     (case read_char (CHR ''['') s of
        None \<Rightarrow> None
      | Some (_, s1) \<Rightarrow>
          (case read_ipv6 s1 of
             None \<Rightarrow> None
           | Some (_, s2) \<Rightarrow>
               (case read_scope s2 of
                  None \<Rightarrow> None
                | Some s3 \<Rightarrow>
                    (case read_char (CHR '']'') s3 of
                       None \<Rightarrow> None
                     | Some (_, s4) \<Rightarrow> socket_of s s4))))"

definition parse_socket :: "string \<Rightarrow> socket_addr option" where
  "parse_socket s =
     (case read_ipv4 s of
        Some (_, rest) \<Rightarrow> (case socket_of s rest of Some a \<Rightarrow> Some a | None \<Rightarrow> parse_socket_v6 s)
      | None \<Rightarrow> parse_socket_v6 s)"

subsection \<open>Reading back what is printed\<close>

lemma radix_val_digit: "is_digit c \<Longrightarrow> radix_val 10 c = Some (digit_val c)"
  by (auto simp: radix_val_def is_digit_def digit_val_def Let_def)

lemma radix_10_iff: "radix_val 10 c \<noteq> None \<longleftrightarrow> is_digit c"
  by (auto simp: radix_val_def is_digit_def Let_def)

lemma show_nat_hd: "hd (show_nat n) = CHR ''0'' \<Longrightarrow> length (show_nat n) = 1"
proof (induction n rule: show_nat.induct)
  case (1 n)
  show ?case
  proof (cases "n < 10")
    case True
    then show ?thesis by (simp add: show_nat.simps [of n])
  next
    case False
    then have sh: "show_nat n = show_nat (n div 10) @ [digit_char (n mod 10)]"
      by (simp add: show_nat.simps [of n])
    with 1 False have len: "length (show_nat (n div 10)) = 1" by simp
    then have "show_nat (n div 10) = ''0''" using "1.prems" sh by (cases "show_nat (n div 10)") auto
    then have "n div 10 = 0" using nat_of_digits_show [of "n div 10"]
      by (simp add: nat_of_digits_def digit_val_def)
    with False show ?thesis by simp
  qed
qed

lemma fold_digits: "foldl (\<lambda>a c. 10 * a + the (radix_val 10 c)) 0 (show_nat n) = n"
proof -
  have "foldl (\<lambda>a c. 10 * a + the (radix_val 10 c)) k s = foldl (\<lambda>a c. 10 * a + digit_val c) k s"
    if "\<forall>c \<in> set s. is_digit c" for k s
    using that by (induction s arbitrary: k) (simp_all add: radix_val_digit)
  then show ?thesis using show_nat_digits [of n] nat_of_digits_show [of n] by (simp add: nat_of_digits_def)
qed

lemma read_number_show:
  assumes "n \<le> mx" and "rest = [] \<or> \<not> is_digit (hd rest)"
    and "(case k of None \<Rightarrow> True | Some d \<Rightarrow> length (show_nat n) \<le> d)"
  shows "read_number 10 k z mx (show_nat n @ rest) = Some (n, rest)"
proof -
  have dig: "\<forall>c \<in> set (show_nat n). radix_val 10 c \<noteq> None"
    using show_nat_digits [of n] radix_10_iff by blast
  have "takeWhile (\<lambda>c. radix_val 10 c \<noteq> None) (show_nat n @ rest) = show_nat n"
    "dropWhile (\<lambda>c. radix_val 10 c \<noteq> None) (show_nat n @ rest) = rest"
    using dig assms(2) radix_10_iff [of "hd rest"]
    by (cases rest; simp add: takeWhile_append2 dropWhile_append2)+
  moreover have "\<not> (hd (show_nat n) = CHR ''0'' \<and> 1 < length (show_nat n))" using show_nat_hd [of n] by auto
  ultimately show ?thesis
    unfolding read_number_def Let_def using assms(1,3)
    by (simp add: fold_digits del: One_nat_def split: option.splits)
qed

definition show_ipv4 :: "nat \<Rightarrow> nat \<Rightarrow> nat \<Rightarrow> nat \<Rightarrow> string" where
  "show_ipv4 a b c d = show_nat a @ ''.'' @ show_nat b @ ''.'' @ show_nat c @ ''.'' @ show_nat d"

lemma length_show_octet: "n \<le> 255 \<Longrightarrow> length (show_nat n) \<le> 3"
proof -
  have small: "k < 10 \<Longrightarrow> length (show_nat k) = 1" for k by (simp add: show_nat.simps [of k])
  assume "n \<le> 255"
  then have "n div 10 div 10 < 10" by simp
  from small [OF this] have "length (show_nat (n div 10)) \<le> 2" by (simp add: show_nat.simps [of "n div 10"])
  then show ?thesis by (simp add: show_nat.simps [of n])
qed

lemma parse_show_ipv4:
  assumes "a \<le> 255" "b \<le> 255" "c \<le> 255" "d \<le> 255" and "port \<le> 65535"
  shows "parse_socket (show_ipv4 a b c d @ '':'' @ show_nat port) =
    Some \<lparr>sa_host = show_ipv4 a b c d, sa_port = of_nat port\<rparr>"
proof -
  have num: "n \<le> 255 \<Longrightarrow> \<not> is_digit x \<Longrightarrow> read_octet (show_nat n @ x # xs) = Some (n, x # xs)" for n x xs
    unfolding read_octet_def by (rule read_number_show) (simp_all add: length_show_octet)
  have dot: "\<not> is_digit (CHR ''.'')" "\<not> is_digit (CHR '':'')" by (simp_all add: is_digit_def)
  have three: "read_octets 3 = read_octets (Suc (Suc (Suc 0)))" by (simp add: numeral_3_eq_3)
  have ip: "read_ipv4 (show_ipv4 a b c d @ '':'' @ show_nat port) = Some ((), '':'' @ show_nat port)"
    using assms by (simp add: read_ipv4_def show_ipv4_def num dot read_char_def three)
  have "read_port ('':'' @ show_nat port) = Some (port, [])"
    using read_number_show [of port 65535 "[]" None True] assms(5) by (simp add: read_port_def read_char_def)
  with ip show ?thesis by (simp add: parse_socket_def socket_of_def)
qed

end
