(* ===== verification/Config_Layers.thy ===== *)
theory Config_Layers
  imports Bridge_Config Net_Addr "HOL-Library.Char_ord" "HOL-Library.List_Lexorder"
begin

section \<open>The layers of the configuration\<close>

text \<open>
  \<^verbatim>\<open>src/src/config.rs\<close> and the overlay of \<^verbatim>\<open>src/src/cli.rs\<close>: defaults, then a TOML file, then the
  environment, then the command line. The environment is the argument \<open>env\<close>, the file system
  \<open>is_file\<close> and \<open>read_file\<close>, the TOML parser (with its pivot to a JSON tree) \<open>toml\<close>, and the parsed
  command line the record \<open>cli\<close>, which clap fills. JSON objects are ordered by key, as
  \<^verbatim>\<open>serde_json::Map\<close> is without its feature \<^verbatim>\<open>preserve_order\<close>; a document that \<open>toml\<close> returns is taken to
  list its entries in that order.
\<close>

subsection \<open>Option values\<close>

definition non_empty_env :: "(string \<Rightarrow> string option) \<Rightarrow> string \<Rightarrow> string option" where
  "non_empty_env env name =
     (case map_option trim (env name) of None \<Rightarrow> None | Some v \<Rightarrow> if v = [] then None else Some v)"

definition parse_qos_value :: "string \<Rightarrow> qos option" where
  "parse_qos_value v = Option.bind (parse_uint 255 (trim v)) (\<lambda>n. qos_from_u8 (of_nat n))"

definition parse_bool_value :: "string \<Rightarrow> bool option" where
  "parse_bool_value v =
     (let w = ascii_lowercase (trim v)
      in if w \<in> {''true'', ''1'', ''yes'', ''on''} then Some True
         else if w \<in> {''false'', ''0'', ''no'', ''off''} then Some False else None)"

text \<open>\<^verbatim>\<open>if let Some(v) = new { slot = v }\<close>.\<close>

definition pick :: "'a option \<Rightarrow> 'a \<Rightarrow> 'a" where
  "pick new old = (case new of None \<Rightarrow> old | Some v \<Rightarrow> v)"

definition overlay_opt :: "'a option \<Rightarrow> 'a option \<Rightarrow> 'a option" where
  "overlay_opt value slot = (if value \<noteq> None then value else slot)"

datatype header_error = Header_without_equals | Header_name_empty

fun parse_pairs :: "string list \<Rightarrow> header_error + (string \<times> secret) list" where
  "parse_pairs [] = Inr []"
| "parse_pairs (raw # rest) =
     (let pair = trim raw
      in if pair = [] then parse_pairs rest
         else (case split_once (CHR ''='') pair of
                 None \<Rightarrow> Inl Header_without_equals
               | Some (name, value) \<Rightarrow>
                   if trim name = [] then Inl Header_name_empty
                   else (case parse_pairs rest of
                           Inl e \<Rightarrow> Inl e
                         | Inr out \<Rightarrow> Inr ((trim name, Secret (trim value)) # out))))"

datatype otlp_protocol_error = Grpc_not_built | Unknown_otlp_protocol string

definition check_otlp_protocol :: "string \<Rightarrow> otlp_protocol_error option" where
  "check_otlp_protocol v =
     (let w = ascii_lowercase (trim v)
      in if w \<in> {''http'', ''http/protobuf'', ''http-proto''} then None
         else if w = ''grpc'' then Some Grpc_not_built else Some (Unknown_otlp_protocol w))"

subsection \<open>The environment layer\<close>

definition env_addr :: "(string \<Rightarrow> string option) \<Rightarrow> string \<Rightarrow> socket_addr option" where
  "env_addr env name = Option.bind (non_empty_env env name) parse_socket"

definition env_u32 :: "(string \<Rightarrow> string option) \<Rightarrow> string \<Rightarrow> u32 option" where
  "env_u32 env name = map_option of_nat (Option.bind (non_empty_env env name) (parse_uint 4294967295))"

definition env_u16 :: "(string \<Rightarrow> string option) \<Rightarrow> string \<Rightarrow> u16 option" where
  "env_u16 env name = map_option of_nat (Option.bind (non_empty_env env name) (parse_uint 65535))"

definition env_bool :: "(string \<Rightarrow> string option) \<Rightarrow> string \<Rightarrow> bool option" where
  "env_bool env name = Option.bind (non_empty_env env name) parse_bool_value"

text \<open>A malformed header list is reported on standard error and ignored, like an empty one.\<close>

definition env_headers :: "(string \<Rightarrow> string option) \<Rightarrow> (string \<times> secret) list option" where
  "env_headers env =
     (case non_empty_env env ''MQTT_OTLP_HEADERS'' of
        None \<Rightarrow> None
      | Some v \<Rightarrow> (case parse_pairs (split_on (CHR '','') v) of
                    Inl _ \<Rightarrow> None
                  | Inr h \<Rightarrow> if h = [] then None else Some h))"

definition apply_env :: "(string \<Rightarrow> string option) \<Rightarrow> config \<Rightarrow> config" where
  "apply_env env c =
     c\<lparr>cfg_listen_addr := overlay_opt (env_addr env ''MQTT_LISTEN_ADDR'') (cfg_listen_addr c),
       cfg_admin_addr := pick (env_addr env ''MQTT_ADMIN_ADDR'') (cfg_admin_addr c),
       cfg_admin_token := overlay_opt (map_option Secret (non_empty_env env ''MQTT_ADMIN_TOKEN''))
         (cfg_admin_token c),
       cfg_tls_listen_addr := overlay_opt (env_addr env ''MQTT_TLS_LISTEN_ADDR'') (cfg_tls_listen_addr c),
       cfg_tls_cert := overlay_opt (non_empty_env env ''MQTT_TLS_CERT'') (cfg_tls_cert c),
       cfg_tls_key := overlay_opt (non_empty_env env ''MQTT_TLS_KEY'') (cfg_tls_key c),
       cfg_tls_client_ca := overlay_opt (non_empty_env env ''MQTT_TLS_CLIENT_CA'') (cfg_tls_client_ca c),
       cfg_ws_listen_addr := overlay_opt (env_addr env ''MQTT_WS_LISTEN_ADDR'') (cfg_ws_listen_addr c),
       cfg_ws_tls_listen_addr :=
         overlay_opt (env_addr env ''MQTT_WS_TLS_LISTEN_ADDR'') (cfg_ws_tls_listen_addr c),
       cfg_ws_tls_cert := overlay_opt (non_empty_env env ''MQTT_WS_TLS_CERT'') (cfg_ws_tls_cert c),
       cfg_ws_tls_key := overlay_opt (non_empty_env env ''MQTT_WS_TLS_KEY'') (cfg_ws_tls_key c),
       cfg_ws_tls_client_ca :=
         overlay_opt (non_empty_env env ''MQTT_WS_TLS_CLIENT_CA'') (cfg_ws_tls_client_ca c),
       cfg_admin_tls_cert := overlay_opt (non_empty_env env ''MQTT_ADMIN_TLS_CERT'') (cfg_admin_tls_cert c),
       cfg_admin_tls_key := overlay_opt (non_empty_env env ''MQTT_ADMIN_TLS_KEY'') (cfg_admin_tls_key c),
       cfg_admin_tls_client_ca :=
         overlay_opt (non_empty_env env ''MQTT_ADMIN_TLS_CLIENT_CA'') (cfg_admin_tls_client_ca c),
       cfg_acl_path := overlay_opt (non_empty_env env ''MQTT_ACL_FILE'') (cfg_acl_path c),
       cfg_password_file := overlay_opt (non_empty_env env ''MQTT_PASSWORD_FILE'') (cfg_password_file c),
       cfg_allow_anonymous := pick (env_bool env ''MQTT_ALLOW_ANONYMOUS'') (cfg_allow_anonymous c),
       cfg_db_path := pick (non_empty_env env ''MQTT_DB_PATH'') (cfg_db_path c),
       cfg_max_packet_size := pick (env_u32 env ''MQTT_MAX_PACKET_SIZE'') (cfg_max_packet_size c),
       cfg_receive_maximum := pick (env_u16 env ''MQTT_RECEIVE_MAXIMUM'') (cfg_receive_maximum c),
       cfg_max_session_expiry := pick (env_u32 env ''MQTT_MAX_SESSION_EXPIRY'') (cfg_max_session_expiry c),
       cfg_max_queued_messages := pick (env_u32 env ''MQTT_MAX_QUEUED_MESSAGES'') (cfg_max_queued_messages c),
       cfg_max_connections_per_ip :=
         pick (env_u32 env ''MQTT_MAX_CONNECTIONS_PER_IP'') (cfg_max_connections_per_ip c),
       cfg_connection_rate_window_secs :=
         pick (env_u32 env ''MQTT_CONNECTION_RATE_WINDOW_SECS'') (cfg_connection_rate_window_secs c),
       cfg_sys_interval := pick (env_u32 env ''MQTT_SYS_INTERVAL'') (cfg_sys_interval c),
       cfg_maximum_qos := pick (Option.bind (non_empty_env env ''MQTT_MAXIMUM_QOS'') parse_qos_value)
         (cfg_maximum_qos c),
       cfg_retain_available := pick (env_bool env ''MQTT_RETAIN_AVAILABLE'') (cfg_retain_available c),
       cfg_topic_alias_maximum := pick (env_u16 env ''MQTT_TOPIC_ALIAS_MAXIMUM'') (cfg_topic_alias_maximum c),
       cfg_server_keep_alive := overlay_opt (env_u16 env ''MQTT_SERVER_KEEP_ALIVE'') (cfg_server_keep_alive c),
       cfg_otlp_endpoint := overlay_opt (non_empty_env env ''MQTT_OTLP_ENDPOINT'') (cfg_otlp_endpoint c),
       cfg_otlp_protocol := pick (non_empty_env env ''MQTT_OTLP_PROTOCOL'') (cfg_otlp_protocol c),
       cfg_otlp_headers := pick (env_headers env) (cfg_otlp_headers c),
       cfg_otlp_interval := pick (env_u32 env ''MQTT_OTLP_INTERVAL'') (cfg_otlp_interval c),
       cfg_otlp_metrics := pick (env_bool env ''MQTT_OTLP_METRICS'') (cfg_otlp_metrics c),
       cfg_otlp_logs := pick (env_bool env ''MQTT_OTLP_LOGS'') (cfg_otlp_logs c),
       cfg_service_name := pick (non_empty_env env ''MQTT_SERVICE_NAME'') (cfg_service_name c),
       cfg_ha_discovery := pick (env_bool env ''MQTT_HA_DISCOVERY'') (cfg_ha_discovery c),
       cfg_ha_discovery_prefix :=
         pick (non_empty_env env ''MQTT_HA_DISCOVERY_PREFIX'') (cfg_ha_discovery_prefix c)\<rparr>"

definition from_env :: "(string \<Rightarrow> string option) \<Rightarrow> config" where
  "from_env env = apply_env env config_default"

subsection \<open>The command-line layer\<close>

record cli =
  cl_config :: "string option"
  cl_listen_addr :: "socket_addr option"
  cl_admin_addr :: "socket_addr option"
  cl_max_connections_per_ip :: "u32 option"
  cl_connection_rate_window_secs :: "u32 option"
  cl_tls_listen_addr :: "socket_addr option"
  cl_tls_cert :: "string option"
  cl_tls_key :: "string option"
  cl_tls_client_ca :: "string option"
  cl_ws_listen_addr :: "socket_addr option"
  cl_ws_tls_listen_addr :: "socket_addr option"
  cl_ws_tls_cert :: "string option"
  cl_ws_tls_key :: "string option"
  cl_ws_tls_client_ca :: "string option"
  cl_admin_tls_cert :: "string option"
  cl_admin_tls_key :: "string option"
  cl_admin_tls_client_ca :: "string option"
  cl_admin_token :: "string option"
  cl_password_file :: "string option"
  cl_allow_anonymous :: "bool option"
  cl_acl_file :: "string option"
  cl_hash_password :: "string option option"
  cl_db_path :: "string option"
  cl_max_packet_size :: "u32 option"
  cl_receive_maximum :: "u16 option"
  cl_max_session_expiry :: "u32 option"
  cl_max_queued_messages :: "u32 option"
  cl_sys_interval :: "u32 option"
  cl_maximum_qos :: "qos option"
  cl_retain_available :: "bool option"
  cl_topic_alias_maximum :: "u16 option"
  cl_server_keep_alive :: "u16 option"
  cl_otlp_endpoint :: "string option"
  cl_otlp_protocol :: "string option"
  cl_otlp_header :: "(string \<times> string) list"
  cl_otlp_interval :: "u32 option"
  cl_otlp_metrics :: "bool option"
  cl_otlp_logs :: "bool option"
  cl_service_name :: "string option"
  cl_ha_discovery :: "bool option"
  cl_ha_discovery_prefix :: "string option"

definition from_pairs :: "(string \<times> string) list \<Rightarrow> (string \<times> secret) list" where
  "from_pairs ps = map (\<lambda>(k, v). (k, Secret v)) ps"

definition cli_headers :: "cli \<Rightarrow> (string \<times> secret) list option" where
  "cli_headers cl = (if cl_otlp_header cl = [] then None else Some (from_pairs (cl_otlp_header cl)))"

definition cli_apply :: "cli \<Rightarrow> config \<Rightarrow> config" where
  "cli_apply cl c =
     c\<lparr>cfg_listen_addr := overlay_opt (cl_listen_addr cl) (cfg_listen_addr c),
       cfg_admin_addr := pick (cl_admin_addr cl) (cfg_admin_addr c),
       cfg_admin_token := overlay_opt (map_option Secret (cl_admin_token cl)) (cfg_admin_token c),
       cfg_tls_listen_addr := overlay_opt (cl_tls_listen_addr cl) (cfg_tls_listen_addr c),
       cfg_tls_cert := overlay_opt (cl_tls_cert cl) (cfg_tls_cert c),
       cfg_tls_key := overlay_opt (cl_tls_key cl) (cfg_tls_key c),
       cfg_tls_client_ca := overlay_opt (cl_tls_client_ca cl) (cfg_tls_client_ca c),
       cfg_ws_listen_addr := overlay_opt (cl_ws_listen_addr cl) (cfg_ws_listen_addr c),
       cfg_ws_tls_listen_addr := overlay_opt (cl_ws_tls_listen_addr cl) (cfg_ws_tls_listen_addr c),
       cfg_ws_tls_cert := overlay_opt (cl_ws_tls_cert cl) (cfg_ws_tls_cert c),
       cfg_ws_tls_key := overlay_opt (cl_ws_tls_key cl) (cfg_ws_tls_key c),
       cfg_ws_tls_client_ca := overlay_opt (cl_ws_tls_client_ca cl) (cfg_ws_tls_client_ca c),
       cfg_admin_tls_cert := overlay_opt (cl_admin_tls_cert cl) (cfg_admin_tls_cert c),
       cfg_admin_tls_key := overlay_opt (cl_admin_tls_key cl) (cfg_admin_tls_key c),
       cfg_admin_tls_client_ca := overlay_opt (cl_admin_tls_client_ca cl) (cfg_admin_tls_client_ca c),
       cfg_acl_path := overlay_opt (cl_acl_file cl) (cfg_acl_path c),
       cfg_password_file := overlay_opt (cl_password_file cl) (cfg_password_file c),
       cfg_allow_anonymous := pick (cl_allow_anonymous cl) (cfg_allow_anonymous c),
       cfg_db_path := pick (cl_db_path cl) (cfg_db_path c),
       cfg_max_packet_size := pick (cl_max_packet_size cl) (cfg_max_packet_size c),
       cfg_receive_maximum := pick (cl_receive_maximum cl) (cfg_receive_maximum c),
       cfg_max_session_expiry := pick (cl_max_session_expiry cl) (cfg_max_session_expiry c),
       cfg_max_queued_messages := pick (cl_max_queued_messages cl) (cfg_max_queued_messages c),
       cfg_max_connections_per_ip := pick (cl_max_connections_per_ip cl) (cfg_max_connections_per_ip c),
       cfg_connection_rate_window_secs :=
         pick (cl_connection_rate_window_secs cl) (cfg_connection_rate_window_secs c),
       cfg_sys_interval := pick (cl_sys_interval cl) (cfg_sys_interval c),
       cfg_maximum_qos := pick (cl_maximum_qos cl) (cfg_maximum_qos c),
       cfg_retain_available := pick (cl_retain_available cl) (cfg_retain_available c),
       cfg_topic_alias_maximum := pick (cl_topic_alias_maximum cl) (cfg_topic_alias_maximum c),
       cfg_server_keep_alive := overlay_opt (cl_server_keep_alive cl) (cfg_server_keep_alive c),
       cfg_otlp_endpoint := overlay_opt (cl_otlp_endpoint cl) (cfg_otlp_endpoint c),
       cfg_otlp_protocol := pick (cl_otlp_protocol cl) (cfg_otlp_protocol c),
       cfg_otlp_headers := pick (cli_headers cl) (cfg_otlp_headers c),
       cfg_otlp_interval := pick (cl_otlp_interval cl) (cfg_otlp_interval c),
       cfg_otlp_metrics := pick (cl_otlp_metrics cl) (cfg_otlp_metrics c),
       cfg_otlp_logs := pick (cl_otlp_logs cl) (cfg_otlp_logs c),
       cfg_service_name := pick (cl_service_name cl) (cfg_service_name c),
       cfg_ha_discovery := pick (cl_ha_discovery cl) (cfg_ha_discovery c),
       cfg_ha_discovery_prefix := pick (cl_ha_discovery_prefix cl) (cfg_ha_discovery_prefix c)\<rparr>"

text \<open>The value parsers that clap calls for flags; an error is a usage error.\<close>

definition header_flag :: "string \<Rightarrow> header_error + (string \<times> string)" where
  "header_flag v =
     (case split_once (CHR ''='') v of
        None \<Rightarrow> Inl Header_without_equals
      | Some (name, value) \<Rightarrow>
          if trim name = [] then Inl Header_name_empty else Inr (trim name, trim value))"

end
