(* ===== verification/Telemetry.thy ===== *)
theory Telemetry
  imports Exposition Config_Layers
begin

section \<open>Telemetry export\<close>

text \<open>
  \<^verbatim>\<open>src/src/otel.rs\<close>: what is set up for the export of metrics and logs, and the cache from which the
  instruments report. The OpenTelemetry SDK is a third-party crate: its builders are the arguments
  \<open>build_logs\<close> and \<open>build_metrics\<close>, which return an error as its text, and it calls the instruments' callbacks,
  each of which is one \<open>cache_value\<close>. The headers go into a \<^verbatim>\<open>HashMap\<close>. The clock counts nanoseconds. Timeouts
  and queue sizes of the SDK are left out. The build without the feature is \<open>install_off\<close>.
\<close>

definition signal_url :: "string \<Rightarrow> string \<Rightarrow> string" where
  "signal_url base path = rev (dropWhile (\<lambda>c. c = CHR ''/'') (rev base)) @ ''/'' @ path"

definition EXPORTER_TARGETS :: "string list" where
  "EXPORTER_TARGETS =
     [''opentelemetry'', ''opentelemetry_sdk'', ''opentelemetry_otlp'', ''reqwest'', ''hyper'', ''hyper_util'',
      ''h2'', ''rustls'', ''tower'']"

definition is_exporter_target :: "string \<Rightarrow> bool" where
  "is_exporter_target target =
     list_ex (\<lambda>t. case strip_prefix target t of
                    None \<Rightarrow> False
                  | Some rest \<Rightarrow> rest = [] \<or> starts_with rest ''::'')
       EXPORTER_TARGETS"

text \<open>A pipeline is where it sends to, with which headers, as which service.\<close>

record pipeline =
  pl_url :: string
  pl_headers :: "(string, string) hashmap"
  pl_service_name :: string
  pl_service_version :: string

record instrument =
  in_name :: string
  in_help :: string
  in_kind :: series_kind
  in_index :: nat

record telemetry =
  te_endpoint :: "string option"
  te_headers :: "(string \<times> string) list"
  te_interval :: nat
  te_want_metrics :: bool
  te_logs :: "pipeline option"
  te_meters :: "pipeline option"
  te_instruments :: "instrument list"

definition telemetry_default :: telemetry where
  "telemetry_default =
     \<lparr>te_endpoint = None, te_headers = [], te_interval = 0, te_want_metrics = False, te_logs = None,
      te_meters = None, te_instruments = []\<rparr>"

text \<open>\<^verbatim>\<open>report\<close> logs what is exported, if anything is; \<^verbatim>\<open>shutdown\<close> flushes the metrics and then the logs, and warns
  of each that fails (\<open>flush\<close> is the provider's own \<^verbatim>\<open>shutdown\<close>).\<close>

definition show_flag :: "bool \<Rightarrow> string" where
  "show_flag x = (if x then ''true'' else ''false'')"

definition telemetry_report :: "telemetry \<Rightarrow> string option" where
  "telemetry_report tel =
     map_option (\<lambda>endpoint.
       ''exporting telemetry to '' @ endpoint @ '' over OTLP/HTTP every '' @ show_nat (te_interval tel) @ ''s (metrics: ''
       @ show_flag (te_meters tel \<noteq> None) @ '', logs: '' @ show_flag (te_logs tel \<noteq> None) @ '')'') (te_endpoint tel)"

definition flush_pipeline :: "(pipeline \<Rightarrow> string option) \<Rightarrow> string \<Rightarrow> pipeline option \<Rightarrow> string list" where
  "flush_pipeline flush kind p =
     (case p of
        None \<Rightarrow> []
      | Some pl \<Rightarrow> (case flush pl of None \<Rightarrow> [] | Some e \<Rightarrow> [''otlp '' @ kind @ '' pipeline shutdown: '' @ e]))"

definition telemetry_shutdown :: "(pipeline \<Rightarrow> string option) \<Rightarrow> telemetry \<Rightarrow> string list" where
  "telemetry_shutdown flush tel =
     flush_pipeline flush ''metric'' (te_meters tel) @ flush_pipeline flush ''log'' (te_logs tel)"

lemma telemetry_off_silent:
  "telemetry_report telemetry_default = None" "telemetry_shutdown flush telemetry_default = []"
  by (simp_all add: telemetry_report_def telemetry_shutdown_def flush_pipeline_def telemetry_default_def)

definition header_map :: "(string \<times> string) list \<Rightarrow> (string, string) hashmap" where
  "header_map headers = foldl (\<lambda>m (k, v). hm_insert k v m) [] headers"

definition pipeline_to :: "string \<Rightarrow> string \<Rightarrow> telemetry \<Rightarrow> string \<Rightarrow> config \<Rightarrow> pipeline" where
  "pipeline_to endpoint path tel version cfg =
     \<lparr>pl_url = signal_url endpoint path, pl_headers = header_map (te_headers tel),
      pl_service_name = cfg_service_name cfg, pl_service_version = version\<rparr>"

text \<open>The configuration errors of the two halves.\<close>

datatype telemetry_error =
    Bad_otlp_protocol otlp_protocol_error
  | Otlp_log_exporter string
  | Otlp_metric_exporter string

text \<open>The layer that \<^verbatim>\<open>main\<close> composes is represented by the filter on the targets of its records.\<close>

definition install ::
    "(pipeline \<Rightarrow> string option) \<Rightarrow> string \<Rightarrow> config \<Rightarrow> telemetry_error + (string \<Rightarrow> bool) option \<times> telemetry" where
  "install build_logs version cfg =
     (case cfg_otlp_endpoint cfg of
        None \<Rightarrow> Inr (None, telemetry_default)
      | Some endpoint \<Rightarrow>
          (case check_otlp_protocol (cfg_otlp_protocol cfg) of
             Some e \<Rightarrow> Inl (Bad_otlp_protocol e)
           | None \<Rightarrow>
               let tel = telemetry_default
                     \<lparr>te_endpoint := Some endpoint,
                      te_headers := map (\<lambda>(k, v). (k, expose v)) (cfg_otlp_headers cfg),
                      te_interval := max (unat (cfg_otlp_interval cfg)) 1,
                      te_want_metrics := cfg_otlp_metrics cfg\<rparr>
               in if \<not> cfg_otlp_logs cfg then Inr (None, tel)
                  else
                    let pl = pipeline_to endpoint ''v1/logs'' tel version cfg
                    in (case build_logs pl of
                          Some e \<Rightarrow> Inl (Otlp_log_exporter e)
                        | None \<Rightarrow> Inr (Some (\<lambda>target. \<not> is_exporter_target target), tel\<lparr>te_logs := Some pl\<rparr>))))"

definition install_off :: "config \<Rightarrow> telemetry_error + bool" where
  "install_off cfg =
     (case cfg_otlp_endpoint cfg of
        None \<Rightarrow> Inr False
      | Some _ \<Rightarrow>
          (case check_otlp_protocol (cfg_otlp_protocol cfg) of
             Some e \<Rightarrow> Inl (Bad_otlp_protocol e)
           | None \<Rightarrow> Inr True))"

subsection \<open>The snapshot cache\<close>

record snapshot_cache =
  sc_max_age :: nat
  sc_values :: "u64 list"
  sc_taken :: nat

definition cache_read :: "u64 \<Rightarrow> u64 \<Rightarrow> string \<Rightarrow> broker \<Rightarrow> u64 list \<times> broker" where
  "cache_read now uptime version b =
     (let (s, b') = broker_snapshot now uptime version b in (map sr_value (snapshot_series s), b'))"

definition cache_new :: "nat \<Rightarrow> u64 \<Rightarrow> u64 \<Rightarrow> string \<Rightarrow> nat \<Rightarrow> broker \<Rightarrow> snapshot_cache \<times> broker" where
  "cache_new clock now uptime version interval b =
     (let (values, b') = cache_read now uptime version b
      in (\<lparr>sc_max_age = interval * 10 ^ 9 div 2, sc_values = values, sc_taken = clock\<rparr>, b'))"

definition cache_value ::
    "nat \<Rightarrow> u64 \<Rightarrow> u64 \<Rightarrow> string \<Rightarrow> nat \<Rightarrow> snapshot_cache \<times> broker \<Rightarrow> u64 \<times> snapshot_cache \<times> broker" where
  "cache_value clock now uptime version index cb =
     (let (c, b) = cb;
          (c1, b1) =
            (if sc_max_age c \<le> clock - sc_taken c then
               (let (values, b') = cache_read now uptime version b
                in (c\<lparr>sc_values := values, sc_taken := clock\<rparr>, b'))
             else (c, b))
      in (if index < length (sc_values c1) then sc_values c1 ! index else 0, c1, b1))"

definition install_metrics ::
    "(pipeline \<Rightarrow> string option) \<Rightarrow> nat \<Rightarrow> u64 \<Rightarrow> u64 \<Rightarrow> string \<Rightarrow> config \<Rightarrow> telemetry \<Rightarrow> broker \<Rightarrow>
     (telemetry_error + telemetry \<times> snapshot_cache option) \<times> broker" where
  "install_metrics build_metrics clock now uptime version cfg tel b =
     (case te_endpoint tel of
        None \<Rightarrow> (Inr (tel, None), b)
      | Some endpoint \<Rightarrow>
          if \<not> te_want_metrics tel then (Inr (tel, None), b)
          else
            let pl = pipeline_to endpoint ''v1/metrics'' tel version cfg
            in (case build_metrics pl of
                  Some e \<Rightarrow> (Inl (Otlp_metric_exporter e), b)
                | None \<Rightarrow>
                    let (cache, b1) = cache_new clock now uptime version (te_interval tel) b;
                        (s, b2) = broker_snapshot now uptime version b1;
                        instruments = map (\<lambda>(index, x).
                            \<lparr>in_name = otel_name x, in_help = sr_help x, in_kind = sr_kind x, in_index = index\<rparr>)
                          (zip [0..<length (snapshot_series s)] (snapshot_series s))
                    in (Inr (tel\<lparr>te_instruments := te_instruments tel @ instruments, te_meters := Some pl\<rparr>, Some cache), b2)))"

subsection \<open>One collection\<close>

text \<open>The callbacks of a collection: each reads the clocks and reports the value at its index.\<close>

record reading_time =
  rt_clock :: nat
  rt_now :: u64
  rt_uptime :: u64

fun collect_values ::
    "string \<Rightarrow> (reading_time \<times> nat) list \<Rightarrow> snapshot_cache \<times> broker \<Rightarrow> u64 list \<times> snapshot_cache \<times> broker" where
  "collect_values version [] cb = ([], cb)"
| "collect_values version ((t, i) # ts) cb =
     (let (v, cb1) = cache_value (rt_clock t) (rt_now t) (rt_uptime t) version i cb;
          (vs, cb2) = collect_values version ts cb1
      in (v # vs, cb2))"

lemma series_count: "length (snapshot_series s) = length (snapshot_series s')"
  using arg_cong [OF series_labels [of s], of length] arg_cong [OF series_labels [of s'], of length] by simp

lemma series_labels_names: "map otel_name (snapshot_series s) = map otel_name (snapshot_series s')"
proof -
  have "otel_name x = (\<lambda>(n, k, h). case k of Counter \<Rightarrow> (case strip_suffix n ''_total'' of Some m \<Rightarrow> m | None \<Rightarrow> n)
      | Gauge \<Rightarrow> n) (series_label x)" for x
    by (simp add: otel_name_def series_label_def)
  then show ?thesis using series_labels [of s s'] by (metis (no_types, lifting) map_eq_conv map_map comp_def)
qed

text \<open>While the cache is fresh, it answers.\<close>

lemma collect_fresh:
  assumes "list_all (\<lambda>(t, i). rt_clock t - sc_taken c < sc_max_age c \<and> i < length (sc_values c)) ts"
  shows "collect_values version ts (c, b) = (map (\<lambda>(t, i). sc_values c ! i) ts, c, b)"
  using assms
proof (induction ts)
  case (Cons x ts)
  obtain t i where x: "x = (t, i)" by force
  from Cons show ?case by (simp add: x cache_value_def)
qed simp

text \<open>A stale cache is filled with a snapshot taken at the reading.\<close>

lemma cache_value_stale:
  assumes "sc_max_age c \<le> clock - sc_taken c"
  shows "cache_value clock now uptime version i (c, b) =
    (let vs = map sr_value (snapshot_series (fst (broker_snapshot now uptime version b)))
     in (if i < length vs then vs ! i else 0, c\<lparr>sc_values := vs, sc_taken := clock\<rparr>,
         snd (broker_snapshot now uptime version b)))"
  using assms by (simp add: cache_value_def cache_read_def Let_def case_prod_beta)

lemma installed_instruments:
  assumes "install_metrics build clock now uptime version cfg tel b = (Inr (tel', Some c), b')"
    and "te_instruments tel = []"
  shows "map in_name (te_instruments tel') = map otel_name (snapshot_series s)
    \<and> map in_index (te_instruments tel') = [0..<length (snapshot_series s)]
    \<and> sc_max_age c = te_interval tel * 10 ^ 9 div 2"
proof -
  from assms obtain s' where i: "te_instruments tel' = map (\<lambda>(index, x).
        \<lparr>in_name = otel_name x, in_help = sr_help x, in_kind = sr_kind x, in_index = index\<rparr>)
      (zip [0..<length (snapshot_series s')] (snapshot_series s'))"
    and age: "sc_max_age c = te_interval tel * 10 ^ 9 div 2"
    by (auto simp: install_metrics_def cache_new_def Let_def case_prod_beta split: option.splits if_splits)
  have "map in_name (te_instruments tel') = map otel_name (snapshot_series s')"
    unfolding i by (auto intro!: nth_equalityI)
  moreover have "map in_index (te_instruments tel') = [0..<length (snapshot_series s')]"
    unfolding i by (simp add: comp_def case_prod_beta)
  ultimately show ?thesis using age series_labels_names [of s' s] series_count [of s' s] by simp
qed

text \<open>
  One export, one instant: when a collection starts on a cache that is older than half the export
  interval and its callbacks run within half an interval, then all instruments report the values of one
  and the same snapshot, the one taken at the first callback, each the value of the series whose name it
  carries; and the broker is read once, not once per instrument.
\<close>

lemma one_snapshot_per_collection:
  assumes "install_metrics build clock now uptime version cfg tel b0 = (Inr (tel', Some c0), b1)"
    and "te_instruments tel = []" and "sc_max_age c = sc_max_age c0"
    and "te_interval tel * 10 ^ 9 div 2 \<le> rt_clock t - sc_taken c"
    and "list_all (\<lambda>u. rt_clock u - rt_clock t < te_interval tel * 10 ^ 9 div 2) ts"
    and "length (t # ts) = length (te_instruments tel')"
    and "s = fst (broker_snapshot (rt_now t) (rt_uptime t) version b)"
  shows "collect_values version (zip (t # ts) (map in_index (te_instruments tel'))) (c, b) =
      (map sr_value (snapshot_series s),
       c\<lparr>sc_values := map sr_value (snapshot_series s), sc_taken := rt_clock t\<rparr>,
       snd (broker_snapshot (rt_now t) (rt_uptime t) version b))
    \<and> map in_name (te_instruments tel') = map otel_name (snapshot_series s)"
proof -
  define vs where "vs = map sr_value (snapshot_series s)"
  let ?c = "c\<lparr>sc_values := vs, sc_taken := rt_clock t\<rparr>" and ?b = "snd (broker_snapshot (rt_now t) (rt_uptime t) version b)"
  from installed_instruments [OF assms(1,2), of s] assms(3)
  have names: "map in_name (te_instruments tel') = map otel_name (snapshot_series s)"
    and index: "map in_index (te_instruments tel') = [0..<length vs]"
    and age: "sc_max_age c = te_interval tel * 10 ^ 9 div 2" by (simp_all add: vs_def)
  from arg_cong [OF index, of length] assms(6) have len: "length vs = Suc (length ts)" by simp
  then have up: "[0..<length vs] = 0 # [1..<length vs]" by (simp only: upt_conv_Cons One_nat_def zero_less_Suc)
  have "sc_max_age c \<le> rt_clock t - sc_taken c" using assms(4) age by simp
  from cache_value_stale [OF this]
  have first: "cache_value (rt_clock t) (rt_now t) (rt_uptime t) version 0 (c, b) = (vs ! 0, ?c, ?b)"
    using len by (simp only: Let_def vs_def assms(7) zero_less_Suc if_True)
  have fresh: "collect_values version (zip ts [1..<length vs]) (?c, ?b) = (map (\<lambda>(t, i). vs ! i) (zip ts [1..<length vs]), ?c, ?b)"
    using assms(5) by (subst collect_fresh) (auto simp: list_all_iff age set_zip)
  have rest: "map (\<lambda>(t, i). vs ! i) (zip ts [1..<length vs]) = tl vs"
    by (rule nth_equalityI) (simp_all add: nth_tl len del: upt_Suc)
  have "vs ! 0 # tl vs = vs" using len by (cases vs) simp_all
  then have "collect_values version (zip (t # ts) [0..<length vs]) (c, b) = (vs, ?c, ?b)"
    unfolding up zip_Cons_Cons collect_values.simps by (simp only: first fresh rest Let_def prod.case)
  with names show ?thesis by (simp only: index vs_def)
qed

definition demo_telemetry :: telemetry where
  "demo_telemetry = telemetry_default\<lparr>te_endpoint := Some ''http://c:4318'', te_interval := 60, te_want_metrics := True\<rparr>"

text \<open>The callbacks of a collection a minute after the start, all in the same instant.\<close>

text \<open>Log records of the exporter's own modules, and only these, stay out of the export: the target names
  one of them, or a module below one.\<close>

lemma is_exporter_target_iff:
  "is_exporter_target target \<longleftrightarrow> (\<exists>t \<in> set EXPORTER_TARGETS. target = t \<or> (\<exists>path. target = t @ ''::'' @ path))"
proof -
  have "(case strip_prefix target t of None \<Rightarrow> False | Some rest \<Rightarrow> rest = [] \<or> starts_with rest ''::'')
      \<longleftrightarrow> target = t \<or> (\<exists>path. target = t @ ''::'' @ path)" for t
    by (auto simp: strip_prefix_def starts_with_iff)
  then show ?thesis unfolding is_exporter_target_def list_ex_iff by blast
qed

text \<open>Both builds reject the same configurations.\<close>

lemma install_off_agrees:
  "install_off cfg = Inl e \<Longrightarrow> install build version cfg = Inl e"
  by (auto simp: install_off_def install_def split: option.splits)

end
