(* ===== verification/Config_File.thy ===== *)
theory Config_File
  imports Config_Layers
begin

section \<open>The configuration file and the whole pipeline\<close>

text \<open>
  The TOML layer of \<^verbatim>\<open>src/src/config.rs\<close> and \<^verbatim>\<open>Config::from_cli\<close>. Options are read in the order of the
  source, so that the first faulty one decides the error; a fault ends the pipeline, which then
  discards the configuration built so far. Error constructors stand for the messages of the source;
  \<open>Unreachable_hit\<close> stands for the panic of its \<^verbatim>\<open>unreachable!\<close>.
\<close>

datatype config_failure =
    Config_unreadable string string
  | Config_not_toml string string
  | Section_not_table string
  | Key_set_twice string
  | Unreachable_hit string
  | Top_level_not_table
  | Unknown_option string
  | Wrong_type string
  | Out_of_range string
  | Invalid_address string string
  | Bad_maximum_qos
  | Headers_not_table
  | Header_value_not_string string
  | Bad_otlp_header header_error
  | Bad_bridge bridge_error
  | Cross_check config_error

definition KNOWN_KEYS :: "string list" where
  "KNOWN_KEYS =
     [''listen_addr'', ''admin_addr'', ''admin_token'', ''tls_listen_addr'', ''tls_cert'', ''tls_key'',
      ''tls_client_ca'', ''ws_listen_addr'', ''ws_tls_listen_addr'', ''ws_tls_cert'', ''ws_tls_key'',
      ''ws_tls_client_ca'', ''admin_tls_cert'', ''admin_tls_key'', ''admin_tls_client_ca'', ''acl_path'',
      ''password_file'', ''allow_anonymous'', ''db_path'', ''max_packet_size'', ''receive_maximum'',
      ''max_session_expiry'', ''max_queued_messages'', ''max_connections_per_ip'',
      ''connection_rate_window_secs'', ''sys_interval'', ''maximum_qos'', ''retain_available'',
      ''topic_alias_maximum'', ''server_keep_alive'', ''bridges'', ''otlp_endpoint'', ''otlp_protocol'',
      ''otlp_headers'', ''otlp_interval'', ''otlp_metrics'', ''otlp_logs'', ''service_name'',
      ''ha_discovery'', ''ha_discovery_prefix'']"

definition SECTION_NAMES :: "string list" where
  "SECTION_NAMES =
     [''network'', ''mqtt_tls'', ''websockets'', ''admin'', ''auth'', ''storage'', ''protocol'', ''otlp'',
      ''home_assistant'']"

definition DEFAULT_CONFIG_FILES :: "string list" where
  "DEFAULT_CONFIG_FILES = [''wispmq.toml'']"

subsection \<open>Sections\<close>

text \<open>Insertion into a map that is kept ordered by key.\<close>

fun bt_insert :: "string \<Rightarrow> 'v \<Rightarrow> (string \<times> 'v) list \<Rightarrow> (string \<times> 'v) list" where
  "bt_insert k v [] = [(k, v)]"
| "bt_insert k v ((j, w) # m) =
     (if k = j then (k, v) # m else if k < j then (k, v) # (j, w) # m else (j, w) # bt_insert k v m)"

fun flatten_section ::
    "(string \<times> json) list \<Rightarrow> (string \<times> json) list \<Rightarrow> config_failure + (string \<times> json) list" where
  "flatten_section [] flat = Inr flat"
| "flatten_section ((k, v) # kvs) flat =
     (if hm_get k flat \<noteq> None then Inl (Key_set_twice k) else flatten_section kvs (bt_insert k v flat))"

fun flatten_entries ::
    "(string \<times> json) list \<Rightarrow> (string \<times> json) list \<Rightarrow> config_failure + (string \<times> json) list" where
  "flatten_entries [] flat = Inr flat"
| "flatten_entries ((key, value) # rest) flat =
     (if key \<in> set SECTION_NAMES then
        (case json_as_object value of
           None \<Rightarrow> Inl (Section_not_table key)
         | Some kvs \<Rightarrow> (case flatten_section kvs flat of
                         Inl e \<Rightarrow> Inl e
                       | Inr flat' \<Rightarrow> flatten_entries rest flat'))
      else if hm_get key flat \<noteq> None then Inl (Unreachable_hit key)
      else flatten_entries rest (bt_insert key value flat))"

definition flatten_sections :: "json \<Rightarrow> config_failure + json" where
  "flatten_sections doc =
     (case json_as_object doc of
        None \<Rightarrow> Inr doc
      | Some m \<Rightarrow> (case flatten_entries m [] of Inl e \<Rightarrow> Inl e | Inr flat \<Rightarrow> Inr (JObject flat)))"

text \<open>The reference: a section stands for the entries of its table, and the document for all of them.\<close>

definition entries_of :: "string \<times> json \<Rightarrow> (string \<times> json) list" where
  "entries_of kv =
     (if fst kv \<in> set SECTION_NAMES then (case json_as_object (snd kv) of None \<Rightarrow> [] | Some kvs \<Rightarrow> kvs)
      else [kv])"

definition sections_are_tables :: "(string \<times> json) list \<Rightarrow> bool" where
  "sections_are_tables m \<longleftrightarrow>
     list_all (\<lambda>kv. fst kv \<notin> set SECTION_NAMES \<or> json_as_object (snd kv) \<noteq> None) m"

lemma hm_get_bt_insert [simp]: "hm_get j (bt_insert k v m) = (if j = k then Some v else hm_get j m)"
  by (induction k v m rule: bt_insert.induct) (auto simp: hm_get_Cons)

lemma flatten_section_append:
  "flatten_section (xs @ ys) flat =
     (case flatten_section xs flat of Inl e \<Rightarrow> Inl e | Inr flat' \<Rightarrow> flatten_section ys flat')"
  by (induction xs flat rule: flatten_section.induct) simp_all

lemma flatten_section_defined:
  "(\<exists>flat'. flatten_section kvs flat = Inr flat') \<longleftrightarrow>
     distinct (map fst kvs) \<and> (\<forall>k\<in>fst ` set kvs. hm_get k flat = None)"
  by (induction kvs flat rule: flatten_section.induct) auto

lemma flatten_section_get:
  "flatten_section kvs flat = Inr flat' \<Longrightarrow>
     hm_get k flat' = (case map_of kvs k of None \<Rightarrow> hm_get k flat | Some v \<Rightarrow> Some v)"
proof (induction kvs flat rule: flatten_section.induct)
  case (2 j v kvs flat)
  then have "j \<notin> fst ` set kvs"
    using flatten_section_defined [of kvs "bt_insert j v flat"] by (auto split: if_splits)
  then have "map_of kvs j = None" by (simp add: map_of_eq_None_iff)
  with 2 show ?case by (auto split: if_splits option.splits)
qed simp

lemma flatten_entries_Inr:
  "flatten_entries m flat = Inr flat' \<longleftrightarrow>
     sections_are_tables m \<and> flatten_section (concat (map entries_of m)) flat = Inr flat'"
  by (induction m flat rule: flatten_entries.induct)
    (auto simp: sections_are_tables_def entries_of_def flatten_section_append split: option.splits sum.splits)

text \<open>
  Flattening succeeds exactly on the documents in which every section is a table and no key is set twice,
  bare or in any section, and then looks up every key as the document sets it.
\<close>

lemma flatten_sections_exact:
  "(\<exists>flat. flatten_sections (JObject m) = Inr (JObject flat)) \<longleftrightarrow>
     sections_are_tables m \<and> distinct (map fst (concat (map entries_of m)))"
  "flatten_sections (JObject m) = Inr doc \<Longrightarrow>
     json_idx doc k = (case map_of (concat (map entries_of m)) k of None \<Rightarrow> JNull | Some v \<Rightarrow> v)"
proof -
  have "flatten_sections (JObject m) = Inr (JObject flat) \<longleftrightarrow> flatten_entries m [] = Inr flat" for flat
    by (simp add: flatten_sections_def split: sum.splits)
  then show "(\<exists>flat. flatten_sections (JObject m) = Inr (JObject flat)) \<longleftrightarrow>
      sections_are_tables m \<and> distinct (map fst (concat (map entries_of m)))"
    using flatten_section_defined [of "concat (map entries_of m)" "[]"] by (auto simp: flatten_entries_Inr)
  show "json_idx doc k = (case map_of (concat (map entries_of m)) k of None \<Rightarrow> JNull | Some v \<Rightarrow> v)"
    if "flatten_sections (JObject m) = Inr doc"
  proof -
    from that obtain flat where "flatten_entries m [] = Inr flat" "doc = JObject flat"
      by (auto simp: flatten_sections_def split: sum.splits)
    with flatten_section_get [of "concat (map entries_of m)" "[]" flat k] show ?thesis
      by (auto simp: flatten_entries_Inr json_idx_def split: option.splits)
  qed
qed

text \<open>
  A key that is set bare and in a section is not always reported: when the bare key comes after the
  section's name in the order of the map, the \<^verbatim>\<open>unreachable!\<close> of the source is reached.
\<close>

lemma flatten_sections_panics:
  "flatten_sections (JObject [(''admin'', JObject [(''admin_addr'', JString a)]), (''admin_addr'', JString b)])
     = Inl (Unreachable_hit ''admin_addr'')
   \<and> flatten_sections (JObject [(''db_path'', JString b), (''storage'', JObject [(''db_path'', JString a)])])
     = Inl (Key_set_twice ''db_path'')"
  by (simp add: flatten_sections_def SECTION_NAMES_def hm_get_Cons)

subsection \<open>Typed access\<close>

definition j_str :: "json \<Rightarrow> string \<Rightarrow> config_failure + string option" where
  "j_str doc key =
     (let v = json_idx doc key
      in if v = JNull then Inr None
         else (case json_as_str v of
                 Some s \<Rightarrow> if trim s = [] then Inr None else Inr (Some (trim s))
               | None \<Rightarrow> Inl (Wrong_type key)))"

definition j_i64 :: "json \<Rightarrow> string \<Rightarrow> config_failure + int option" where
  "j_i64 doc key =
     (let v = json_idx doc key
      in if v = JNull then Inr None
         else (case json_as_i64 v of Some n \<Rightarrow> Inr (Some n) | None \<Rightarrow> Inl (Wrong_type key)))"

definition j_bool :: "json \<Rightarrow> string \<Rightarrow> config_failure + bool option" where
  "j_bool doc key =
     (let v = json_idx doc key
      in if v = JNull then Inr None
         else (case json_as_bool v of Some b \<Rightarrow> Inr (Some b) | None \<Rightarrow> Inl (Wrong_type key)))"

definition j_uint :: "int \<Rightarrow> json \<Rightarrow> string \<Rightarrow> config_failure + int option" where
  "j_uint mx doc key =
     (case j_i64 doc key of
        Inl e \<Rightarrow> Inl e
      | Inr None \<Rightarrow> Inr None
      | Inr (Some n) \<Rightarrow> if n < 0 \<or> mx < n then Inl (Out_of_range key) else Inr (Some n))"

definition j_u32 :: "json \<Rightarrow> string \<Rightarrow> config_failure + u32 option" where
  "j_u32 doc key =
     (case j_uint 4294967295 doc key of Inl e \<Rightarrow> Inl e | Inr n \<Rightarrow> Inr (map_option word_of_int n))"

definition j_u16 :: "json \<Rightarrow> string \<Rightarrow> config_failure + u16 option" where
  "j_u16 doc key =
     (case j_uint 65535 doc key of Inl e \<Rightarrow> Inl e | Inr n \<Rightarrow> Inr (map_option word_of_int n))"

definition parse_addr :: "string \<Rightarrow> string \<Rightarrow> config_failure + socket_addr" where
  "parse_addr v flag =
     (case parse_socket v of None \<Rightarrow> Inl (Invalid_address flag v) | Some a \<Rightarrow> Inr a)"

definition j_addr :: "json \<Rightarrow> string \<Rightarrow> config_failure + socket_addr option" where
  "j_addr doc key =
     (case j_str doc key of
        Inl e \<Rightarrow> Inl e
      | Inr None \<Rightarrow> Inr None
      | Inr (Some v) \<Rightarrow> (case parse_addr v key of Inl e \<Rightarrow> Inl e | Inr a \<Rightarrow> Inr (Some a)))"

definition j_qos :: "json \<Rightarrow> string \<Rightarrow> config_failure + qos option" where
  "j_qos doc key =
     (case j_i64 doc key of
        Inl e \<Rightarrow> Inl e
      | Inr None \<Rightarrow> Inr None
      | Inr (Some n) \<Rightarrow>
          (case (if 0 \<le> n \<and> n \<le> 255 then qos_from_u8 (word_of_int n) else None) of
             None \<Rightarrow> Inl Bad_maximum_qos
           | Some q \<Rightarrow> Inr (Some q)))"

fun header_pairs :: "(string \<times> json) list \<Rightarrow> config_failure + string list" where
  "header_pairs [] = Inr []"
| "header_pairs ((name, value) # rest) =
     (case json_as_str value of
        None \<Rightarrow> Inl (Header_value_not_string name)
      | Some v \<Rightarrow> (case header_pairs rest of
                    Inl e \<Rightarrow> Inl e
                  | Inr out \<Rightarrow> Inr ((name @ ''='' @ v) # out)))"

definition j_headers :: "json \<Rightarrow> config_failure + (string \<times> secret) list option" where
  "j_headers doc =
     (let headers = json_idx doc ''otlp_headers''
      in if headers = JNull then Inr None
         else (case json_as_object headers of
                 None \<Rightarrow> Inl Headers_not_table
               | Some m \<Rightarrow>
                   (case header_pairs m of
                      Inl e \<Rightarrow> Inl e
                    | Inr pairs \<Rightarrow> (case parse_pairs pairs of
                                     Inl e \<Rightarrow> Inl (Bad_otlp_header e)
                                   | Inr h \<Rightarrow> Inr (Some h)))))"

definition j_bridges :: "protocol \<Rightarrow> json \<Rightarrow> config_failure + bridge_config list option" where
  "j_bridges P doc =
     (case parse_bridges P doc of
        Inl e \<Rightarrow> Inl (Bad_bridge e)
      | Inr bs \<Rightarrow> Inr (if bs = [] then None else Some bs))"

subsection \<open>The file layer\<close>

text \<open>One option of the file: read it, and overlay its field, which an absent option leaves as it is.\<close>

definition opt :: "('e + 'a option) \<Rightarrow> ('a option \<Rightarrow> 'c \<Rightarrow> 'c) \<Rightarrow> 'c \<Rightarrow> 'e + 'c" where
  "opt r upd c = (case r of Inl e \<Rightarrow> Inl e | Inr v \<Rightarrow> Inr (upd v c))"

fun chain :: "('c \<Rightarrow> 'e + 'c) list \<Rightarrow> 'c \<Rightarrow> 'e + 'c" where
  "chain [] c = Inr c"
| "chain (f # fs) c = (case f c of Inl e \<Rightarrow> Inl e | Inr c' \<Rightarrow> chain fs c')"

definition file_options :: "protocol \<Rightarrow> json \<Rightarrow> (config \<Rightarrow> config_failure + config) list" where
  "file_options P doc =
     [opt (j_addr doc ''listen_addr'')
        (\<lambda>v c. c\<lparr>cfg_listen_addr := overlay_opt v (cfg_listen_addr c)\<rparr>),
      opt (j_addr doc ''admin_addr'')
        (\<lambda>v c. c\<lparr>cfg_admin_addr := pick v (cfg_admin_addr c)\<rparr>),
      opt (j_addr doc ''ws_listen_addr'')
        (\<lambda>v c. c\<lparr>cfg_ws_listen_addr := overlay_opt v (cfg_ws_listen_addr c)\<rparr>),
      opt (j_addr doc ''tls_listen_addr'')
        (\<lambda>v c. c\<lparr>cfg_tls_listen_addr := overlay_opt v (cfg_tls_listen_addr c)\<rparr>),
      opt (j_addr doc ''ws_tls_listen_addr'')
        (\<lambda>v c. c\<lparr>cfg_ws_tls_listen_addr := overlay_opt v (cfg_ws_tls_listen_addr c)\<rparr>),
      opt (j_str doc ''admin_token'')
        (\<lambda>v c. c\<lparr>cfg_admin_token := overlay_opt (map_option Secret v) (cfg_admin_token c)\<rparr>),
      opt (j_str doc ''tls_cert'')
        (\<lambda>v c. c\<lparr>cfg_tls_cert := overlay_opt v (cfg_tls_cert c)\<rparr>),
      opt (j_str doc ''tls_key'')
        (\<lambda>v c. c\<lparr>cfg_tls_key := overlay_opt v (cfg_tls_key c)\<rparr>),
      opt (j_str doc ''tls_client_ca'')
        (\<lambda>v c. c\<lparr>cfg_tls_client_ca := overlay_opt v (cfg_tls_client_ca c)\<rparr>),
      opt (j_str doc ''ws_tls_cert'')
        (\<lambda>v c. c\<lparr>cfg_ws_tls_cert := overlay_opt v (cfg_ws_tls_cert c)\<rparr>),
      opt (j_str doc ''ws_tls_key'')
        (\<lambda>v c. c\<lparr>cfg_ws_tls_key := overlay_opt v (cfg_ws_tls_key c)\<rparr>),
      opt (j_str doc ''ws_tls_client_ca'')
        (\<lambda>v c. c\<lparr>cfg_ws_tls_client_ca := overlay_opt v (cfg_ws_tls_client_ca c)\<rparr>),
      opt (j_str doc ''admin_tls_cert'')
        (\<lambda>v c. c\<lparr>cfg_admin_tls_cert := overlay_opt v (cfg_admin_tls_cert c)\<rparr>),
      opt (j_str doc ''admin_tls_key'')
        (\<lambda>v c. c\<lparr>cfg_admin_tls_key := overlay_opt v (cfg_admin_tls_key c)\<rparr>),
      opt (j_str doc ''admin_tls_client_ca'')
        (\<lambda>v c. c\<lparr>cfg_admin_tls_client_ca := overlay_opt v (cfg_admin_tls_client_ca c)\<rparr>),
      opt (j_str doc ''acl_path'')
        (\<lambda>v c. c\<lparr>cfg_acl_path := overlay_opt v (cfg_acl_path c)\<rparr>),
      opt (j_str doc ''password_file'')
        (\<lambda>v c. c\<lparr>cfg_password_file := overlay_opt v (cfg_password_file c)\<rparr>),
      opt (j_bool doc ''allow_anonymous'')
        (\<lambda>v c. c\<lparr>cfg_allow_anonymous := pick v (cfg_allow_anonymous c)\<rparr>),
      opt (j_str doc ''db_path'') (\<lambda>v c. c\<lparr>cfg_db_path := pick v (cfg_db_path c)\<rparr>),
      opt (j_u32 doc ''max_packet_size'')
        (\<lambda>v c. c\<lparr>cfg_max_packet_size := pick v (cfg_max_packet_size c)\<rparr>),
      opt (j_u32 doc ''max_session_expiry'')
        (\<lambda>v c. c\<lparr>cfg_max_session_expiry := pick v (cfg_max_session_expiry c)\<rparr>),
      opt (j_u32 doc ''max_queued_messages'')
        (\<lambda>v c. c\<lparr>cfg_max_queued_messages := pick v (cfg_max_queued_messages c)\<rparr>),
      opt (j_u32 doc ''max_connections_per_ip'')
        (\<lambda>v c. c\<lparr>cfg_max_connections_per_ip := pick v (cfg_max_connections_per_ip c)\<rparr>),
      opt (j_u32 doc ''connection_rate_window_secs'')
        (\<lambda>v c. c\<lparr>cfg_connection_rate_window_secs := pick v (cfg_connection_rate_window_secs c)\<rparr>),
      opt (j_u32 doc ''sys_interval'')
        (\<lambda>v c. c\<lparr>cfg_sys_interval := pick v (cfg_sys_interval c)\<rparr>),
      opt (j_u16 doc ''receive_maximum'')
        (\<lambda>v c. c\<lparr>cfg_receive_maximum := pick v (cfg_receive_maximum c)\<rparr>),
      opt (j_u16 doc ''topic_alias_maximum'')
        (\<lambda>v c. c\<lparr>cfg_topic_alias_maximum := pick v (cfg_topic_alias_maximum c)\<rparr>),
      opt (j_u16 doc ''server_keep_alive'')
        (\<lambda>v c. c\<lparr>cfg_server_keep_alive := overlay_opt v (cfg_server_keep_alive c)\<rparr>),
      opt (j_qos doc ''maximum_qos'')
        (\<lambda>v c. c\<lparr>cfg_maximum_qos := pick v (cfg_maximum_qos c)\<rparr>),
      opt (j_bool doc ''retain_available'')
        (\<lambda>v c. c\<lparr>cfg_retain_available := pick v (cfg_retain_available c)\<rparr>),
      opt (j_str doc ''otlp_endpoint'')
        (\<lambda>v c. c\<lparr>cfg_otlp_endpoint := overlay_opt v (cfg_otlp_endpoint c)\<rparr>),
      opt (j_str doc ''otlp_protocol'')
        (\<lambda>v c. c\<lparr>cfg_otlp_protocol := pick v (cfg_otlp_protocol c)\<rparr>),
      opt (j_str doc ''service_name'')
        (\<lambda>v c. c\<lparr>cfg_service_name := pick v (cfg_service_name c)\<rparr>),
      opt (j_bool doc ''ha_discovery'')
        (\<lambda>v c. c\<lparr>cfg_ha_discovery := pick v (cfg_ha_discovery c)\<rparr>),
      opt (j_str doc ''ha_discovery_prefix'')
        (\<lambda>v c. c\<lparr>cfg_ha_discovery_prefix := pick v (cfg_ha_discovery_prefix c)\<rparr>),
      opt (j_u32 doc ''otlp_interval'')
        (\<lambda>v c. c\<lparr>cfg_otlp_interval := pick v (cfg_otlp_interval c)\<rparr>),
      opt (j_bool doc ''otlp_metrics'')
        (\<lambda>v c. c\<lparr>cfg_otlp_metrics := pick v (cfg_otlp_metrics c)\<rparr>),
      opt (j_bool doc ''otlp_logs'')
        (\<lambda>v c. c\<lparr>cfg_otlp_logs := pick v (cfg_otlp_logs c)\<rparr>),
      opt (j_headers doc)
        (\<lambda>v c. c\<lparr>cfg_otlp_headers := pick v (cfg_otlp_headers c)\<rparr>),
      opt (j_bridges P doc) (\<lambda>v c. c\<lparr>cfg_bridges := pick v (cfg_bridges c)\<rparr>)]"

definition unknown_key :: "(string \<times> json) list \<Rightarrow> string option" where
  "unknown_key m = List.find (\<lambda>k. k \<notin> set KNOWN_KEYS) (map fst m)"

definition apply_toml_str ::
    "protocol \<Rightarrow> (string \<Rightarrow> string + json) \<Rightarrow> string \<Rightarrow> string \<Rightarrow> config \<Rightarrow> config_failure + config" where
  "apply_toml_str P toml text source c =
     (if trim text = [] then Inr c
      else (case toml text of
              Inl e \<Rightarrow> Inl (Config_not_toml source e)
            | Inr doc0 \<Rightarrow>
                (case flatten_sections doc0 of
                   Inl e \<Rightarrow> Inl e
                 | Inr doc \<Rightarrow>
                     (case json_as_object doc of
                        None \<Rightarrow> Inl Top_level_not_table
                      | Some m \<Rightarrow>
                          (case unknown_key m of
                             Some k \<Rightarrow> Inl (Unknown_option k)
                           | None \<Rightarrow> chain (file_options P doc) c)))))"

definition apply_toml_file ::
    "protocol \<Rightarrow> (string \<Rightarrow> string + string) \<Rightarrow> (string \<Rightarrow> string + json) \<Rightarrow> string \<Rightarrow> config \<Rightarrow>
     config_failure + config" where
  "apply_toml_file P read_file toml path c =
     (case read_file path of
        Inl e \<Rightarrow> Inl (Config_unreadable path e)
      | Inr text \<Rightarrow>
          (case apply_toml_str P toml text path c of
             Inl e \<Rightarrow> Inl e
           | Inr c' \<Rightarrow> Inr (c'\<lparr>cfg_config_file := Some path\<rparr>)))"

subsection \<open>The pipeline\<close>

datatype startup = Run config | HashPassword "string option"

definition default_config_file :: "(string \<Rightarrow> bool) \<Rightarrow> string option" where
  "default_config_file is_file = List.find is_file DEFAULT_CONFIG_FILES"

definition file_layer ::
    "protocol \<Rightarrow> (string \<Rightarrow> string option) \<Rightarrow> (string \<Rightarrow> bool) \<Rightarrow> (string \<Rightarrow> string + string) \<Rightarrow>
     (string \<Rightarrow> string + json) \<Rightarrow> cli \<Rightarrow> config_failure + config" where
  "file_layer P env is_file read_file toml cl =
     (case overlay_opt (cl_config cl) (non_empty_env env ''MQTT_CONFIG_FILE'') of
        Some path \<Rightarrow> apply_toml_file P read_file toml path config_default
      | None \<Rightarrow> (case default_config_file is_file of
                   Some path \<Rightarrow> apply_toml_file P read_file toml path config_default
                 | None \<Rightarrow> Inr config_default))"

definition from_cli ::
    "protocol \<Rightarrow> (string \<Rightarrow> string option) \<Rightarrow> (string \<Rightarrow> bool) \<Rightarrow> (string \<Rightarrow> string + string) \<Rightarrow>
     (string \<Rightarrow> string + json) \<Rightarrow> cli \<Rightarrow> config_failure + startup" where
  "from_cli P env is_file read_file toml cl =
     (case cl_hash_password cl of
        Some user \<Rightarrow> Inr (HashPassword user)
      | None \<Rightarrow>
          (case file_layer P env is_file read_file toml cl of
             Inl e \<Rightarrow> Inl e
           | Inr file \<Rightarrow>
               let c = normalize (cli_apply cl (apply_env env file))
               in (case validate c of Some e \<Rightarrow> Inl (Cross_check e) | None \<Rightarrow> Inr (Run c))))"

subsection \<open>What the pipeline resolves to\<close>

text \<open>The reference: every option is the first value set for it, looking at the command line, then at the
  environment, then at the file, or else its default. The bridges come from the file only.\<close>

fun first_set :: "'a option list \<Rightarrow> 'a \<Rightarrow> 'a" where
  "first_set [] d = d"
| "first_set (None # vs) d = first_set vs d"
| "first_set (Some v # vs) d = v"

fun first_set_opt :: "'a option list \<Rightarrow> 'a option \<Rightarrow> 'a option" where
  "first_set_opt [] d = d"
| "first_set_opt (None # vs) d = first_set_opt vs d"
| "first_set_opt (Some v # vs) d = Some v"

definition in_file :: "('e + 'a option) \<Rightarrow> 'a option" where
  "in_file r = (case r of Inl _ \<Rightarrow> None | Inr v \<Rightarrow> v)"

definition resolve :: "protocol \<Rightarrow> cli \<Rightarrow> (string \<Rightarrow> string option) \<Rightarrow> json \<Rightarrow> string option \<Rightarrow> config" where
  "resolve P cl env doc path =
     config_default
       \<lparr>cfg_listen_addr := first_set_opt [cl_listen_addr cl, env_addr env ''MQTT_LISTEN_ADDR'',
         in_file (j_addr doc ''listen_addr'')] (cfg_listen_addr config_default),
        cfg_admin_addr := first_set [cl_admin_addr cl, env_addr env ''MQTT_ADMIN_ADDR'',
         in_file (j_addr doc ''admin_addr'')] (cfg_admin_addr config_default),
        cfg_admin_token :=
         first_set_opt [map_option Secret (cl_admin_token cl), map_option Secret (non_empty_env env ''MQTT_ADMIN_TOKEN''),
         map_option Secret (in_file (j_str doc ''admin_token''))] (cfg_admin_token config_default),
        cfg_tls_listen_addr := first_set_opt [cl_tls_listen_addr cl, env_addr env ''MQTT_TLS_LISTEN_ADDR'',
         in_file (j_addr doc ''tls_listen_addr'')] (cfg_tls_listen_addr config_default),
        cfg_tls_cert := first_set_opt [cl_tls_cert cl, non_empty_env env ''MQTT_TLS_CERT'',
         in_file (j_str doc ''tls_cert'')] (cfg_tls_cert config_default),
        cfg_tls_key := first_set_opt [cl_tls_key cl, non_empty_env env ''MQTT_TLS_KEY'',
         in_file (j_str doc ''tls_key'')] (cfg_tls_key config_default),
        cfg_tls_client_ca := first_set_opt [cl_tls_client_ca cl, non_empty_env env ''MQTT_TLS_CLIENT_CA'',
         in_file (j_str doc ''tls_client_ca'')] (cfg_tls_client_ca config_default),
        cfg_ws_listen_addr := first_set_opt [cl_ws_listen_addr cl, env_addr env ''MQTT_WS_LISTEN_ADDR'',
         in_file (j_addr doc ''ws_listen_addr'')] (cfg_ws_listen_addr config_default),
        cfg_ws_tls_listen_addr :=
         first_set_opt [cl_ws_tls_listen_addr cl, env_addr env ''MQTT_WS_TLS_LISTEN_ADDR'',
         in_file (j_addr doc ''ws_tls_listen_addr'')] (cfg_ws_tls_listen_addr config_default),
        cfg_ws_tls_cert := first_set_opt [cl_ws_tls_cert cl, non_empty_env env ''MQTT_WS_TLS_CERT'',
         in_file (j_str doc ''ws_tls_cert'')] (cfg_ws_tls_cert config_default),
        cfg_ws_tls_key := first_set_opt [cl_ws_tls_key cl, non_empty_env env ''MQTT_WS_TLS_KEY'',
         in_file (j_str doc ''ws_tls_key'')] (cfg_ws_tls_key config_default),
        cfg_ws_tls_client_ca :=
         first_set_opt [cl_ws_tls_client_ca cl, non_empty_env env ''MQTT_WS_TLS_CLIENT_CA'',
         in_file (j_str doc ''ws_tls_client_ca'')] (cfg_ws_tls_client_ca config_default),
        cfg_admin_tls_cert :=
         first_set_opt [cl_admin_tls_cert cl, non_empty_env env ''MQTT_ADMIN_TLS_CERT'',
         in_file (j_str doc ''admin_tls_cert'')] (cfg_admin_tls_cert config_default),
        cfg_admin_tls_key := first_set_opt [cl_admin_tls_key cl, non_empty_env env ''MQTT_ADMIN_TLS_KEY'',
         in_file (j_str doc ''admin_tls_key'')] (cfg_admin_tls_key config_default),
        cfg_admin_tls_client_ca :=
         first_set_opt [cl_admin_tls_client_ca cl, non_empty_env env ''MQTT_ADMIN_TLS_CLIENT_CA'',
         in_file (j_str doc ''admin_tls_client_ca'')] (cfg_admin_tls_client_ca config_default),
        cfg_acl_path := first_set_opt [cl_acl_file cl, non_empty_env env ''MQTT_ACL_FILE'',
         in_file (j_str doc ''acl_path'')] (cfg_acl_path config_default),
        cfg_password_file := first_set_opt [cl_password_file cl, non_empty_env env ''MQTT_PASSWORD_FILE'',
         in_file (j_str doc ''password_file'')] (cfg_password_file config_default),
        cfg_allow_anonymous := first_set [cl_allow_anonymous cl, env_bool env ''MQTT_ALLOW_ANONYMOUS'',
         in_file (j_bool doc ''allow_anonymous'')] (cfg_allow_anonymous config_default),
        cfg_db_path := first_set [cl_db_path cl, non_empty_env env ''MQTT_DB_PATH'',
         in_file (j_str doc ''db_path'')] (cfg_db_path config_default),
        cfg_max_packet_size := first_set [cl_max_packet_size cl, env_u32 env ''MQTT_MAX_PACKET_SIZE'',
         in_file (j_u32 doc ''max_packet_size'')] (cfg_max_packet_size config_default),
        cfg_receive_maximum := first_set [cl_receive_maximum cl, env_u16 env ''MQTT_RECEIVE_MAXIMUM'',
         in_file (j_u16 doc ''receive_maximum'')] (cfg_receive_maximum config_default),
        cfg_max_session_expiry :=
         first_set [cl_max_session_expiry cl, env_u32 env ''MQTT_MAX_SESSION_EXPIRY'',
         in_file (j_u32 doc ''max_session_expiry'')] (cfg_max_session_expiry config_default),
        cfg_max_queued_messages :=
         first_set [cl_max_queued_messages cl, env_u32 env ''MQTT_MAX_QUEUED_MESSAGES'',
         in_file (j_u32 doc ''max_queued_messages'')] (cfg_max_queued_messages config_default),
        cfg_max_connections_per_ip :=
         first_set [cl_max_connections_per_ip cl, env_u32 env ''MQTT_MAX_CONNECTIONS_PER_IP'',
         in_file (j_u32 doc ''max_connections_per_ip'')] (cfg_max_connections_per_ip config_default),
        cfg_connection_rate_window_secs :=
         first_set [cl_connection_rate_window_secs cl, env_u32 env ''MQTT_CONNECTION_RATE_WINDOW_SECS'',
         in_file (j_u32 doc ''connection_rate_window_secs'')] (cfg_connection_rate_window_secs config_default),
        cfg_sys_interval := first_set [cl_sys_interval cl, env_u32 env ''MQTT_SYS_INTERVAL'',
         in_file (j_u32 doc ''sys_interval'')] (cfg_sys_interval config_default),
        cfg_maximum_qos :=
         first_set [cl_maximum_qos cl, Option.bind (non_empty_env env ''MQTT_MAXIMUM_QOS'') parse_qos_value,
         in_file (j_qos doc ''maximum_qos'')] (cfg_maximum_qos config_default),
        cfg_retain_available := first_set [cl_retain_available cl, env_bool env ''MQTT_RETAIN_AVAILABLE'',
         in_file (j_bool doc ''retain_available'')] (cfg_retain_available config_default),
        cfg_topic_alias_maximum :=
         first_set [cl_topic_alias_maximum cl, env_u16 env ''MQTT_TOPIC_ALIAS_MAXIMUM'',
         in_file (j_u16 doc ''topic_alias_maximum'')] (cfg_topic_alias_maximum config_default),
        cfg_server_keep_alive :=
         first_set_opt [cl_server_keep_alive cl, env_u16 env ''MQTT_SERVER_KEEP_ALIVE'',
         in_file (j_u16 doc ''server_keep_alive'')] (cfg_server_keep_alive config_default),
        cfg_otlp_endpoint := first_set_opt [cl_otlp_endpoint cl, non_empty_env env ''MQTT_OTLP_ENDPOINT'',
         in_file (j_str doc ''otlp_endpoint'')] (cfg_otlp_endpoint config_default),
        cfg_otlp_protocol := first_set [cl_otlp_protocol cl, non_empty_env env ''MQTT_OTLP_PROTOCOL'',
         in_file (j_str doc ''otlp_protocol'')] (cfg_otlp_protocol config_default),
        cfg_otlp_headers := first_set [cli_headers cl, env_headers env,
         in_file (j_headers doc)] (cfg_otlp_headers config_default),
        cfg_otlp_interval := first_set [cl_otlp_interval cl, env_u32 env ''MQTT_OTLP_INTERVAL'',
         in_file (j_u32 doc ''otlp_interval'')] (cfg_otlp_interval config_default),
        cfg_otlp_metrics := first_set [cl_otlp_metrics cl, env_bool env ''MQTT_OTLP_METRICS'',
         in_file (j_bool doc ''otlp_metrics'')] (cfg_otlp_metrics config_default),
        cfg_otlp_logs := first_set [cl_otlp_logs cl, env_bool env ''MQTT_OTLP_LOGS'',
         in_file (j_bool doc ''otlp_logs'')] (cfg_otlp_logs config_default),
        cfg_service_name := first_set [cl_service_name cl, non_empty_env env ''MQTT_SERVICE_NAME'',
         in_file (j_str doc ''service_name'')] (cfg_service_name config_default),
        cfg_ha_discovery := first_set [cl_ha_discovery cl, env_bool env ''MQTT_HA_DISCOVERY'',
         in_file (j_bool doc ''ha_discovery'')] (cfg_ha_discovery config_default),
        cfg_ha_discovery_prefix :=
         first_set [cl_ha_discovery_prefix cl, non_empty_env env ''MQTT_HA_DISCOVERY_PREFIX'',
         in_file (j_str doc ''ha_discovery_prefix'')] (cfg_ha_discovery_prefix config_default),
        cfg_bridges := first_set [in_file (j_bridges P doc)] [],
        cfg_config_file := path\<rparr>"

lemma first_set_Cons: "first_set (v # vs) d = pick v (first_set vs d)"
  by (cases v) (simp_all add: pick_def)

lemma first_set_opt_Cons: "first_set_opt (v # vs) d = overlay_opt v (first_set_opt vs d)"
  by (cases v) (simp_all add: overlay_opt_def)

lemmas layer_simps = first_set_Cons first_set_opt_Cons first_set.simps(1) first_set_opt.simps(1)

lemma chain_opt: "chain (opt r upd # fs) c = Inr c' \<longleftrightarrow> (\<exists>v. r = Inr v \<and> chain fs (upd v c) = Inr c')"
  by (cases r) (simp_all add: opt_def)

lemma in_file_Inr [simp]: "in_file (Inr v) = v"
  by (simp add: in_file_def)

lemma in_file_Inl [simp]: "in_file (Inl e) = None"
  by (simp add: in_file_def)

lemma file_then_layers:
  assumes "chain (file_options P doc) config_default = Inr file"
  shows "cli_apply cl (apply_env env (file\<lparr>cfg_config_file := path\<rparr>)) = resolve P cl env doc path"
proof -
  have d: "cfg_bridges config_default = []" by (simp add: config_default_def)
  from assms show ?thesis
    by (auto simp: file_options_def chain_opt cli_apply_def apply_env_def resolve_def layer_simps d
        simp del: chain.simps(2))
qed

lemma no_file_layers:
  "cli_apply cl (apply_env env config_default) = resolve P cl env (JObject []) None"
proof -
  have none: "json_idx (JObject []) k = JNull" for k by (simp add: json_idx_def)
  have "chain (file_options P (JObject [])) config_default = Inr config_default"
    by (simp add: file_options_def opt_def j_str_def j_i64_def j_bool_def j_u32_def j_u16_def j_uint_def
        j_addr_def j_qos_def j_headers_def j_bridges_def parse_bridges_def none overlay_opt_def pick_def)
  from file_then_layers [OF this, of cl env None] show ?thesis
    by (simp add: config_default_def)
qed

text \<open>The file the pipeline reads, and the document it reads from it.\<close>

definition chosen_path :: "(string \<Rightarrow> string option) \<Rightarrow> (string \<Rightarrow> bool) \<Rightarrow> cli \<Rightarrow> string option" where
  "chosen_path env is_file cl =
     first_set_opt [cl_config cl, non_empty_env env ''MQTT_CONFIG_FILE''] (default_config_file is_file)"

definition reads_file ::
    "(string \<Rightarrow> string + string) \<Rightarrow> (string \<Rightarrow> string + json) \<Rightarrow> string option \<Rightarrow> json \<Rightarrow> bool" where
  "reads_file read_file toml path doc \<longleftrightarrow>
     (case path of
        None \<Rightarrow> doc = JObject []
      | Some p \<Rightarrow> (\<exists>text. read_file p = Inr text
          \<and> (if trim text = [] then doc = JObject []
             else \<exists>d. toml text = Inr d \<and> flatten_sections d = Inr doc)))"

lemma apply_toml_str_ok:
  assumes "apply_toml_str P toml text source config_default = Inr file"
  shows "\<exists>doc. (if trim text = [] then doc = JObject [] else \<exists>d. toml text = Inr d \<and> flatten_sections d = Inr doc)
    \<and> (\<forall>cl env path. cli_apply cl (apply_env env (file\<lparr>cfg_config_file := path\<rparr>)) = resolve P cl env doc path)"
proof (cases "trim text = []")
  case True
  have none: "json_idx (JObject []) k = JNull" for k by (simp add: json_idx_def)
  have "chain (file_options P (JObject [])) config_default = Inr config_default"
    by (simp add: file_options_def opt_def j_str_def j_i64_def j_bool_def j_u32_def j_u16_def j_uint_def
        j_addr_def j_qos_def j_headers_def j_bridges_def parse_bridges_def none overlay_opt_def pick_def)
  from file_then_layers [OF this] True assms show ?thesis by (simp add: apply_toml_str_def)
next
  case False
  with assms obtain d doc where "toml text = Inr d" "flatten_sections d = Inr doc"
    "chain (file_options P doc) config_default = Inr file"
    by (auto simp: apply_toml_str_def split: sum.splits option.splits)
  with file_then_layers [OF this(3)] False show ?thesis by auto
qed

lemma file_layer_ok:
  assumes "file_layer P env is_file read_file toml cl = Inr file"
  shows "\<exists>doc. reads_file read_file toml (chosen_path env is_file cl) doc
    \<and> cli_apply cl (apply_env env file) = resolve P cl env doc (chosen_path env is_file cl)"
proof (cases "chosen_path env is_file cl")
  case None
  then have "file = config_default"
    using assms by (auto simp: chosen_path_def layer_simps file_layer_def overlay_opt_def split: if_splits)
  with None no_file_layers show ?thesis by (simp add: reads_file_def)
next
  case (Some p)
  then have "apply_toml_file P read_file toml p config_default = Inr file"
    using assms by (auto simp: chosen_path_def layer_simps file_layer_def overlay_opt_def
        split: if_splits option.splits)
  then obtain content c' where t: "read_file p = Inr content"
    and c': "apply_toml_str P toml content p config_default = Inr c'" and f: "file = c'\<lparr>cfg_config_file := Some p\<rparr>"
    by (auto simp: apply_toml_file_def split: sum.splits)
  from apply_toml_str_ok [OF c'] t f Some show ?thesis by (auto simp: reads_file_def)
qed



definition no_flags :: cli where
  "no_flags =
     \<lparr>cl_config = None, cl_listen_addr = None, cl_admin_addr = None, cl_max_connections_per_ip = None,
      cl_connection_rate_window_secs = None, cl_tls_listen_addr = None, cl_tls_cert = None,
      cl_tls_key = None, cl_tls_client_ca = None, cl_ws_listen_addr = None, cl_ws_tls_listen_addr = None,
      cl_ws_tls_cert = None, cl_ws_tls_key = None, cl_ws_tls_client_ca = None, cl_admin_tls_cert = None,
      cl_admin_tls_key = None, cl_admin_tls_client_ca = None, cl_admin_token = None,
      cl_password_file = None, cl_allow_anonymous = None, cl_acl_file = None, cl_hash_password = None,
      cl_db_path = None, cl_max_packet_size = None, cl_receive_maximum = None,
      cl_max_session_expiry = None, cl_max_queued_messages = None, cl_sys_interval = None,
      cl_maximum_qos = None, cl_retain_available = None, cl_topic_alias_maximum = None,
      cl_server_keep_alive = None, cl_otlp_endpoint = None, cl_otlp_protocol = None, cl_otlp_header = [],
      cl_otlp_interval = None, cl_otlp_metrics = None, cl_otlp_logs = None, cl_service_name = None,
      cl_ha_discovery = None, cl_ha_discovery_prefix = None\<rparr>"

text \<open>A run whose file sets one option in a section, and whose command line turns the WebSocket listener on.\<close>

definition tuned_file :: json where
  "tuned_file = JObject [(''protocol'', JObject [(''receive_maximum'', JInt 7)])]"


end
