(* ===== verification/Command_Line.thy ===== *)
theory Command_Line
  imports Config_File
begin

section \<open>The flags of the command line\<close>

text \<open>
  The declaration of \<^verbatim>\<open>Cli\<close> in \<^verbatim>\<open>src/src/cli.rs\<close>: the flags with their names, arities and value parsers, grouped
  under the headings of the help text, and \<^verbatim>\<open>Config::load\<close>. Splitting the arguments into flags and
  values is clap's: the record \<open>arguments\<close> is what it found, with its parsers for the integer types. A
  flag is named after its field, with hyphens. Which of several bad flags is reported is clap's choice too, so that
  a usage error carries no text here: the process prints it and exits.
\<close>

record arguments =
  ar_value :: "string \<Rightarrow> string option option"
  ar_values :: "string \<Rightarrow> string list"
  ar_u32 :: "string \<Rightarrow> u32 option"
  ar_u16 :: "string \<Rightarrow> u16 option"

subsection \<open>Value parsers\<close>

definition qos_flag :: "string \<Rightarrow> string + qos" where
  "qos_flag v = (case parse_qos_value v of None \<Rightarrow> Inl ''expected 0, 1, or 2'' | Some q \<Rightarrow> Inr q)"

definition bool_flag :: "string \<Rightarrow> string + bool" where
  "bool_flag v = (case parse_bool_value v of None \<Rightarrow> Inl ''expected true or false'' | Some b \<Rightarrow> Inr b)"

definition ok_value :: "'e + 'a \<Rightarrow> 'a option" where
  "ok_value r = (case r of Inl _ \<Rightarrow> None | Inr v \<Rightarrow> Some v)"

text \<open>What a field of the struct is read from: one value; at most one value, of which the default stands for a missing
  one (\<^verbatim>\<open>num_args = 0..=1\<close>, \<^verbatim>\<open>default_missing_value\<close>); a value that may itself be missing; and the values of a
  repeated flag, in order. The result is \<open>None\<close> when a value is missing or bad, and \<open>Some None\<close> when the flag is not
  given.\<close>

definition one_value :: "string \<Rightarrow> (arguments \<Rightarrow> string \<Rightarrow> 'a option) \<Rightarrow> arguments \<Rightarrow> 'a option option" where
  "one_value name parser A =
     (case ar_value A name of
        None \<Rightarrow> Some None
      | Some None \<Rightarrow> None
      | Some (Some v) \<Rightarrow> map_option Some (parser A v))"

definition switch :: "string \<Rightarrow> arguments \<Rightarrow> bool option option" where
  "switch name A =
     (case ar_value A name of
        None \<Rightarrow> Some None
      | Some v \<Rightarrow> map_option Some (ok_value (bool_flag (case v of None \<Rightarrow> ''true'' | Some w \<Rightarrow> w))))"

definition optional_value :: "string \<Rightarrow> arguments \<Rightarrow> string option option option" where
  "optional_value name A = Some (ar_value A name)"

fun all_ok :: "('a \<Rightarrow> 'b option) \<Rightarrow> 'a list \<Rightarrow> 'b list option" where
  "all_ok f [] = Some []"
| "all_ok f (x # xs) =
     (case f x of None \<Rightarrow> None | Some y \<Rightarrow> map_option (\<lambda>ys. y # ys) (all_ok f xs))"

definition many_values :: "string \<Rightarrow> (string \<Rightarrow> 'a option) \<Rightarrow> arguments \<Rightarrow> 'a list option" where
  "many_values name parser A = all_ok parser (ar_values A name)"

text \<open>One field of the struct that the derived parser fills.\<close>

type_synonym flag = "arguments \<Rightarrow> cli \<Rightarrow> cli option"

definition field :: "(arguments \<Rightarrow> 'a option) \<Rightarrow> ('a \<Rightarrow> cli \<Rightarrow> cli) \<Rightarrow> flag" where
  "field reader set_field A cl = map_option (\<lambda>v. set_field v cl) (reader A)"

definition as_text :: "arguments \<Rightarrow> string \<Rightarrow> string option" where
  "as_text A v = Some v"

definition as_addr :: "arguments \<Rightarrow> string \<Rightarrow> socket_addr option" where
  "as_addr A v = parse_socket v"

definition as_qos :: "arguments \<Rightarrow> string \<Rightarrow> qos option" where
  "as_qos A v = ok_value (qos_flag v)"

subsection \<open>The flags\<close>

definition network_flags :: "flag list" where
  "network_flags =
     [field (one_value ''config'' as_text) (\<lambda>v cl. cl\<lparr>cl_config := v\<rparr>),
      field (one_value ''listen-addr'' as_addr) (\<lambda>v cl. cl\<lparr>cl_listen_addr := v\<rparr>),
      field (one_value ''admin-addr'' as_addr) (\<lambda>v cl. cl\<lparr>cl_admin_addr := v\<rparr>),
      field (one_value ''max-connections-per-ip'' ar_u32) (\<lambda>v cl. cl\<lparr>cl_max_connections_per_ip := v\<rparr>),
      field (one_value ''connection-rate-window-secs'' ar_u32) (\<lambda>v cl. cl\<lparr>cl_connection_rate_window_secs := v\<rparr>)]"

definition tls_flags :: "flag list" where
  "tls_flags =
     [field (one_value ''tls-listen-addr'' as_addr) (\<lambda>v cl. cl\<lparr>cl_tls_listen_addr := v\<rparr>),
      field (one_value ''tls-cert'' as_text) (\<lambda>v cl. cl\<lparr>cl_tls_cert := v\<rparr>),
      field (one_value ''tls-key'' as_text) (\<lambda>v cl. cl\<lparr>cl_tls_key := v\<rparr>),
      field (one_value ''tls-client-ca'' as_text) (\<lambda>v cl. cl\<lparr>cl_tls_client_ca := v\<rparr>)]"

definition ws_flags :: "flag list" where
  "ws_flags =
     [field (one_value ''ws-listen-addr'' as_addr) (\<lambda>v cl. cl\<lparr>cl_ws_listen_addr := v\<rparr>),
      field (one_value ''ws-tls-listen-addr'' as_addr) (\<lambda>v cl. cl\<lparr>cl_ws_tls_listen_addr := v\<rparr>),
      field (one_value ''ws-tls-cert'' as_text) (\<lambda>v cl. cl\<lparr>cl_ws_tls_cert := v\<rparr>),
      field (one_value ''ws-tls-key'' as_text) (\<lambda>v cl. cl\<lparr>cl_ws_tls_key := v\<rparr>),
      field (one_value ''ws-tls-client-ca'' as_text) (\<lambda>v cl. cl\<lparr>cl_ws_tls_client_ca := v\<rparr>)]"

definition admin_flags :: "flag list" where
  "admin_flags =
     [field (one_value ''admin-tls-cert'' as_text) (\<lambda>v cl. cl\<lparr>cl_admin_tls_cert := v\<rparr>),
      field (one_value ''admin-tls-key'' as_text) (\<lambda>v cl. cl\<lparr>cl_admin_tls_key := v\<rparr>),
      field (one_value ''admin-tls-client-ca'' as_text) (\<lambda>v cl. cl\<lparr>cl_admin_tls_client_ca := v\<rparr>),
      field (one_value ''admin-token'' as_text) (\<lambda>v cl. cl\<lparr>cl_admin_token := v\<rparr>)]"

definition auth_flags :: "flag list" where
  "auth_flags =
     [field (one_value ''password-file'' as_text) (\<lambda>v cl. cl\<lparr>cl_password_file := v\<rparr>),
      field (switch ''allow-anonymous'') (\<lambda>v cl. cl\<lparr>cl_allow_anonymous := v\<rparr>),
      field (one_value ''acl-file'' as_text) (\<lambda>v cl. cl\<lparr>cl_acl_file := v\<rparr>),
      field (optional_value ''hash-password'') (\<lambda>v cl. cl\<lparr>cl_hash_password := v\<rparr>)]"

definition storage_flags :: "flag list" where
  "storage_flags =
     [field (one_value ''db-path'' as_text) (\<lambda>v cl. cl\<lparr>cl_db_path := v\<rparr>),
      field (one_value ''max-packet-size'' ar_u32) (\<lambda>v cl. cl\<lparr>cl_max_packet_size := v\<rparr>),
      field (one_value ''receive-maximum'' ar_u16) (\<lambda>v cl. cl\<lparr>cl_receive_maximum := v\<rparr>),
      field (one_value ''max-session-expiry'' ar_u32) (\<lambda>v cl. cl\<lparr>cl_max_session_expiry := v\<rparr>),
      field (one_value ''max-queued-messages'' ar_u32) (\<lambda>v cl. cl\<lparr>cl_max_queued_messages := v\<rparr>),
      field (one_value ''sys-interval'' ar_u32) (\<lambda>v cl. cl\<lparr>cl_sys_interval := v\<rparr>)]"

definition capability_flags :: "flag list" where
  "capability_flags =
     [field (one_value ''maximum-qos'' as_qos) (\<lambda>v cl. cl\<lparr>cl_maximum_qos := v\<rparr>),
      field (switch ''retain-available'') (\<lambda>v cl. cl\<lparr>cl_retain_available := v\<rparr>),
      field (one_value ''topic-alias-maximum'' ar_u16) (\<lambda>v cl. cl\<lparr>cl_topic_alias_maximum := v\<rparr>),
      field (one_value ''server-keep-alive'' ar_u16) (\<lambda>v cl. cl\<lparr>cl_server_keep_alive := v\<rparr>)]"

definition otlp_flags :: "flag list" where
  "otlp_flags =
     [field (one_value ''otlp-endpoint'' as_text) (\<lambda>v cl. cl\<lparr>cl_otlp_endpoint := v\<rparr>),
      field (one_value ''otlp-protocol'' as_text) (\<lambda>v cl. cl\<lparr>cl_otlp_protocol := v\<rparr>),
      field (many_values ''otlp-header'' (ok_value \<circ> header_flag)) (\<lambda>vs cl. cl\<lparr>cl_otlp_header := vs\<rparr>),
      field (one_value ''otlp-interval'' ar_u32) (\<lambda>v cl. cl\<lparr>cl_otlp_interval := v\<rparr>),
      field (switch ''otlp-metrics'') (\<lambda>v cl. cl\<lparr>cl_otlp_metrics := v\<rparr>),
      field (switch ''otlp-logs'') (\<lambda>v cl. cl\<lparr>cl_otlp_logs := v\<rparr>),
      field (one_value ''service-name'' as_text) (\<lambda>v cl. cl\<lparr>cl_service_name := v\<rparr>)]"

definition ha_flags :: "flag list" where
  "ha_flags =
     [field (switch ''ha-discovery'') (\<lambda>v cl. cl\<lparr>cl_ha_discovery := v\<rparr>),
      field (one_value ''ha-discovery-prefix'' as_text) (\<lambda>v cl. cl\<lparr>cl_ha_discovery_prefix := v\<rparr>)]"

definition cli_flags :: "flag list" where
  "cli_flags = network_flags @ tls_flags @ ws_flags @ admin_flags @ auth_flags @ storage_flags @ capability_flags
     @ otlp_flags @ ha_flags"

fun run_flags :: "flag list \<Rightarrow> arguments \<Rightarrow> cli \<Rightarrow> cli option" where
  "run_flags [] A cl = Some cl"
| "run_flags (f # fs) A cl = (case f A cl of None \<Rightarrow> None | Some cl' \<Rightarrow> run_flags fs A cl')"

definition cli_parse :: "arguments \<Rightarrow> cli option" where
  "cli_parse A = run_flags cli_flags A no_flags"

datatype load_outcome = Usage_error | Loaded "config_failure + startup"

definition config_load ::
    "protocol \<Rightarrow> (string \<Rightarrow> string option) \<Rightarrow> (string \<Rightarrow> bool) \<Rightarrow> (string \<Rightarrow> string + string) \<Rightarrow>
     (string \<Rightarrow> string + json) \<Rightarrow> arguments \<Rightarrow> load_outcome" where
  "config_load P env is_file read_file toml A =
     (case cli_parse A of None \<Rightarrow> Usage_error | Some cl \<Rightarrow> Loaded (from_cli P env is_file read_file toml cl))"

subsection \<open>A usage error for every bad value, and nothing else\<close>

text \<open>The command line is accepted exactly if every flag on it is, on its own; the order of the flags does not
  matter.\<close>

lemma run_flags_field:
  "run_flags (field r upd # fs) A cl = Some cl' \<longleftrightarrow> (\<exists>v. r A = Some v \<and> run_flags fs A (upd v cl) = Some cl')"
  by (cases "r A") (simp_all add: field_def)

lemma run_flags_append:
  "run_flags (fs @ gs) A cl = (case run_flags fs A cl of None \<Rightarrow> None | Some cl' \<Rightarrow> run_flags gs A cl')"
  by (induction fs arbitrary: cl) (simp_all split: option.split)

definition refuses_alone :: "flag \<Rightarrow> bool" where
  "refuses_alone f \<longleftrightarrow> (\<forall>A cl. f A cl = None \<longleftrightarrow> f A no_flags = None)"

lemma field_refuses_alone: "refuses_alone (field r upd)"
  by (simp add: refuses_alone_def field_def)

lemma run_flags_refused:
  assumes "list_all refuses_alone fs"
  shows "run_flags fs A cl = None \<longleftrightarrow> \<not> list_all (\<lambda>f. f A no_flags \<noteq> None) fs"
  using assms
proof (induction fs arbitrary: cl)
  case (Cons f fs)
  then have "f A cl = None \<longleftrightarrow> f A no_flags = None" unfolding list.pred_inject(2) refuses_alone_def by blast
  with Cons show ?case by (cases "f A cl") auto
qed simp

lemmas flag_tables = cli_flags_def network_flags_def tls_flags_def ws_flags_def admin_flags_def auth_flags_def
  storage_flags_def capability_flags_def otlp_flags_def ha_flags_def

lemma cli_parse_refused: "cli_parse A = None \<longleftrightarrow> \<not> list_all (\<lambda>f. f A no_flags \<noteq> None) cli_flags"
  unfolding cli_parse_def
  by (rule run_flags_refused) (simp only: flag_tables append.simps list.pred_inject field_refuses_alone simp_thms)

text \<open>Every flag is optional: with no arguments nothing is set.\<close>

lemma cli_parse_none: "cli_parse \<lparr>ar_value = (\<lambda>_. None), ar_values = (\<lambda>_. []), ar_u32 = u, ar_u16 = w\<rparr> = Some no_flags"
  by (simp add: cli_parse_def flag_tables field_def one_value_def switch_def optional_value_def many_values_def no_flags_def)

subsection \<open>A flag and its environment variable\<close>

text \<open>The help text names the variable of each flag: its name in capitals, with underscores and the prefix
  \<^verbatim>\<open>MQTT_\<close>.\<close>

definition variable_of :: "string \<Rightarrow> string \<Rightarrow> bool" where
  "variable_of name var \<longleftrightarrow> ascii_lowercase var = ''mqtt_'' @ map (\<lambda>c. if c = CHR ''-'' then CHR ''_'' else c) name"

text \<open>The arguments that say what an environment says: for each variable its flag, with one \<^verbatim>\<open>--otlp-header\<close> for each
  entry of the list. The integer parsers accept the decimal texts that \<^verbatim>\<open>str::parse\<close> accepts; a text that starts
  with a hyphen is not taken for a value.\<close>

definition mirrors :: "arguments \<Rightarrow> (string \<Rightarrow> string option) \<Rightarrow> bool" where
  "mirrors A env \<longleftrightarrow>
     (\<forall>name var. variable_of name var \<longrightarrow> ar_value A name = map_option Some (non_empty_env env var))
     \<and> (\<forall>name v. ar_value A name = Some (Some v) \<longrightarrow> take 1 v \<noteq> ''-'')
     \<and> ar_values A ''otlp-header'' =
         (case non_empty_env env ''MQTT_OTLP_HEADERS'' of
            None \<Rightarrow> []
          | Some v \<Rightarrow> filter (\<lambda>p. p \<noteq> []) (map trim (split_on (CHR '','') v)))
     \<and> (\<forall>v. take 1 v \<noteq> ''-'' \<longrightarrow> ar_u32 A v = map_option of_nat (parse_uint 4294967295 v)
         \<and> ar_u16 A v = map_option of_nat (parse_uint 65535 v))"

lemma mirrors_one:
  assumes "mirrors A env" and "variable_of name var"
  shows "one_value name as_text A = Some v \<Longrightarrow> v = non_empty_env env var"
    and "one_value name as_addr A = Some a \<Longrightarrow> a = env_addr env var"
    and "one_value name ar_u32 A = Some n \<Longrightarrow> n = env_u32 env var"
    and "one_value name ar_u16 A = Some m \<Longrightarrow> m = env_u16 env var"
    and "one_value name as_qos A = Some q \<Longrightarrow> q = Option.bind (non_empty_env env var) parse_qos_value"
    and "switch name A = Some b \<Longrightarrow> b = env_bool env var"
proof -
  have given: "ar_value A name = map_option Some (non_empty_env env var)" using assms by (auto simp: mirrors_def)
  with assms(1) have num: "non_empty_env env var = Some t \<Longrightarrow>
      ar_u32 A t = map_option of_nat (parse_uint 4294967295 t) \<and> ar_u16 A t = map_option of_nat (parse_uint 65535 t)" for t
    by (auto simp: mirrors_def)
  note unfolds = one_value_def switch_def as_text_def as_addr_def as_qos_def env_addr_def env_u32_def env_u16_def env_bool_def
    ok_value_def qos_flag_def bool_flag_def given
  show "one_value name as_text A = Some v \<Longrightarrow> v = non_empty_env env var"
    and "one_value name as_addr A = Some a \<Longrightarrow> a = env_addr env var"
    and "one_value name ar_u32 A = Some n \<Longrightarrow> n = env_u32 env var"
    and "one_value name ar_u16 A = Some m \<Longrightarrow> m = env_u16 env var"
    and "one_value name as_qos A = Some q \<Longrightarrow> q = Option.bind (non_empty_env env var) parse_qos_value"
    and "switch name A = Some b \<Longrightarrow> b = env_bool env var"
    using num by (auto simp: unfolds split: option.splits)
qed

lemma header_pairs_flags:
  assumes "all_ok (ok_value \<circ> header_flag) (filter (\<lambda>p. p \<noteq> []) (map trim raws)) = Some hs"
  shows "parse_pairs raws = Inr (from_pairs hs)"
  using assms
  by (induction raws arbitrary: hs)
    (auto simp: from_pairs_def header_flag_def ok_value_def Let_def split: option.splits if_splits sum.splits)

lemma mirrors_headers:
  assumes "mirrors A env" and "many_values ''otlp-header'' (ok_value \<circ> header_flag) A = Some hs"
  shows "(if hs = [] then None else Some (from_pairs hs)) = env_headers env"
proof (cases "non_empty_env env ''MQTT_OTLP_HEADERS''")
  case None
  with assms show ?thesis by (simp add: mirrors_def many_values_def env_headers_def)
next
  case (Some v)
  with assms have "all_ok (ok_value \<circ> header_flag) (filter (\<lambda>p. p \<noteq> []) (map trim (split_on (CHR '','') v))) = Some hs"
    by (simp add: mirrors_def many_values_def)
  from header_pairs_flags [OF this] Some show ?thesis by (auto simp: env_headers_def from_pairs_def)
qed

lemma cli_parse_fields:
  assumes "cli_parse A = Some cl"
  shows "one_value ''config'' as_text A = Some (cl_config cl)
    \<and> one_value ''listen-addr'' as_addr A = Some (cl_listen_addr cl)
    \<and> one_value ''admin-addr'' as_addr A = Some (cl_admin_addr cl)
    \<and> one_value ''max-connections-per-ip'' ar_u32 A = Some (cl_max_connections_per_ip cl)
    \<and> one_value ''connection-rate-window-secs'' ar_u32 A = Some (cl_connection_rate_window_secs cl)
    \<and> one_value ''tls-listen-addr'' as_addr A = Some (cl_tls_listen_addr cl)
    \<and> one_value ''tls-cert'' as_text A = Some (cl_tls_cert cl)
    \<and> one_value ''tls-key'' as_text A = Some (cl_tls_key cl)
    \<and> one_value ''tls-client-ca'' as_text A = Some (cl_tls_client_ca cl)
    \<and> one_value ''ws-listen-addr'' as_addr A = Some (cl_ws_listen_addr cl)
    \<and> one_value ''ws-tls-listen-addr'' as_addr A = Some (cl_ws_tls_listen_addr cl)
    \<and> one_value ''ws-tls-cert'' as_text A = Some (cl_ws_tls_cert cl)
    \<and> one_value ''ws-tls-key'' as_text A = Some (cl_ws_tls_key cl)
    \<and> one_value ''ws-tls-client-ca'' as_text A = Some (cl_ws_tls_client_ca cl)
    \<and> one_value ''admin-tls-cert'' as_text A = Some (cl_admin_tls_cert cl)
    \<and> one_value ''admin-tls-key'' as_text A = Some (cl_admin_tls_key cl)
    \<and> one_value ''admin-tls-client-ca'' as_text A = Some (cl_admin_tls_client_ca cl)
    \<and> one_value ''admin-token'' as_text A = Some (cl_admin_token cl)
    \<and> one_value ''password-file'' as_text A = Some (cl_password_file cl)
    \<and> switch ''allow-anonymous'' A = Some (cl_allow_anonymous cl)
    \<and> one_value ''acl-file'' as_text A = Some (cl_acl_file cl)
    \<and> optional_value ''hash-password'' A = Some (cl_hash_password cl)
    \<and> one_value ''db-path'' as_text A = Some (cl_db_path cl)
    \<and> one_value ''max-packet-size'' ar_u32 A = Some (cl_max_packet_size cl)
    \<and> one_value ''receive-maximum'' ar_u16 A = Some (cl_receive_maximum cl)
    \<and> one_value ''max-session-expiry'' ar_u32 A = Some (cl_max_session_expiry cl)
    \<and> one_value ''max-queued-messages'' ar_u32 A = Some (cl_max_queued_messages cl)
    \<and> one_value ''sys-interval'' ar_u32 A = Some (cl_sys_interval cl)
    \<and> one_value ''maximum-qos'' as_qos A = Some (cl_maximum_qos cl)
    \<and> switch ''retain-available'' A = Some (cl_retain_available cl)
    \<and> one_value ''topic-alias-maximum'' ar_u16 A = Some (cl_topic_alias_maximum cl)
    \<and> one_value ''server-keep-alive'' ar_u16 A = Some (cl_server_keep_alive cl)
    \<and> one_value ''otlp-endpoint'' as_text A = Some (cl_otlp_endpoint cl)
    \<and> one_value ''otlp-protocol'' as_text A = Some (cl_otlp_protocol cl)
    \<and> many_values ''otlp-header'' (ok_value \<circ> header_flag) A = Some (cl_otlp_header cl)
    \<and> one_value ''otlp-interval'' ar_u32 A = Some (cl_otlp_interval cl)
    \<and> switch ''otlp-metrics'' A = Some (cl_otlp_metrics cl)
    \<and> switch ''otlp-logs'' A = Some (cl_otlp_logs cl)
    \<and> one_value ''service-name'' as_text A = Some (cl_service_name cl)
    \<and> switch ''ha-discovery'' A = Some (cl_ha_discovery cl)
    \<and> one_value ''ha-discovery-prefix'' as_text A = Some (cl_ha_discovery_prefix cl)"
  using assms unfolding cli_parse_def flag_tables append.simps run_flags_field run_flags.simps(1) option.inject
  by (elim exE conjE, hypsubst) simp

lemma lower_letters:
  "lower_char (CHR ''A'') = CHR ''a''" "lower_char (CHR ''B'') = CHR ''b''" "lower_char (CHR ''C'') = CHR ''c''"
  "lower_char (CHR ''D'') = CHR ''d''" "lower_char (CHR ''E'') = CHR ''e''" "lower_char (CHR ''F'') = CHR ''f''"
  "lower_char (CHR ''G'') = CHR ''g''" "lower_char (CHR ''H'') = CHR ''h''" "lower_char (CHR ''I'') = CHR ''i''"
  "lower_char (CHR ''K'') = CHR ''k''" "lower_char (CHR ''L'') = CHR ''l''" "lower_char (CHR ''M'') = CHR ''m''"
  "lower_char (CHR ''N'') = CHR ''n''" "lower_char (CHR ''O'') = CHR ''o''" "lower_char (CHR ''P'') = CHR ''p''"
  "lower_char (CHR ''Q'') = CHR ''q''" "lower_char (CHR ''R'') = CHR ''r''" "lower_char (CHR ''S'') = CHR ''s''"
  "lower_char (CHR ''T'') = CHR ''t''" "lower_char (CHR ''U'') = CHR ''u''" "lower_char (CHR ''V'') = CHR ''v''"
  "lower_char (CHR ''W'') = CHR ''w''" "lower_char (CHR ''X'') = CHR ''x''" "lower_char (CHR ''Y'') = CHR ''y''"
  "lower_char (CHR ''Z'') = CHR ''z''" "lower_char (CHR ''_'') = CHR ''_''"
  by code_simp+

lemma variables_of_flags:
  "variable_of ''listen-addr'' ''MQTT_LISTEN_ADDR''" "variable_of ''admin-addr'' ''MQTT_ADMIN_ADDR''"
  "variable_of ''max-connections-per-ip'' ''MQTT_MAX_CONNECTIONS_PER_IP''"
  "variable_of ''connection-rate-window-secs'' ''MQTT_CONNECTION_RATE_WINDOW_SECS''"
  "variable_of ''tls-listen-addr'' ''MQTT_TLS_LISTEN_ADDR''" "variable_of ''tls-cert'' ''MQTT_TLS_CERT''"
  "variable_of ''tls-key'' ''MQTT_TLS_KEY''" "variable_of ''tls-client-ca'' ''MQTT_TLS_CLIENT_CA''"
  "variable_of ''ws-listen-addr'' ''MQTT_WS_LISTEN_ADDR''"
  "variable_of ''ws-tls-listen-addr'' ''MQTT_WS_TLS_LISTEN_ADDR''"
  "variable_of ''ws-tls-cert'' ''MQTT_WS_TLS_CERT''" "variable_of ''ws-tls-key'' ''MQTT_WS_TLS_KEY''"
  "variable_of ''ws-tls-client-ca'' ''MQTT_WS_TLS_CLIENT_CA''"
  "variable_of ''admin-tls-cert'' ''MQTT_ADMIN_TLS_CERT''"
  "variable_of ''admin-tls-key'' ''MQTT_ADMIN_TLS_KEY''"
  "variable_of ''admin-tls-client-ca'' ''MQTT_ADMIN_TLS_CLIENT_CA''"
  "variable_of ''admin-token'' ''MQTT_ADMIN_TOKEN''" "variable_of ''password-file'' ''MQTT_PASSWORD_FILE''"
  "variable_of ''allow-anonymous'' ''MQTT_ALLOW_ANONYMOUS''" "variable_of ''acl-file'' ''MQTT_ACL_FILE''"
  "variable_of ''db-path'' ''MQTT_DB_PATH''" "variable_of ''max-packet-size'' ''MQTT_MAX_PACKET_SIZE''"
  "variable_of ''receive-maximum'' ''MQTT_RECEIVE_MAXIMUM''"
  "variable_of ''max-session-expiry'' ''MQTT_MAX_SESSION_EXPIRY''"
  "variable_of ''max-queued-messages'' ''MQTT_MAX_QUEUED_MESSAGES''"
  "variable_of ''sys-interval'' ''MQTT_SYS_INTERVAL''" "variable_of ''maximum-qos'' ''MQTT_MAXIMUM_QOS''"
  "variable_of ''retain-available'' ''MQTT_RETAIN_AVAILABLE''"
  "variable_of ''topic-alias-maximum'' ''MQTT_TOPIC_ALIAS_MAXIMUM''"
  "variable_of ''server-keep-alive'' ''MQTT_SERVER_KEEP_ALIVE''"
  "variable_of ''otlp-endpoint'' ''MQTT_OTLP_ENDPOINT''" "variable_of ''otlp-protocol'' ''MQTT_OTLP_PROTOCOL''"
  "variable_of ''otlp-interval'' ''MQTT_OTLP_INTERVAL''" "variable_of ''otlp-metrics'' ''MQTT_OTLP_METRICS''"
  "variable_of ''otlp-logs'' ''MQTT_OTLP_LOGS''" "variable_of ''service-name'' ''MQTT_SERVICE_NAME''"
  "variable_of ''ha-discovery'' ''MQTT_HA_DISCOVERY''"
  "variable_of ''ha-discovery-prefix'' ''MQTT_HA_DISCOVERY_PREFIX''"
  by (simp_all add: variable_of_def ascii_lowercase_def lower_letters)

lemma mirrored_fields:
  assumes "mirrors A env" and "cli_parse A = Some cl"
  shows "cl_listen_addr cl = env_addr env ''MQTT_LISTEN_ADDR''"
    and "cl_admin_addr cl = env_addr env ''MQTT_ADMIN_ADDR''"
    and "cl_max_connections_per_ip cl = env_u32 env ''MQTT_MAX_CONNECTIONS_PER_IP''"
    and "cl_connection_rate_window_secs cl = env_u32 env ''MQTT_CONNECTION_RATE_WINDOW_SECS''"
    and "cl_tls_listen_addr cl = env_addr env ''MQTT_TLS_LISTEN_ADDR''"
    and "cl_tls_cert cl = non_empty_env env ''MQTT_TLS_CERT''"
    and "cl_tls_key cl = non_empty_env env ''MQTT_TLS_KEY''"
    and "cl_tls_client_ca cl = non_empty_env env ''MQTT_TLS_CLIENT_CA''"
    and "cl_ws_listen_addr cl = env_addr env ''MQTT_WS_LISTEN_ADDR''"
    and "cl_ws_tls_listen_addr cl = env_addr env ''MQTT_WS_TLS_LISTEN_ADDR''"
    and "cl_ws_tls_cert cl = non_empty_env env ''MQTT_WS_TLS_CERT''"
    and "cl_ws_tls_key cl = non_empty_env env ''MQTT_WS_TLS_KEY''"
    and "cl_ws_tls_client_ca cl = non_empty_env env ''MQTT_WS_TLS_CLIENT_CA''"
    and "cl_admin_tls_cert cl = non_empty_env env ''MQTT_ADMIN_TLS_CERT''"
    and "cl_admin_tls_key cl = non_empty_env env ''MQTT_ADMIN_TLS_KEY''"
    and "cl_admin_tls_client_ca cl = non_empty_env env ''MQTT_ADMIN_TLS_CLIENT_CA''"
    and "cl_admin_token cl = non_empty_env env ''MQTT_ADMIN_TOKEN''"
    and "cl_password_file cl = non_empty_env env ''MQTT_PASSWORD_FILE''"
    and "cl_allow_anonymous cl = env_bool env ''MQTT_ALLOW_ANONYMOUS''"
    and "cl_acl_file cl = non_empty_env env ''MQTT_ACL_FILE''"
    and "cl_db_path cl = non_empty_env env ''MQTT_DB_PATH''"
    and "cl_max_packet_size cl = env_u32 env ''MQTT_MAX_PACKET_SIZE''"
    and "cl_receive_maximum cl = env_u16 env ''MQTT_RECEIVE_MAXIMUM''"
    and "cl_max_session_expiry cl = env_u32 env ''MQTT_MAX_SESSION_EXPIRY''"
    and "cl_max_queued_messages cl = env_u32 env ''MQTT_MAX_QUEUED_MESSAGES''"
    and "cl_sys_interval cl = env_u32 env ''MQTT_SYS_INTERVAL''"
    and "cl_maximum_qos cl = Option.bind (non_empty_env env ''MQTT_MAXIMUM_QOS'') parse_qos_value"
    and "cl_retain_available cl = env_bool env ''MQTT_RETAIN_AVAILABLE''"
    and "cl_topic_alias_maximum cl = env_u16 env ''MQTT_TOPIC_ALIAS_MAXIMUM''"
    and "cl_server_keep_alive cl = env_u16 env ''MQTT_SERVER_KEEP_ALIVE''"
    and "cl_otlp_endpoint cl = non_empty_env env ''MQTT_OTLP_ENDPOINT''"
    and "cl_otlp_protocol cl = non_empty_env env ''MQTT_OTLP_PROTOCOL''"
    and "cl_otlp_interval cl = env_u32 env ''MQTT_OTLP_INTERVAL''"
    and "cl_otlp_metrics cl = env_bool env ''MQTT_OTLP_METRICS''"
    and "cl_otlp_logs cl = env_bool env ''MQTT_OTLP_LOGS''"
    and "cl_service_name cl = non_empty_env env ''MQTT_SERVICE_NAME''"
    and "cl_ha_discovery cl = env_bool env ''MQTT_HA_DISCOVERY''"
    and "cl_ha_discovery_prefix cl = non_empty_env env ''MQTT_HA_DISCOVERY_PREFIX''"
  by (rule mirrors_one [OF assms(1)], rule variables_of_flags, simp only: cli_parse_fields [OF assms(2)])+

text \<open>One option, two spellings. Whatever the environment sets can be said with flags to the same effect, provided the
  command line accepts it: a value the environment layer would ignore is a usage error.\<close>

lemma flags_mirror_environment:
  assumes "mirrors A env" and "cli_parse A = Some cl"
  shows "cli_apply cl c = apply_env env c"
proof -
  have "cli_headers cl = env_headers env"
    unfolding cli_headers_def by (rule mirrors_headers [OF assms(1)]) (simp only: cli_parse_fields [OF assms(2)])
  then show ?thesis by (simp add: cli_apply_def apply_env_def mirrored_fields [OF assms])
qed

text \<open>In the file an option has the name of its flag with underscores, as the help text says, with two exceptions: the
  headers, which are a table, and the policy file, whose key is \<^verbatim>\<open>acl_path\<close>; a file that says \<^verbatim>\<open>acl_file\<close> is
  rejected.\<close>

lemma acl_file_key_unknown: "unknown_key [(''acl_file'', v)] = Some ''acl_file''" "unknown_key [(''acl_path'', v)] = None"
  by (simp_all add: unknown_key_def KNOWN_KEYS_def)

end
