(* ===== verification/Durability.thy ===== *)
theory Durability
  imports System
begin

section \<open>Durability of retained messages\<close>

text \<open>
  What the memory of the broker and its database have to do with each other, over any run: every change of
  the retained messages is one of four moves, and each keeps the two in step. The database is what the
  writer makes of the log \<open>b_storage\<close>; its content is the \<open>store_view\<close> of the persistence component. Status
  messages of the broker itself are retained in memory only, and expired messages leave the memory before
  they leave the database.
\<close>

fun session_command :: "command \<Rightarrow> bool" where
  "session_command (UpsertRetained _ _) = False"
| "session_command (DeleteRetained _) = False"
| "session_command _ = True"

text \<open>Retained messages untouched, and nothing logged that concerns them.\<close>

definition keeps_retained :: "broker \<Rightarrow> broker \<Rightarrow> bool" where
  "keeps_retained b b' \<longleftrightarrow> b_retained b' = b_retained b
     \<and> (\<exists>cs. b_storage b' = b_storage b @ cs \<and> list_all session_command cs)"

lemma keeps_retained_refl [simp]: "keeps_retained b b"
  by (simp add: keeps_retained_def)

lemma keeps_retained_trans [trans]: "keeps_retained a b \<Longrightarrow> keeps_retained b c \<Longrightarrow> keeps_retained a c"
  by (auto simp: keeps_retained_def)

lemma keeps_retained_same: "b_retained b' = b_retained b \<Longrightarrow> b_storage b' = b_storage b \<Longrightarrow> keeps_retained b b'"
  by (simp add: keeps_retained_def)

lemma keeps_retained_log:
  "b_retained b' = b_retained b \<Longrightarrow> b_storage b' = b_storage b @ cs \<Longrightarrow> list_all session_command cs \<Longrightarrow> keeps_retained b b'"
  by (auto simp: keeps_retained_def)

lemma store_log: "b_storage (store c b) = b_storage b @ [c]" "b_retained (store c b) = b_retained b"
  by (simp_all add: store_def)

lemma keeps_store: "session_command c \<Longrightarrow> keeps_retained b b' \<Longrightarrow> keeps_retained b (store c b')"
  by (auto simp: keeps_retained_def store_log)

inductive retained_move :: "broker \<Rightarrow> broker \<Rightarrow> bool" where
  move_quiet: "keeps_retained b b' \<Longrightarrow> retained_move b b'"
| move_store: "m_retain m \<Longrightarrow> b_retained b' = b_retained (store_retained (m_topic m) m b) \<Longrightarrow>
    b_storage b' = b_storage (store_retained (m_topic m) m b) \<Longrightarrow> retained_move b b'"
| move_status: "b_retained b' = hm_insert t (sys_message t p) (b_retained b) \<Longrightarrow> b_storage b' = b_storage b \<Longrightarrow>
    retained_move b b'"
| move_purge: "b_retained b' = filter (\<lambda>(_, m). \<not> is_expired now m) (b_retained b) \<Longrightarrow>
    b_storage b' = b_storage b \<Longrightarrow> retained_move b b'"

definition retained_moves :: "broker \<Rightarrow> broker \<Rightarrow> bool" where
  "retained_moves = retained_move\<^sup>*\<^sup>*"

lemma moves_refl [simp]: "retained_moves b b"
  by (simp add: retained_moves_def)

lemma moves_trans [trans]: "retained_moves a b \<Longrightarrow> retained_moves b c \<Longrightarrow> retained_moves a c"
  by (simp add: retained_moves_def)

lemma moves_quiet: "keeps_retained b b' \<Longrightarrow> retained_moves b b'"
  by (simp add: retained_moves_def move_quiet r_into_rtranclp)

lemma moves_store: "m_retain m \<Longrightarrow> retained_moves b (store_retained (m_topic m) m b)"
  by (simp add: retained_moves_def move_store r_into_rtranclp)

subsection \<open>Every step is made of these moves\<close>

lemma keeps_update [simp]: "keeps_retained b (update_session c f b)"
  by (rule keeps_retained_same) (simp_all add: update_session_def split: option.split)

lemma keeps_send_to [simp]: "keeps_retained b (send_to c x b)"
  by (simp add: send_to_def)

lemma keeps_route [simp]: "keeps_retained b (snd (route P now who m b))"
  by (rule keeps_retained_same) simp_all

lemma keeps_sessions [simp]: "keeps_retained b (b\<lparr>b_sessions := ss\<rparr>)" "keeps_retained b (b\<lparr>b_metrics := mx\<rparr>)"
  "keeps_retained b (count_dropped d b)" "keeps_retained b (spawn t b)"
  by (rule keeps_retained_same; simp)+

lemma keeps_expiry: "keeps_retained b (update_expiry c x b)"
  by (simp add: update_expiry_def Let_def keeps_store split: option.split)

lemma keeps_metrics [simp]: "keeps_retained b (b'\<lparr>b_metrics := mx\<rparr>) = keeps_retained b b'"
  by (simp add: keeps_retained_def)

lemma keeps_idle: "keeps_retained b (remove_if_idle c e b)"
  by (simp add: remove_if_idle_def Let_def keeps_store split: option.split)

lemma keeps_closed: "keeps_retained b (handle_connection_closed c e w b)"
proof -
  have will: "keeps_retained b (case x of None \<Rightarrow> b\<lparr>b_sessions := ss\<rparr>
      | Some (m, delay, owner) \<Rightarrow> schedule_will c e m delay owner (b\<lparr>b_sessions := ss\<rparr>))" for x ss
    by (rule keeps_retained_same) (simp_all add: schedule_will_def split: option.split)
  show ?thesis
    using keeps_retained_trans [OF will keeps_idle] keeps_retained_trans [OF will keeps_sessions(4)]
    by (simp add: handle_connection_closed_def Let_def case_prod_beta split: option.split)
qed

lemma keeps_add_filter: "keeps_retained b (snd (add_filter c sid f parsed s b))"
  by (simp add: add_filter_def Let_def case_prod_beta keeps_store)

lemma keeps_subscribe_loop: "keeps_retained b (snd (subscribe_loop P now c who sid fs b))"
proof (induction fs arbitrary: b)
  case (Cons f fs)
  show ?case
  proof (cases "check_filter P (b_acl b) who f")
    case (Inl rc)
    with Cons [of b] show ?thesis by (auto split: prod.split option.split)
  next
    case (Inr parsed)
    show ?thesis
    proof (cases "get_session c b")
      case None
      with Inr show ?thesis by simp
    next
      case (Some s)
      obtain existed b2 where a: "add_filter c sid f parsed s b = (existed, b2)" by force
      have "keeps_retained b b2" using keeps_add_filter [of b c sid f parsed s] a by simp
      from keeps_retained_trans [OF this Cons [of b2]] Inr Some a show ?thesis
        by (auto simp: Let_def split: prod.split option.split)
    qed
  qed
qed simp

lemma deliver_retained_kept: "b_retained (fst (deliver_retained P now c send b d)) = b_retained b"
  by (induction P now c send b d rule: deliver_retained.induct) (simp_all add: case_prod_beta Let_def split: option.split)

lemma keeps_subscribe: "keeps_retained b (snd (handle_subscribe P now c e sub b))"
proof -
  have tail: "keeps_retained b1 (count_dropped d (fst (deliver_retained P now c send (send_to c x b1) n)))" for b1 d send x n
    by (rule keeps_retained_same) (simp_all add: deliver_retained_kept deliver_retained_storage)
  show ?thesis
  proof (cases "get_session c b")
    case (Some s)
    obtain r b1 where l: "subscribe_loop P now c (who_of (ss_identity s))
        (case pr_subscription_identifiers (sb_properties sub) of [] \<Rightarrow> None | i # _ \<Rightarrow> Some i) (sb_filters sub) b = (r, b1)"
      by force
    have "keeps_retained b b1" using keeps_subscribe_loop [of b P now c] l by (metis snd_conv)
    from this keeps_retained_trans [OF this tail] Some l show ?thesis
      by (simp add: handle_subscribe_def Let_def case_prod_beta split: option.split)
  qed (simp add: handle_subscribe_def Let_def)
qed

lemma keeps_unsubscribe_loop: "keeps_retained b (snd (unsubscribe_loop P c fs b))"
proof (induction fs arbitrary: b)
  case (Cons flt fs)
  obtain share match where sm: "(case parse_filter P flt of Some p \<Rightarrow> p | None \<Rightarrow> (None, flt)) = (share, match)" by force
  show ?case
  proof (cases "get_session c b")
    case None
    with Cons [of b] sm show ?thesis by (simp add: case_prod_beta Let_def)
  next
    case (Some s)
    have one: "keeps_retained b (if x then store (DeleteSubscription c flt) (b\<lparr>b_sessions := ss\<rparr>) else b\<lparr>b_sessions := ss\<rparr>)" for x ss
      by (simp add: keeps_store)
    from keeps_retained_trans [OF one Cons] Some sm show ?thesis by (simp add: case_prod_beta Let_def)
  qed
qed simp

lemma keeps_unsubscribe: "keeps_retained b (snd (handle_unsubscribe P c e u b))"
  using keeps_retained_trans [OF keeps_unsubscribe_loop keeps_send_to]
  by (simp add: handle_unsubscribe_def case_prod_beta split: option.split)

lemma keeps_ack: "keeps_retained b (snd (on_ack c e f b))"
  by (rule keeps_retained_same) (simp_all add: on_ack_def case_prod_beta split: option.split)

lemma keeps_disconnect: "keeps_retained b (snd (handle_client_disconnect c e d b))"
  by (simp add: handle_client_disconnect_def keeps_expiry split: option.split)

lemma moves_retained_then_route:
  "retained_moves b (snd (route P now who m (if m_retain m then store_retained (m_topic m) m b else b)))"
  using moves_trans [OF moves_store moves_quiet [OF keeps_route]] by (simp add: moves_quiet)

lemma keeps_route_publish: "keeps_retained b (snd (route_publish P now c p m b))"
  by (rule keeps_retained_same)
    (simp_all add: route_publish_def Let_def case_prod_beta split: qos.split option.split)

lemma moves_accept: "retained_moves b (snd (accept_publish P now c p b))"
proof -
  have m: "m_retain (from_publish now p) = pub_retain p" "m_topic (from_publish now p) = pub_topic p" by simp_all
  have "retained_moves b (if pub_retain p then store_retained (pub_topic p) (from_publish now p) b else b)"
    using moves_store [of "from_publish now p" b] by (simp add: m)
  from moves_trans [OF this moves_quiet [OF keeps_route_publish]] show ?thesis
    by (simp add: accept_publish_def Let_def)
qed

lemma keeps_refuse: "keeps_retained b (refuse_publish c p b)"
  by (simp add: refuse_publish_def split: qos.split)

lemma moves_authorize: "retained_moves b (snd (authorize_publish P now c p b))"
  by (simp add: authorize_publish_def Let_def moves_accept moves_quiet keeps_refuse)

lemma moves_publish: "retained_moves b (snd (handle_publish P now c e p b))"
proof -
  let ?b = "b\<lparr>b_metrics := (b_metrics b)\<lparr>mx_publish_received := mx_publish_received (b_metrics b) + 1\<rparr>\<rparr>"
  have q: "retained_moves b ?b" by (rule moves_quiet) simp
  have "retained_moves b (snd (authorize_publish P now c p' b'))" if "resolve_alias c s p ?b = Inr (p', b')" for s p' b'
  proof -
    have "keeps_retained ?b b'"
      using that by (auto simp: resolve_alias_def split: option.splits if_splits)
    from moves_trans [OF moves_trans [OF q moves_quiet [OF this]] moves_authorize] show ?thesis .
  qed
  with q show ?thesis by (simp add: handle_publish_def Let_def split: option.split sum.split)
qed

lemma moves_dispatch: "retained_moves b (snd (dispatch_packet P now c e p b))"
  by (cases p) (simp_all add: dispatch_packet_def moves_publish moves_quiet keeps_ack ack_handler_defs keeps_subscribe
      keeps_unsubscribe keeps_disconnect push_control_send_to)

lemma moves_packet: "retained_moves b (snd (handle_packet P now c e p b))"
  by (simp add: handle_packet_def moves_dispatch split: option.split)

lemma moves_task: "retained_moves b (snd (run_task P now t b))"
  by (cases t) (simp_all add: fire_will_def moves_retained_then_route moves_quiet keeps_idle)

lemma moves_inject: "retained_moves b (inject_publish P now from m b)"
  by (simp add: inject_publish_def moves_retained_then_route)

lemma moves_sys: "retained_moves b (publish_sys P now es b)"
proof (induction es arbitrary: b)
  case (Cons e es)
  obtain t p where e: "e = (t, p)" by force
  have "retained_move b (b\<lparr>b_retained := hm_insert t (sys_message t p) (b_retained b)\<rparr>)" by (rule move_status) simp_all
  then have "retained_moves b (b\<lparr>b_retained := hm_insert t (sys_message t p) (b_retained b)\<rparr>)"
    by (simp add: retained_moves_def r_into_rtranclp)
  from moves_trans [OF moves_trans [OF this moves_quiet [OF keeps_route]] Cons] show ?case by (simp add: e)
qed simp

lemma moves_snapshot: "retained_moves b (snd (broker_snapshot now uptime version b))"
proof -
  have "retained_move b (purge_retained now b)" by (rule move_purge) (simp_all add: purge_retained_def)
  then show ?thesis by (simp add: snapshot_broker retained_moves_def r_into_rtranclp)
qed

lemma keeps_detach: "keeps_retained b (detach c b)"
  by (rule keeps_retained_same) (simp_all add: detach_def split: option.split)

lemma keeps_take_over: "keeps_retained b (snd (take_over cn c identity b))"
proof -
  have "keeps_retained b (update_session c wipe (detach c b))"
    by (rule keeps_retained_trans [OF keeps_detach [of b c]]) simp
  moreover have "keeps_retained b (detach c b\<lparr>b_sessions := ss\<rparr>)" for ss
    by (rule keeps_retained_trans [OF keeps_detach [of b c]]) simp
  ultimately show ?thesis
    by (simp add: take_over_def Let_def keeps_store keeps_detach split: option.split)
qed

lemma keeps_reauthorize: "keeps_retained b (snd (reauthorize P present c s b))"
  by (rule keeps_retained_log [where cs = "if present \<and> ss_subscriptions s \<noteq> [] \<and> acl_enforced (b_acl b)
        \<and> ss_persistent s
      then map (\<lambda>x. DeleteSubscription c (stored_key x)) (revoked P (b_acl b) (who_of (ss_identity s)) s) else []"])
    (auto simp: reauthorize_def Let_def prune_def store_all_frame list_all_iff)

lemma keeps_bind: "keeps_retained b (snd (bind_connection P now v cn out identity c assigned b))"
proof -
  let ?b1 = "b\<lparr>b_next_epoch := b_next_epoch b + 1\<rparr>"
  have b1: "keeps_retained b ?b1" by (rule keeps_retained_same) simp_all
  have "keeps_retained b (snd (reauthorize P present c s (snd (take_over cn c identity ?b1))))" for present s
    by (rule keeps_retained_trans [OF keeps_retained_trans [OF b1 keeps_take_over] keeps_reauthorize])
  then have "keeps_retained b (if x then store (UpsertSession c e i) (snd (reauthorize P present c s (snd (take_over cn c identity ?b1))))
      else snd (reauthorize P present c s (snd (take_over cn c identity ?b1))))" for x e i present s
    by (simp add: keeps_store)
  from keeps_retained_trans [OF this keeps_sessions(1)] show ?thesis
    by (simp add: bind_connection_def Let_def case_prod_beta count_connected_def count_dropped_def)
qed

lemma keeps_connect: "keeps_retained b (snd (handle_connect P kdf now cn out identity b))"
proof -
  have r: "keeps_retained b (snd (resolve_client_id now cn b))"
    by (rule keeps_retained_same) (simp_all add: resolve_client_id_def)
  from keeps_retained_trans [OF r keeps_bind] r show ?thesis
    by (simp add: handle_connect_def Let_def case_prod_beta split: sum.split)
qed

lemma keeps_reload: "keeps_retained b (snd (reload_acl P read_file toml b))"
proof -
  have "list_all session_command (concat (map (\<lambda>(_, s). snd (revoke_session P a s)) ss))" for a ss
    by (induction ss) (auto simp: revoke_session_def Let_def list_all_iff)
  then have "keeps_retained b (revoke_unauthorized_subscriptions P a (swap_acl a b))" for a
    by (auto simp: revoke_unauthorized_subscriptions_def swap_acl_def keeps_retained_def)
  then show ?thesis by (simp add: reload_acl_def split: option.split sum.split)
qed

lemma keeps_bridge:
  "keeps_retained b (snd (register_bridge c out b))" "keeps_retained b (bridge_add_subscription c flt nl b)"
  "keeps_retained b (deregister_bridge c e b)"
  by (rule keeps_retained_same; simp add: register_bridge_def Let_def bridge_add_subscription_def deregister_bridge_def)+

lemma step_moves:
  assumes "step P kdf b b'"
  shows "retained_moves b b'"
  using assms
proof cases
  case (step_task ts1 t ts2 now rest b'')
  have "retained_moves b (b\<lparr>b_tasks := ts1 @ ts2\<rparr>)" by (rule moves_quiet, rule keeps_retained_same) simp_all
  also have "retained_moves (b\<lparr>b_tasks := ts1 @ ts2\<rparr>) b''" using moves_task [of "b\<lparr>b_tasks := ts1 @ ts2\<rparr>" P now t] step_task by simp
  also have "retained_moves b'' b'" unfolding step_task by (rule moves_quiet, rule keeps_retained_same) simp_all
  finally show ?thesis .
next
  case (step_accounting mx rl chans)
  then show ?thesis by (intro moves_quiet keeps_retained_same) simp_all
qed (simp_all only: moves_quiet keeps_connect moves_packet moves_dispatch keeps_expiry keeps_closed keeps_idle
    keeps_bridge moves_inject moves_sys moves_snapshot keeps_reload keeps_update)

lemma runs_moves: "runs P kdf n b b' \<Longrightarrow> retained_moves b b'"
  by (induction rule: runs.induct) (auto intro: moves_trans step_moves)

subsection \<open>Memory and database stay in step\<close>

definition in_step :: "store_view \<Rightarrow> broker \<Rightarrow> bool" where
  "in_step v b \<longleftrightarrow>
     (\<forall>t. let memory = hm_get t (b_retained b); disk = sv_retained (fold replay (b_storage b) v) t
          in memory = disk \<or> (\<exists>p. memory = Some (sys_message t p))
             \<or> memory = None \<and> (\<exists>m. disk = Some m \<and> m_expires_at m \<noteq> None))"

lemma replay_session_command: "session_command c \<Longrightarrow> sv_retained (replay c v) = sv_retained v"
  by (cases c) (simp_all add: with_subs_def)

lemma replay_session_commands: "list_all session_command cs \<Longrightarrow> sv_retained (fold replay cs v) = sv_retained v"
  by (induction cs arbitrary: v) (simp_all add: replay_session_command)

lemma expired_has_expiry: "is_expired now m \<Longrightarrow> m_expires_at m \<noteq> None"
  by (auto simp: is_expired_iff)

text \<open>The invariant about retained messages makes a purge a removal.\<close>

lemma purge_in_step:
  assumes "in_step v b" and "hm_wf (b_retained b)"
    and "b_retained b' = filter (\<lambda>(_, m). \<not> is_expired now m) (b_retained b)" and "b_storage b' = b_storage b"
  shows "in_step v b'"
  unfolding in_step_def Let_def
proof
  fix t
  let ?disk = "sv_retained (fold replay (b_storage b) v) t" and ?old = "hm_get t (b_retained b)"
  have get: "hm_get t (b_retained b') = (case ?old of None \<Rightarrow> None | Some m \<Rightarrow> if is_expired now m then None else Some m)"
    using hm_get_filter [OF assms(2), of t "\<lambda>_ m. \<not> is_expired now m"] assms(3) by (simp split: option.splits)
  have live: "\<not> is_expired now (sys_message t p)" for p by (simp add: is_expired_iff sys_message_def)
  from assms(1) have old: "?old = ?disk \<or> (\<exists>p. ?old = Some (sys_message t p))
      \<or> ?old = None \<and> (\<exists>m. ?disk = Some m \<and> m_expires_at m \<noteq> None)"
    unfolding in_step_def Let_def by blast
  show "hm_get t (b_retained b') = sv_retained (fold replay (b_storage b') v) t
      \<or> (\<exists>p. hm_get t (b_retained b') = Some (sys_message t p))
      \<or> hm_get t (b_retained b') = None
        \<and> (\<exists>m. sv_retained (fold replay (b_storage b') v) t = Some m \<and> m_expires_at m \<noteq> None)"
  proof (cases "\<exists>m. ?old = Some m \<and> is_expired now m")
    case True
    then obtain m where m: "?old = Some m" "is_expired now m" by blast
    with old live have "?disk = Some m" by auto
    with m expired_has_expiry [OF m(2)] show ?thesis by (simp add: get assms(4))
  next
    case False
    then have "hm_get t (b_retained b') = ?old" by (auto simp: get split: option.splits)
    with old show ?thesis by (simp only: assms(4))
  qed
qed

lemma retained_move_in_step:
  assumes "retained_move b b'" and "in_step v b" and "hm_wf (b_retained b)"
  shows "in_step v b' \<and> hm_wf (b_retained b')"
  using assms(1)
proof cases
  case move_quiet
  then obtain cs where "b_retained b' = b_retained b" "b_storage b' = b_storage b @ cs" "list_all session_command cs"
    by (auto simp: keeps_retained_def)
  with assms(2,3) show ?thesis by (simp add: in_step_def replay_session_commands)
next
  case (move_store m)
  have "m\<lparr>m_topic := m_topic m, m_retain := True\<rparr> = m" using move_store(1) by simp
  with move_store assms(2,3) show ?thesis by (auto simp: in_step_def Let_def store_retained_def store_log)
next
  case (move_status t p)
  with assms(2,3) show ?thesis by (auto simp: in_step_def Let_def)
next
  case (move_purge now)
  with purge_in_step [OF assms(2,3)] assms(3) show ?thesis by simp
qed

lemma moves_in_step:
  assumes "retained_moves b b'" and "in_step v b" and "hm_wf (b_retained b)"
  shows "in_step v b'"
proof -
  from assms(1) have "in_step v b' \<and> hm_wf (b_retained b')"
    unfolding retained_moves_def
    by (induction rule: rtranclp_induct) (use assms(2,3) retained_move_in_step in blast)+
  then show ?thesis ..
qed

subsection \<open>Restart\<close>

lemma collected_get:
  "hm_wf xs \<Longrightarrow> hm_get t (foldl (\<lambda>m (t, msg). hm_insert t msg m) m xs) =
     (case hm_get t xs of None \<Rightarrow> hm_get t m | Some v \<Rightarrow> Some v)"
proof (induction xs arbitrary: m)
  case (Cons x xs)
  obtain k v where x: "x = (k, v)" by force
  from Cons.prems have "hm_wf xs" and "k \<notin> fst ` set xs" by (simp_all add: hm_wf_def x)
  moreover from this(2) have "hm_get k xs = None" by (simp add: hm_get_None_iff)
  ultimately show ?case using Cons.IH by (auto simp: x hm_get_Cons split: option.split)
qed simp

lemma ld_retained_wf: "db_ok d \<Longrightarrow> hm_wf (ld_retained (load_all C now d))"
  by (simp add: load_all_def db_ok_def hm_map_def [symmetric])

lemma started_retained:
  "db_ok d \<Longrightarrow> hm_get t (b_retained (broker_new P cfg (load_all C now d) a auth)) =
     (case sv_retained (view_of C d) t of None \<Rightarrow> None | Some m \<Rightarrow> if is_expired now m then None else Some m)"
  by (simp add: broker_new_def collected_get ld_retained_wf load_retained_get split: option.split)

lemma started_in_step:
  "db_ok d \<Longrightarrow> in_step (view_of C d) (broker_new P cfg (load_all C now d) a auth)"
proof -
  assume d: "db_ok d"
  have "b_storage (broker_new P cfg (load_all C now d) a auth) = []" by (simp add: broker_new_def)
  then show ?thesis
    unfolding in_step_def Let_def started_retained [OF d] by (auto dest: expired_has_expiry split: option.split)
qed



subsection \<open>Subscriptions that are not stored\<close>

text \<open>
  The same does not hold of subscriptions. A CONNECT that takes over a session and asks for a session expiry makes
  the session durable and keeps its subscriptions, but logs only the session itself: subscriptions made
  while the session was not durable are never written, and a restart forgets them.
\<close>

lemma durable_takeover_stores_no_subscriptions:
  assumes "\<not> cn_clean_start cn" and "get_session c b = Some old" and "\<not> identity_changed (ss_identity old) identity"
    and "\<not> acl_enforced (b_acl b)" and "0 < requested_expiry (b_config b) v cn"
  shows "\<exists>s. get_session c (snd (bind_connection P now v cn out identity c False b)) = Some s
      \<and> ss_persistent s \<and> ss_subscriptions s = ss_subscriptions old"
    and "b_storage (snd (bind_connection P now v cn out identity c False b)) =
      b_storage b @ [UpsertSession c (requested_expiry (b_config b) v cn) identity]"
proof -
  have "ss_persistent (connected_session P now v cn out identity c False b)"
    "ss_subscriptions (connected_session P now v cn out identity c False b) = ss_subscriptions old"
    using assms by (simp_all add: connected_session_def Let_def reauthorize_def fresh_or_old_def old_session_def bind_session_def)
  then show "\<exists>s. get_session c (snd (bind_connection P now v cn out identity c False b)) = Some s
      \<and> ss_persistent s \<and> ss_subscriptions s = ss_subscriptions old"
    by (simp add: bind_connection_sessions same_conn_fields [OF resumed_conn])
  have "b_storage (snd (take_over cn c identity b')) = b_storage b" "b_acl (snd (take_over cn c identity b')) = b_acl b"
    if "get_session c b' = Some old" "b_storage b' = b_storage b" "b_acl b' = b_acl b" for b'
    using assms that by (simp_all add: take_over_def Let_def detach_def split: option.split)
  then show "b_storage (snd (bind_connection P now v cn out identity c False b)) =
      b_storage b @ [UpsertSession c (requested_expiry (b_config b) v cn) identity]"
    using assms by (simp add: bind_connection_def Let_def case_prod_beta count_connected_def store_log reauthorize_def)
qed

end
