(* ===== verification/Startup.thy ===== *)
theory Startup
  imports Listeners Telemetry Command_Line Durability
begin

section \<open>The process\<close>

text \<open>
  \<^verbatim>\<open>src/src/main.rs\<close>: what the process does from its arguments to the running services, in the order of the
  source, every failure on the way included. The outside is the record \<open>outside\<close>: environment, file system, the
  TOML parser, the database file, standard input, random salts, the SDK's exporters, TLS and sockets.
  A process that starts is the record \<open>process\<close>: the broker, the telemetry and the listeners; from then on it
  is the server of the connection tasks. Bridges, the status publisher, the sweeps of the rate limiter and
  the reload on SIGHUP are its background steps.
\<close>

record outside =
  os_env :: "string \<Rightarrow> string option"
  os_is_file :: "string \<Rightarrow> bool"
  os_read_file :: "string \<Rightarrow> string + string"
  os_toml :: "string \<Rightarrow> string + json"
  os_sqlite :: sqlite
  os_stdin :: "string + string"
  os_salt :: bytes
  os_log_exporter :: "pipeline \<Rightarrow> string option"
  os_metric_exporter :: "pipeline \<Rightarrow> string option"
  os_tls :: tls_lib
  os_bind :: "socket_addr \<Rightarrow> string option"
  os_clock :: nat
  os_now :: u64

record process =
  ps_broker :: broker
  ps_telemetry :: telemetry
  ps_log_filter :: "(string \<Rightarrow> bool) option"
  ps_cache :: "snapshot_cache option"
  ps_admin :: listener
  ps_mqtt :: listener
  ps_ws :: listener
  ps_tls :: listener
  ps_ws_tls :: listener
  ps_bridges :: "bridge_config list"

datatype start_error =
    Bad_configuration config_failure
  | Bad_telemetry telemetry_error
  | No_database mqtt_error
  | Bad_acl load_error
  | Bad_credentials auth_error
  | No_password string

datatype outcome = Failed start_error | Printed string | Started process

subsection \<open>Hashing a password\<close>

text \<open>\<^verbatim>\<open>str::trim_end_matches(['\r', '\n'])\<close>.\<close>

definition trim_line_end :: "string \<Rightarrow> string" where
  "trim_line_end s = rev (dropWhile (\<lambda>c. c = CHR 0x0D \<or> c = CHR 0x0A) (rev s))"

definition hash_password_cmd :: "outside \<Rightarrow> pbkdf2_derive \<Rightarrow> string option \<Rightarrow> outcome" where
  "hash_password_cmd W derive username =
     (case (case os_env W ''MQTT_HASH_PASSWORD'' of
              Some p \<Rightarrow> Inr p
            | None \<Rightarrow> map_sum id trim_line_end (os_stdin W)) of
        Inl e \<Rightarrow> Failed (No_password e)
      | Inr password \<Rightarrow>
          (case username of
             Some user \<Rightarrow> Printed (format_entry derive (os_salt W) user (bytes_of password))
           | None \<Rightarrow> Printed (hash_password derive (os_salt W) (bytes_of password))))"

subsection \<open>Starting\<close>

definition load_policy :: "protocol \<Rightarrow> outside \<Rightarrow> config \<Rightarrow> load_error + acl" where
  "load_policy P W cfg =
     (case cfg_acl_path cfg of
        Some path \<Rightarrow> acl_load P (os_read_file W) (os_toml W) path
      | None \<Rightarrow> Inr permit_all)"

definition load_credentials :: "outside \<Rightarrow> config \<Rightarrow> auth_error + credentials option" where
  "load_credentials W cfg =
     (case cfg_password_file cfg of
        Some path \<Rightarrow> map_sum id Some (credentials_load (os_read_file W) path)
      | None \<Rightarrow> Inr None)"

text \<open>The services, for a broker that has its telemetry. A listener that cannot start leaves the others up.\<close>

definition spawn_services ::
    "outside \<Rightarrow> telemetry \<Rightarrow> (string \<Rightarrow> bool) option \<Rightarrow> snapshot_cache option \<Rightarrow> broker \<Rightarrow> process" where
  "spawn_services W tel log_filter cache b =
     (let cfg = b_config b
      in \<lparr>ps_broker = b, ps_telemetry = tel, ps_log_filter = log_filter, ps_cache = cache,
          ps_admin = run_admin (os_tls W) (os_bind W) cfg, ps_mqtt = run_mqtt (os_bind W) cfg,
          ps_ws = run_ws (os_bind W) cfg, ps_tls = run_tls (os_tls W) (os_bind W) cfg,
          ps_ws_tls = run_ws_tls (os_tls W) (os_bind W) cfg, ps_bridges = cfg_bridges cfg\<rparr>)"

definition main_process :: "protocol \<Rightarrow> codec \<Rightarrow> pbkdf2_derive \<Rightarrow> string \<Rightarrow> outside \<Rightarrow> cli \<Rightarrow> outcome" where
  "main_process P C derive version W cl =
     (case from_cli P (os_env W) (os_is_file W) (os_read_file W) (os_toml W) cl of
        Inl e \<Rightarrow> Failed (Bad_configuration e)
      | Inr (HashPassword user) \<Rightarrow> hash_password_cmd W derive user
      | Inr (Run cfg) \<Rightarrow>
     (case install (os_log_exporter W) version cfg of
        Inl e \<Rightarrow> Failed (Bad_telemetry e)
      | Inr (log_filter, tel) \<Rightarrow>
     (case storage_open (os_sqlite W) C (os_now W) (cfg_db_path cfg) of
        Inl e \<Rightarrow> Failed (No_database e)
      | Inr (d, loaded) \<Rightarrow>
     (case load_policy P W cfg of
        Inl e \<Rightarrow> Failed (Bad_acl e)
      | Inr a \<Rightarrow>
     (case load_credentials W cfg of
        Inl e \<Rightarrow> Failed (Bad_credentials e)
      | Inr creds \<Rightarrow>
          let b = broker_new P cfg loaded a creds
          in (case install_metrics (os_metric_exporter W) (os_clock W) (os_now W) 0 version cfg tel b of
                (Inl e, _) \<Rightarrow> Failed (Bad_telemetry e)
              | (Inr (tel', cache), b') \<Rightarrow> Started (spawn_services W tel' log_filter cache b')))))))"

text \<open>With the arguments still to be read: a usage error (\<open>None\<close>) ends the process before anything else.\<close>

definition main_program :: "protocol \<Rightarrow> codec \<Rightarrow> pbkdf2_derive \<Rightarrow> string \<Rightarrow> outside \<Rightarrow> arguments \<Rightarrow> outcome option" where
  "main_program P C derive version W A = map_option (main_process P C derive version W) (cli_parse A)"

text \<open>The end: on a signal the last telemetry batch is flushed; the result are the warnings logged.\<close>

definition main_shutdown :: "(pipeline \<Rightarrow> string option) \<Rightarrow> process \<Rightarrow> string list" where
  "main_shutdown flush ps = telemetry_shutdown flush (ps_telemetry ps)"

subsection \<open>The broker that is started\<close>

lemma install_metrics_broker:
  "snd (install_metrics build clock now uptime version cfg tel b) \<in> {b, purge_retained now (purge_retained now b)}"
  by (simp add: install_metrics_def cache_new_def cache_read_def case_prod_beta Let_def split: option.split)

lemma started_cases:
  assumes "main_process P C derive version W cl = Started ps"
  obtains cfg d a creds tel' log_filter cache where
    "from_cli P (os_env W) (os_is_file W) (os_read_file W) (os_toml W) cl = Inr (Run cfg)"
    "storage_open (os_sqlite W) C (os_now W) (cfg_db_path cfg) = Inr (d, load_all C (os_now W) d)" "load_policy P W cfg = Inr a" "load_credentials W cfg = Inr creds"
    "ps_broker ps \<in> {broker_new P cfg (load_all C (os_now W) d) a creds,
       purge_retained (os_now W) (purge_retained (os_now W) (broker_new P cfg (load_all C (os_now W) d) a creds))}"
    "ps = spawn_services W tel' log_filter cache (ps_broker ps)"
proof -
  from assms obtain cfg log_filter tel d ld a creds r b' where r:
    "from_cli P (os_env W) (os_is_file W) (os_read_file W) (os_toml W) cl = Inr (Run cfg)"
    "load_policy P W cfg = Inr a" "load_credentials W cfg = Inr creds"
    and db: "storage_open (os_sqlite W) C (os_now W) (cfg_db_path cfg) = Inr (d, ld)"
    and i: "install_metrics (os_metric_exporter W) (os_clock W) (os_now W) 0 version cfg tel
        (broker_new P cfg ld a creds) = (Inr r, b')"
    and ps: "ps = spawn_services W (fst r) log_filter (snd r) b'"
    by (auto simp: main_process_def Let_def hash_password_cmd_def split: sum.splits startup.splits prod.splits option.splits)
  note i = i [unfolded storage_open_loaded [OF db]] and db = db [unfolded storage_open_loaded [OF db]]
  from ps have "ps_broker ps = b'" by (simp add: spawn_services_def Let_def)
  with install_metrics_broker [of "os_metric_exporter W" "os_clock W" "os_now W" 0 version cfg tel
      "broker_new P cfg (load_all C (os_now W) d) a creds"] i ps r db that show thesis by simp
qed

lemma broker_new_fields:
  "b_config (broker_new P cfg ld a creds) = cfg" "b_acl (broker_new P cfg ld a creds) = a"
  "b_auth (broker_new P cfg ld a creds) = creds"
  by (simp_all add: broker_new_def)

lemma started_reachable:
  assumes "b \<in> {broker_new P cfg (load_all C now d) a creds,
      purge_retained now (purge_retained now (broker_new P cfg (load_all C now d) a creds))}"
  shows "\<exists>n \<le> 2. server_reachable P kdf n \<lparr>sv_broker = b, sv_conns = []\<rparr>"
proof -
  let ?fresh = "broker_new P cfg (load_all C now d) a creds"
  have start: "server_reachable P kdf 0 \<lparr>sv_broker = ?fresh, sv_conns = []\<rparr>" by (intro server_init init.intros)
  have "server_step P kdf \<lparr>sv_broker = x, sv_conns = []\<rparr> \<lparr>sv_broker = purge_retained now x, sv_conns = []\<rparr>" for x
    using server_step.other [OF bg_snapshot [of P x now 0 "[]"], of kdf "[]"] by simp
  with start have "server_reachable P kdf 2 \<lparr>sv_broker = purge_retained now (purge_retained now ?fresh), sv_conns = []\<rparr>"
    unfolding numeral_2_eq_2 by (blast intro: server_next)
  with start assms show ?thesis by auto
qed

lemma from_cli_validated:
  "from_cli P env is_file read_file toml cl = Inr (Run cfg) \<Longrightarrow> validate cfg = None"
  by (auto simp: from_cli_def Let_def split: option.splits sum.splits)


definition demo_outside :: outside where
  "demo_outside =
     \<lparr>os_env = (\<lambda>_. None), os_is_file = (\<lambda>_. False), os_read_file = (\<lambda>_. Inr ''x''), os_toml = (\<lambda>_. Inr demo_policy),
      os_sqlite = \<lparr>sq_connect = (\<lambda>_. Inr (file_of db_empty)), sq_pragmas = None, sq_migrate = None, sq_load = None, sq_spawn = None\<rparr>,
      os_stdin = Inr [], os_salt = [1], os_log_exporter = (\<lambda>_. None),
      os_metric_exporter = (\<lambda>_. None), os_tls = demo_tls, os_bind = (\<lambda>_. None), os_clock = 0, os_now = 0\<rparr>"


text \<open>What \<^verbatim>\<open>--hash-password user\<close> prints is a line of a password file that loads, and lets exactly that password
  in, without the line break it was typed with.\<close>

lemma hashed_password_verifies:
  assumes "os_env W ''MQTT_HASH_PASSWORD'' = None" and "os_stdin W = Inr typed"
    and "account_ok derive (user, os_salt W, bytes_of (trim_line_end typed))"
    and "hash_password_cmd W derive (Some user) = Printed line"
  shows "parse_entry line = Inr (user, stored_of derive (os_salt W, bytes_of (trim_line_end typed)))"
  using assms by (auto simp: hash_password_cmd_def account_ok_def stored_of_def parse_format_entry)

end
