(* ===== verification/Admin.thy ===== *)
theory Admin
  imports Exposition
begin

section \<open>The administration endpoint\<close>

text \<open>
  \<^verbatim>\<open>src/src/admin.rs\<close>: one HTTP request per connection, read with a bound on its size, checked against
  the bearer token, and dispatched to the health, metrics and MCP (JSON-RPC) handlers. Reads are a list of
  outcomes, each an error or the bytes of one \<^verbatim>\<open>read\<close> (none at the end of the stream); a list that runs
  out stands for a peer that stays silent until the timeout. The functions of \<^verbatim>\<open>serde_json\<close> and the
  replacement of malformed UTF-8 are the fields of \<open>text_codec\<close>. A handler returns the broker too: a snapshot
  drops expired retained messages. JSON objects list their keys in order, as \<^verbatim>\<open>serde_json::Map\<close> keeps them.
\<close>

record text_codec =
  tc_render :: "json \<Rightarrow> string"
  tc_pretty :: "json \<Rightarrow> string"
  tc_parse :: "bytes \<Rightarrow> string + json"
  tc_lossy :: "bytes \<Rightarrow> string"

definition MCP_PROTOCOL_VERSION :: string where
  "MCP_PROTOCOL_VERSION = ''2024-11-05''"

definition SERVER_NAME :: string where
  "SERVER_NAME = ''mqtt-broker''"

definition MAX_REQUEST :: nat where
  "MAX_REQUEST = 2 ^ 20"

record request =
  rq_method :: string
  rq_path :: string
  rq_body :: bytes
  rq_bearer :: "string option"

record response =
  rs_status :: string
  rs_content_type :: string
  rs_body :: bytes

subsection \<open>The bearer token\<close>

definition tokens_match :: "string \<Rightarrow> string \<Rightarrow> bool" where
  "tokens_match a b =
     (let a' = bytes_of a; b' = bytes_of b;
          start = (if length a' \<noteq> length b' then 1 else 0 :: u8)
      in foldl (\<lambda>diff (i, y). or diff (xor (if i < length a' then a' ! i else 0) y)) start
           (zip [0..<length b'] b') = 0)"

definition authorized_request :: "broker \<Rightarrow> request \<Rightarrow> bool" where
  "authorized_request b req =
     (case cfg_admin_token (b_config b) of
        None \<Rightarrow> True
      | Some expected \<Rightarrow>
          (case rq_bearer req of None \<Rightarrow> False | Some got \<Rightarrow> tokens_match got (expose expected)))"

subsection \<open>JSON-RPC\<close>

definition j_u64 :: "u64 \<Rightarrow> json" where
  "j_u64 n = JInt (uint n)"

definition j_nat :: "nat \<Rightarrow> json" where
  "j_nat n = JInt (int n)"

definition stats_json :: "snapshot \<Rightarrow> json" where
  "stats_json s =
     (let m = sn_counters s
      in JObject
        [(''bridge_forwarded_in'', j_u64 (mx_bridge_forwarded_in m)),
         (''bridge_forwarded_out'', j_u64 (mx_bridge_forwarded_out m)),
         (''bridges_connected'', j_u64 (mx_bridges_connected m)),
         (''bytes_received'', j_u64 (mx_bytes_received m)),
         (''bytes_sent'', j_u64 (mx_bytes_sent m)),
         (''clients_connected'', j_u64 (sn_clients_connected s)),
         (''clients_disconnected'', j_u64 (sn_clients_disconnected s)),
         (''clients_expired'', j_u64 (mx_clients_expired m)),
         (''clients_maximum'', j_u64 (mx_clients_maximum m)),
         (''clients_total'', j_u64 (sn_clients_total s)),
         (''connections_total'', j_u64 (mx_connections_total m)),
         (''packet_out_bytes'', j_u64 (sn_packet_out_bytes s)),
         (''packet_out_count'', j_u64 (sn_packet_out_count s)),
         (''packets_received'', j_u64 (mx_packets_received m)),
         (''packets_sent'', j_u64 (mx_packets_sent m)),
         (''publish_bytes_received'', j_u64 (mx_publish_bytes_received m)),
         (''publish_bytes_sent'', j_u64 (mx_publish_bytes_sent m)),
         (''publish_delivered'', j_u64 (mx_publish_delivered m)),
         (''publish_dropped'', j_u64 (mx_publish_dropped m)),
         (''publish_received'', j_u64 (mx_publish_received m)),
         (''retained_bytes'', j_u64 (sn_retained_bytes s)),
         (''retained_messages'', j_u64 (sn_retained_messages s)),
         (''sessions_total'', j_u64 (sn_sessions_total s)),
         (''shared_subscriptions_count'', j_u64 (sn_shared_subscriptions_count s)),
         (''socket_connections'', j_u64 (mx_socket_connections m)),
         (''store_messages_bytes'', j_u64 (sn_store_messages_bytes s)),
         (''store_messages_count'', j_u64 (sn_store_messages_count s)),
         (''subscriptions_total'', j_u64 (sn_subscriptions_total s)),
         (''uptime_seconds'', j_u64 (sn_uptime_seconds s)),
         (''version'', JString (sn_version s))])"

definition client_json :: "client_info \<Rightarrow> json" where
  "client_json c =
     JObject
       [(''client_id'', JString (ci_client_id c)), (''inflight'', j_nat (ci_inflight c)),
        (''online'', JBool (ci_online c)), (''persistent'', JBool (ci_persistent c)),
        (''queued'', j_nat (ci_queued c)), (''session_expiry'', JInt (uint (ci_session_expiry c))),
        (''subscriptions'', j_nat (ci_subscriptions c))]"

definition retained_json :: "retained_info \<Rightarrow> json" where
  "retained_json r =
     JObject
       [(''payload_size'', j_nat (ri_payload_size r)), (''qos'', JInt (uint (ri_qos r))),
        (''topic'', JString (ri_topic r))]"

definition tool_definitions :: json where
  "tool_definitions =
     (let empty_schema =
        JObject [(''additionalProperties'', JBool False), (''properties'', JObject []), (''type'', JString ''object'')];
          tool = (\<lambda>name description.
            JObject [(''description'', JString description), (''inputSchema'', empty_schema), (''name'', JString name)])
      in JArray
        [tool ''broker_stats''
           ''Return broker counters and gauges (connections, packets, bytes, publishes, current clients/sessions/retained/subscriptions).'',
         tool ''list_clients''
           ''List all sessions with online status, subscription/inflight/queued counts and session expiry.'',
         tool ''list_retained''
           ''List retained messages with their topic, payload size in bytes and QoS.''])"

type_synonym rpc_result = "(int \<times> string) + json"

definition call_tool ::
    "text_codec \<Rightarrow> u64 \<Rightarrow> u64 \<Rightarrow> string \<Rightarrow> json option \<Rightarrow> broker \<Rightarrow> rpc_result \<times> broker" where
  "call_tool T now uptime version params b =
     (case Option.bind (Option.bind params (json_get ''name'')) json_as_str of
        None \<Rightarrow> (Inl (- 32602, ''missing tool name''), b)
      | Some name \<Rightarrow>
          let wrap = (\<lambda>payload.
            JObject [(''content'', JArray [JObject [(''text'', JString (tc_pretty T payload)), (''type'', JString ''text'')]]),
                     (''isError'', JBool False)])
          in if name = ''broker_stats'' then
               (let (s, b') = broker_snapshot now uptime version b in (Inr (wrap (stats_json s)), b'))
             else if name = ''list_clients'' then
               (let cs = map client_json (clients b)
                in (Inr (wrap (JObject [(''clients'', JArray cs), (''count'', j_nat (length cs))])), b))
             else if name = ''list_retained'' then
               (let rs = map retained_json (retained_list now b)
                in (Inr (wrap (JObject [(''count'', j_nat (length rs)), (''retained'', JArray rs)])), b))
             else (Inl (- 32602, ''unknown tool: '' @ name), b))"

definition rpc_call ::
    "text_codec \<Rightarrow> u64 \<Rightarrow> u64 \<Rightarrow> string \<Rightarrow> json \<Rightarrow> broker \<Rightarrow> rpc_result \<times> broker" where
  "rpc_call T now uptime version req b =
     (let meth = (case Option.bind (json_get ''method'' req) json_as_str of None \<Rightarrow> [] | Some m \<Rightarrow> m)
      in if meth = ''initialize'' then
           (let v = (case Option.bind (Option.bind (json_get ''params'' req) (json_get ''protocolVersion'')) json_as_str of
                       None \<Rightarrow> MCP_PROTOCOL_VERSION
                     | Some v \<Rightarrow> v)
            in (Inr (JObject
                  [(''capabilities'', JObject [(''tools'', JObject [(''listChanged'', JBool False)])]),
                   (''protocolVersion'', JString v),
                   (''serverInfo'', JObject [(''name'', JString SERVER_NAME), (''version'', JString version)])]), b))
         else if meth = ''ping'' then (Inr (JObject []), b)
         else if meth = ''tools/list'' then (Inr (JObject [(''tools'', tool_definitions)]), b)
         else if meth = ''tools/call'' then call_tool T now uptime version (json_get ''params'' req) b
         else (Inl (- 32601, ''method not found: '' @ meth), b))"

definition handle_rpc ::
    "text_codec \<Rightarrow> u64 \<Rightarrow> u64 \<Rightarrow> string \<Rightarrow> json \<Rightarrow> broker \<Rightarrow> json option \<times> broker" where
  "handle_rpc T now uptime version req b =
     (case json_get ''id'' req of
        None \<Rightarrow> (None, b)
      | Some i \<Rightarrow>
          (case rpc_call T now uptime version req b of
             (Inr value, b') \<Rightarrow>
               (Some (JObject [(''id'', i), (''jsonrpc'', JString ''2.0''), (''result'', value)]), b')
           | (Inl (code, message), b') \<Rightarrow>
               (Some (JObject
                  [(''error'', JObject [(''code'', JInt code), (''message'', JString message)]),
                   (''id'', i), (''jsonrpc'', JString ''2.0'')]), b')))"

fun handle_batch ::
    "text_codec \<Rightarrow> u64 \<Rightarrow> u64 \<Rightarrow> string \<Rightarrow> json list \<Rightarrow> broker \<Rightarrow> json list \<times> broker" where
  "handle_batch T now uptime version [] b = ([], b)"
| "handle_batch T now uptime version (item # items) b =
     (let (r, b1) = handle_rpc T now uptime version item b;
          (rs, b2) = handle_batch T now uptime version items b1
      in ((case r of None \<Rightarrow> rs | Some v \<Rightarrow> v # rs), b2))"

definition handle_mcp_http ::
    "text_codec \<Rightarrow> u64 \<Rightarrow> u64 \<Rightarrow> string \<Rightarrow> bytes \<Rightarrow> broker \<Rightarrow> json option \<times> broker" where
  "handle_mcp_http T now uptime version raw b =
     (case tc_parse T raw of
        Inl e \<Rightarrow>
          (Some (JObject
             [(''error'', JObject [(''code'', JInt (- 32700)), (''message'', JString (''parse error: '' @ e))]),
              (''id'', JNull), (''jsonrpc'', JString ''2.0'')]), b)
      | Inr parsed \<Rightarrow>
          (case json_as_array parsed of
             Some items \<Rightarrow>
               (let (responses, b') = handle_batch T now uptime version items b
                in (if responses = [] then None else Some (JArray responses), b'))
           | None \<Rightarrow> handle_rpc T now uptime version parsed b))"

subsection \<open>Routing of requests\<close>

definition reply :: "string \<Rightarrow> string \<Rightarrow> bytes \<Rightarrow> response" where
  "reply status content_type content =
     \<lparr>rs_status = status, rs_content_type = content_type, rs_body = content\<rparr>"

definition protected :: "request \<Rightarrow> bool" where
  "protected req \<longleftrightarrow>
     \<not> (rq_method req = ''OPTIONS''
        \<or> rq_method req = ''GET'' \<and> rq_path req \<in> {''/health'', ''/healthz'', ''/''})"

text \<open>A JSON text with one string member, as the constant bodies have it.\<close>

definition json_text :: "string \<Rightarrow> string \<Rightarrow> bytes" where
  "json_text key value = bytes_of (''{'' @ quote @ key @ quote @ '':'' @ quote @ value @ quote @ ''}'')"

definition admin_route ::
    "text_codec \<Rightarrow> u64 \<Rightarrow> u64 \<Rightarrow> string \<Rightarrow> request \<Rightarrow> broker \<Rightarrow> response \<times> broker" where
  "admin_route T now uptime version req b =
     (if protected req \<and> \<not> authorized_request b req then
        (reply ''401 Unauthorized'' ''application/json'' (json_text ''error'' ''missing or invalid bearer token''), b)
      else if rq_method req = ''OPTIONS'' then (reply ''204 No Content'' ''text/plain'' [], b)
      else if rq_method req = ''GET'' \<and> rq_path req \<in> {''/health'', ''/healthz''} then
        (reply ''200 OK'' ''application/json'' (json_text ''status'' ''ok''), b)
      else if rq_method req = ''GET'' \<and> rq_path req = ''/metrics'' then
        (let (s, b') = broker_snapshot now uptime version b
         in (reply ''200 OK'' ''text/plain; version=0.0.4'' (bytes_of (to_prometheus s)), b'))
      else if rq_method req = ''POST'' \<and> rq_path req = ''/mcp'' then
        (case handle_mcp_http T now uptime version (rq_body req) b of
           (Some v, b') \<Rightarrow> (reply ''200 OK'' ''application/json'' (bytes_of (tc_render T v)), b')
         | (None, b') \<Rightarrow> (reply ''202 Accepted'' ''application/json'' [], b'))
      else if rq_method req = ''GET'' \<and> rq_path req = ''/mcp'' then
        (reply ''405 Method Not Allowed'' ''application/json''
           (json_text ''error'' ''use POST for JSON-RPC; SSE streaming is not supported''), b)
      else if rq_method req = ''GET'' \<and> rq_path req = ''/'' then
        (reply ''200 OK'' ''text/plain''
           (bytes_of (''mqtt-broker admin: GET /health, GET /metrics, POST /mcp'' @ [newline])), b)
      else (reply ''404 Not Found'' ''application/json'' (json_text ''error'' ''not found''), b))"

subsection \<open>Reading a request\<close>

text \<open>The outcome of reading: still waiting, an I/O error, no request (too large, or the stream ended), or
  a request.\<close>

datatype 'a reading = Waiting | Broken string | Nothing | Got 'a

definition CRLF2 :: bytes where
  "CRLF2 = [13, 10, 13, 10]"

fun find_crlf_crlf :: "bytes \<Rightarrow> nat option" where
  "find_crlf_crlf [] = None"
| "find_crlf_crlf (x # xs) =
     (if take 4 (x # xs) = CRLF2 then Some 0 else map_option Suc (find_crlf_crlf xs))"

fun read_head :: "bytes \<Rightarrow> (string + bytes) list \<Rightarrow> (nat \<times> bytes \<times> (string + bytes) list) reading" where
  "read_head buf reads =
     (case find_crlf_crlf buf of
        Some pos \<Rightarrow> Got (pos, buf, reads)
      | None \<Rightarrow>
          if length buf > MAX_REQUEST then Nothing
          else (case reads of
                  [] \<Rightarrow> Waiting
                | Inl e # _ \<Rightarrow> Broken e
                | Inr [] # _ \<Rightarrow> Nothing
                | Inr (x # xs) # rest \<Rightarrow> read_head (buf @ x # xs) rest))"

fun read_body :: "nat \<Rightarrow> bytes \<Rightarrow> (string + bytes) list \<Rightarrow> bytes reading" where
  "read_body content_length acc reads =
     (if length acc < content_length then
        if length acc > MAX_REQUEST then Nothing
        else (case reads of
                [] \<Rightarrow> Waiting
              | Inl e # _ \<Rightarrow> Broken e
              | Inr [] # _ \<Rightarrow> Got (take content_length acc)
              | Inr (x # xs) # rest \<Rightarrow> read_body content_length (acc @ x # xs) rest)
      else Got (take content_length acc))"

declare read_head.simps [simp del] read_body.simps [simp del]

text \<open>\<^verbatim>\<open>str::split_whitespace\<close> and \<^verbatim>\<open>str::split("\r\n")\<close>.\<close>

function split_whitespace :: "string \<Rightarrow> string \<Rightarrow> string list" where
  "split_whitespace cur s =
     (case strip_one white_space s of
        Some rest \<Rightarrow> (if cur = [] then [] else [rev cur]) @ split_whitespace [] rest
      | None \<Rightarrow>
          (case s of
             [] \<Rightarrow> if cur = [] then [] else [rev cur]
           | c # cs \<Rightarrow> split_whitespace (c # cur) cs))"
  by pat_completeness auto
termination
  by (relation "measure (\<lambda>(cur, s). length s)") (auto dest: strip_one_shorter)

declare split_whitespace.simps [simp del]

fun split_lines :: "string \<Rightarrow> string list" where
  "split_lines [] = [[]]"
| "split_lines [c] = [[c]]"
| "split_lines (c # d # cs) =
     (if c = CHR 0x0D \<and> d = CHR 0x0A then [] # split_lines cs
      else (case split_lines (d # cs) of [] \<Rightarrow> [[c]] | l # ls \<Rightarrow> (c # l) # ls))"

fun scan_headers :: "string list \<Rightarrow> nat \<times> string option \<Rightarrow> nat \<times> string option" where
  "scan_headers [] acc = acc"
| "scan_headers (line # ls) (content_length, bearer) =
     scan_headers ls
       (case split_once (CHR '':'') line of
          None \<Rightarrow> (content_length, bearer)
        | Some (name0, value0) \<Rightarrow>
            let name = trim name0; value = trim value0
            in if eq_ignore_case name ''content-length'' then
                 (case parse_uint 18446744073709551615 value of None \<Rightarrow> 0 | Some n \<Rightarrow> n, bearer)
               else if eq_ignore_case name ''authorization'' then
                 (content_length,
                  case split_once (CHR '' '') value of
                    None \<Rightarrow> bearer
                  | Some (scheme, token) \<Rightarrow>
                      if eq_ignore_case scheme ''bearer'' then Some (trim token) else bearer)
               else (content_length, bearer))"

definition parse_head :: "text_codec \<Rightarrow> bytes \<Rightarrow> string \<times> string \<times> nat \<times> string option" where
  "parse_head T header =
     (let ls = split_lines (tc_lossy T header);
          parts = split_whitespace [] (hd ls);
          word = (\<lambda>n. if n < length parts then parts ! n else []);
          (content_length, bearer) = scan_headers (tl ls) (0, None)
      in (word 0, word 1, content_length, bearer))"

definition read_request :: "text_codec \<Rightarrow> (string + bytes) list \<Rightarrow> request reading" where
  "read_request T reads =
     (case read_head [] reads of
        Waiting \<Rightarrow> Waiting
      | Broken e \<Rightarrow> Broken e
      | Nothing \<Rightarrow> Nothing
      | Got (header_end, buf, rest) \<Rightarrow>
          let (meth, path, content_length, bearer) = parse_head T (take header_end buf)
          in (case read_body content_length (drop (header_end + 4) buf) rest of
                Waiting \<Rightarrow> Waiting
              | Broken e \<Rightarrow> Broken e
              | Nothing \<Rightarrow> Nothing
              | Got content \<Rightarrow>
                  Got \<lparr>rq_method = meth, rq_path = path, rq_body = content, rq_bearer = bearer\<rparr>))"

definition crlf :: string where
  "crlf = [CHR 0x0D, CHR 0x0A]"

definition response_head :: "response \<Rightarrow> string" where
  "response_head r =
     ''HTTP/1.1 '' @ rs_status r @ crlf @
     ''Content-Type: '' @ rs_content_type r @ crlf @
     ''Content-Length: '' @ show_nat (length (rs_body r)) @ crlf @
     ''Access-Control-Allow-Origin: *'' @ crlf @
     ''Access-Control-Allow-Methods: GET, POST, OPTIONS'' @ crlf @
     ''Access-Control-Allow-Headers: Authorization, Content-Type'' @ crlf @
     (if starts_with (rs_status r) ''401'' then ''WWW-Authenticate: Bearer'' @ crlf else []) @
     ''Connection: close'' @ crlf @ crlf"

text \<open>One admin connection: the bytes written in answer to what was read. A silent or broken peer, and an
  oversized request, get no answer.\<close>

definition serve_conn ::
    "text_codec \<Rightarrow> u64 \<Rightarrow> u64 \<Rightarrow> string \<Rightarrow> (string + bytes) list \<Rightarrow> broker \<Rightarrow> bytes \<times> broker" where
  "serve_conn T now uptime version reads b =
     (case read_request T reads of
        Got req \<Rightarrow>
          (let (r, b') = admin_route T now uptime version req b
           in (bytes_of (response_head r) @ rs_body r, b'))
      | _ \<Rightarrow> ([], b))"

text \<open>One socket of the accept loop of \<^verbatim>\<open>run\<close>: with an acceptor, a failed handshake ends it before a byte of a
  request is read (\<open>None\<close>).\<close>

definition admin_accept ::
    "('acc \<Rightarrow> string + 'tls) \<Rightarrow> 'acc option \<Rightarrow> text_codec \<Rightarrow> u64 \<Rightarrow> u64 \<Rightarrow> string \<Rightarrow> (string + bytes) list \<Rightarrow> broker \<Rightarrow>
     bytes option \<times> broker" where
  "admin_accept accept acceptor T now uptime version reads b =
     (case acceptor of
        Some a \<Rightarrow>
          (case accept a of
             Inl _ \<Rightarrow> (None, b)
           | Inr _ \<Rightarrow> (let (out, b') = serve_conn T now uptime version reads b in (Some out, b')))
      | None \<Rightarrow> (let (out, b') = serve_conn T now uptime version reads b in (Some out, b')))"

subsection \<open>The token comparison\<close>

lemma fold_or_zero:
  "foldl (\<lambda>d (i, y). or d (f i y)) (d :: u8) zs = 0 \<longleftrightarrow> d = 0 \<and> (\<forall>(i, y) \<in> set zs. f i y = 0)"
  by (induction zs arbitrary: d) (auto simp: or_eq_0_iff)

lemma xor_zero: "xor (x :: u8) y = 0 \<longleftrightarrow> x = y"
  by (auto simp: bit_eq_iff bit_xor_iff)

lemma bytes_of_inject: "bytes_of a = bytes_of b \<longleftrightarrow> a = b"
proof -
  have "inj (\<lambda>c. of_nat (of_char c) :: u8)"
  proof (rule injI)
    fix c d :: char
    assume "(of_nat (of_char c) :: u8) = of_nat (of_char d)"
    then have "(of_char c :: nat) mod 256 = of_char d mod 256" by (simp add: word_of_nat_eq_iff take_bit_eq_mod)
    then show "c = d" by simp
  qed
  then show ?thesis by (simp add: bytes_of_def inj_map_eq_map)
qed

text \<open>The constant-time comparison decides equality.\<close>

lemma tokens_match_iff: "tokens_match a b \<longleftrightarrow> a = b"
proof -
  define u v where "u = bytes_of a" and "v = bytes_of b"
  have "tokens_match a b \<longleftrightarrow> length u = length v
      \<and> (\<forall>(i, y) \<in> set (zip [0..<length v] v). (if i < length u then u ! i else 0) = y)"
    unfolding tokens_match_def Let_def fold_or_zero xor_zero u_def [symmetric] v_def [symmetric] by simp
  also have "\<dots> \<longleftrightarrow> length u = length v \<and> (\<forall>i < length v. u ! i = v ! i)"
  proof -
    have "set (zip [0..<length v] v) = (\<lambda>i. (i, v ! i)) ` {..<length v}"
      by (force simp: set_zip)
    then show ?thesis by auto
  qed
  also have "\<dots> \<longleftrightarrow> u = v"
    by (metis nth_equalityI)
  finally show ?thesis by (simp add: u_def v_def bytes_of_inject)
qed

subsection \<open>Chunks\<close>

lemma find_crlf_append: "find_crlf_crlf xs = Some p \<Longrightarrow> find_crlf_crlf (xs @ ys) = Some p \<and> p + 4 \<le> length xs"
proof (induction xs arbitrary: p rule: find_crlf_crlf.induct)
  case (2 x xs)
  show ?case
  proof (cases "take 4 (x # xs) = CRLF2")
    case True
    then have "length (take 4 (x # xs)) = 4" by (simp add: CRLF2_def)
    then have l: "4 \<le> length (x # xs)" by simp
    then have "take 4 ((x # xs) @ ys) = take 4 (x # xs)" by simp
    with True 2 l show ?thesis by simp
  next
    case False
    with 2 obtain q where q: "find_crlf_crlf xs = Some q" "p = Suc q" by auto
    with 2(1) [OF False, of q] have "find_crlf_crlf (xs @ ys) = Some q" "q + 4 \<le> length xs" by simp_all
    moreover from this(2) have "take 4 ((x # xs) @ ys) = take 4 (x # xs)" by simp
    ultimately show ?thesis using q False by simp
  qed
qed simp

lemma read_head_chunks:
  assumes "find_crlf_crlf (buf @ concat cs) = Some p" and "length (buf @ concat cs) \<le> MAX_REQUEST"
    and "\<forall>c \<in> set cs. c \<noteq> []"
  shows "\<exists>ds es. cs = ds @ es \<and> p + 4 \<le> length (buf @ concat ds)
    \<and> read_head buf (map Inr cs @ later) = Got (p, buf @ concat ds, map Inr es @ later)"
  using assms
proof (induction cs arbitrary: buf)
  case Nil
  then show ?case using find_crlf_append [of buf p "[]"] by (simp add: read_head.simps)
next
  case (Cons c cs)
  show ?case
  proof (cases "find_crlf_crlf buf")
    case (Some q)
    with find_crlf_append [OF Some, of "concat (c # cs)"] Cons.prems(1) show ?thesis
      by (intro exI [of _ "[]"] exI [of _ "c # cs"]) (simp add: read_head.simps)
  next
    case None
    from Cons.prems(3) obtain x xs where c: "c = x # xs" by (cases c) auto
    from Cons.IH [of "buf @ c"] Cons.prems obtain ds es where "cs = ds @ es"
      "p + 4 \<le> length (buf @ concat (c # ds))"
      "read_head (buf @ c) (map Inr cs @ later) = Got (p, buf @ concat (c # ds), map Inr es @ later)" by auto
    moreover have "read_head buf (map Inr (c # cs) @ later) = read_head (buf @ c) (map Inr cs @ later)"
      using None Cons.prems(2) by (subst read_head.simps) (simp add: c)
    ultimately show ?thesis by (intro exI [of _ "c # ds"] exI [of _ es]) simp
  qed
qed

lemma read_body_chunks:
  assumes "n \<le> length (acc @ concat cs)" and "length (acc @ concat cs) \<le> MAX_REQUEST" and "\<forall>c \<in> set cs. c \<noteq> []"
  shows "read_body n acc (map Inr cs @ later) = Got (take n (acc @ concat cs))"
  using assms
proof (induction cs arbitrary: acc)
  case Nil
  then show ?case by (simp add: read_body.simps)
next
  case (Cons c cs)
  from Cons.prems(3) obtain x xs where c: "c = x # xs" by (cases c) auto
  show ?case
  proof (cases "length acc < n")
    case True
    then have "read_body n acc (map Inr (c # cs) @ later) = read_body n (acc @ c) (map Inr cs @ later)"
      using Cons.prems(2) by (subst read_body.simps) (simp add: c)
    with Cons.IH [of "acc @ c"] Cons.prems show ?thesis by simp
  next
    case False
    then show ?thesis by (subst read_body.simps) simp
  qed
qed

subsection \<open>What a request can change\<close>

lemma purge_idem [simp]: "purge_retained now (purge_retained now b) = purge_retained now b"
  by (simp add: purge_retained_def)

definition read_only :: "u64 \<Rightarrow> broker \<Rightarrow> broker \<Rightarrow> bool" where
  "read_only now b b' \<longleftrightarrow> b' = b \<or> b' = purge_retained now b"

lemma read_only_trans: "read_only now a b \<Longrightarrow> read_only now b c \<Longrightarrow> read_only now a c"
  by (auto simp: read_only_def)

lemma call_tool_read_only: "read_only now b (snd (call_tool T now uptime version params b))"
proof (cases "Option.bind (Option.bind params (json_get ''name'')) json_as_str")
  case None
  then show ?thesis by (simp only: call_tool_def option.case snd_conv read_only_def) simp
next
  case (Some name)
  then show ?thesis
    by (simp only: call_tool_def option.case Let_def [of "\<lambda>payload. JObject _"] read_only_def if_distrib [of snd])
      (simp only: Let_def snd_conv case_prod_beta snapshot_broker split: if_split, simp)
qed

lemma rpc_read_only: "read_only now b (snd (handle_rpc T now uptime version req b))"
proof -
  have "read_only now b b" by (simp add: read_only_def)
  with call_tool_read_only have "read_only now b (snd (rpc_call T now uptime version req b))"
    by (simp only: rpc_call_def Let_def if_distrib [of snd] snd_conv split: if_split) simp
  with \<open>read_only now b b\<close> show ?thesis
    by (simp add: handle_rpc_def case_prod_beta split: option.split sum.split)
qed

lemma batch_read_only: "read_only now b (snd (handle_batch T now uptime version items b))"
proof (induction items arbitrary: b)
  case (Cons item items)
  from read_only_trans [OF rpc_read_only Cons] show ?case by (simp add: Let_def case_prod_beta)
qed (simp add: read_only_def)

text \<open>The endpoint is read-only: no request changes the broker, other than that expired retained messages
  are dropped.\<close>

lemma admin_read_only: "read_only now b (snd (serve_conn T now uptime version reads b))"
proof -
  have same: "read_only now b b" "read_only now b (purge_retained now b)" by (simp_all add: read_only_def)
  have mcp: "read_only now b (snd (handle_mcp_http T now uptime version raw b))" for raw
  proof (cases "tc_parse T raw")
    case (Inr parsed)
    with batch_read_only rpc_read_only show ?thesis
      by (cases "json_as_array parsed") (simp_all only: handle_mcp_http_def sum.case option.case Let_def case_prod_beta snd_conv)
  qed (simp add: handle_mcp_http_def same)
  then have "read_only now b (snd (admin_route T now uptime version req b))" for req
    by (simp only: admin_route_def case_prod_beta Let_def if_distrib [of snd] snd_conv snapshot_broker same
      split: if_split option.split) (simp add: split_beta option.case_distrib [of snd] split: option.split)
  with same show ?thesis by (simp add: serve_conn_def case_prod_beta Let_def split: reading.split)
qed

text \<open>A batch is answered in order, one answer for every request that has an identifier, with that
  identifier.\<close>

lemma batch_answers:
  "map (\<lambda>r. json_get ''id'' r) (fst (handle_batch T now uptime version items b))
     = filter (\<lambda>i. i \<noteq> None) (map (json_get ''id'') items)"
proof (induction items arbitrary: b)
  case (Cons item items)
  have "fst (handle_rpc T now uptime version item b) = None \<and> json_get ''id'' item = None
      \<or> (\<exists>r. fst (handle_rpc T now uptime version item b) = Some r \<and> json_get ''id'' r = json_get ''id'' item
           \<and> json_get ''id'' item \<noteq> None)"
    by (auto simp: handle_rpc_def case_prod_beta hm_get_Cons split: option.split sum.split)
  with Cons [of "snd (handle_rpc T now uptime version item b)"] show ?case
    by (auto simp: Let_def case_prod_beta)
qed simp

text \<open>
  C17. Without the bearer token nothing is learned: where a token is configured, a request that does not
  carry exactly this token gets the same answer whatever the state of the broker, its clock, its uptime and
  its version are, and leaves the broker as it is. The liveness routes are the only ones that answer it with
  a success.
\<close>

theorem unauthenticated_learns_nothing:
  assumes "cfg_admin_token (b_config b) = Some (Secret token)" and "rq_bearer req \<noteq> Some token"
    and "b_config b' = b_config b"
  shows "fst (admin_route T now uptime version req b) = fst (admin_route T now' uptime' version' req b')
    \<and> snd (admin_route T now uptime version req b) = b
    \<and> (protected req \<longrightarrow> rs_status (fst (admin_route T now uptime version req b)) = ''401 Unauthorized'')"
proof -
  have no: "\<not> authorized_request b req" "\<not> authorized_request b' req"
    using assms by (auto simp: authorized_request_def tokens_match_iff split: option.splits)
  show ?thesis
  proof (cases "protected req")
    case True
    with no show ?thesis by (simp only: admin_route_def) (simp add: reply_def)
  next
    case False
    then consider "rq_method req = ''OPTIONS''"
      | "rq_method req = ''GET''" "rq_path req = ''/health''"
      | "rq_method req = ''GET''" "rq_path req = ''/healthz''"
      | "rq_method req = ''GET''" "rq_path req = ''/''"
      unfolding protected_def by blast
    then show ?thesis by cases (simp_all add: admin_route_def protected_def)
  qed
qed

definition plain_codec :: text_codec where
  "plain_codec =
     \<lparr>tc_render = (\<lambda>_. []), tc_pretty = (\<lambda>_. []), tc_parse = (\<lambda>_. Inl ''no JSON''),
      tc_lossy = map (\<lambda>b. char_of (unat b :: nat))\<rparr>"

definition demo_guarded :: broker where
  "demo_guarded = demo_stats\<lparr>b_config := (b_config demo_stats)\<lparr>cfg_admin_token := Some (Secret ''t0k'')\<rparr>\<rparr>"

definition demo_scrape :: request where
  "demo_scrape = \<lparr>rq_method = ''GET'', rq_path = ''/metrics'', rq_body = [], rq_bearer = Some ''t0''\<rparr>"

theorem unauthenticated_learns_nothing_witness:
  "rs_status (fst (admin_route plain_codec 0 5 ''v'' demo_scrape demo_guarded)) = ''401 Unauthorized''
   \<and> snd (admin_route plain_codec 0 5 ''v'' demo_scrape demo_guarded) = demo_guarded"
  using unauthenticated_learns_nothing [of demo_guarded "''t0k''" demo_scrape demo_guarded plain_codec 0 5 "''v''" 0 5 "''v''"]
  by (simp add: demo_guarded_def demo_scrape_def protected_def)

text \<open>
  C30. How the network cuts a request into reads does not matter: when the bytes that arrive hold a header
  block and as many bytes after it as the header announces, and no more than the limit, then every way to
  cut them into non-empty reads, whatever follows, gives the same request, the one that the whole text
  denotes.
\<close>

theorem request_chunking:
  assumes "concat cs = whole" and "\<forall>c \<in> set cs. c \<noteq> []"
    and "find_crlf_crlf whole = Some p" and "parse_head T (take p whole) = (m, path, len, bearer)"
    and "p + 4 + len \<le> length whole" and "length whole \<le> MAX_REQUEST"
  shows "read_request T (map Inr cs @ later)
    = Got \<lparr>rq_method = m, rq_path = path, rq_body = take len (drop (p + 4) whole), rq_bearer = bearer\<rparr>"
proof -
  from read_head_chunks [of "[]" cs p later] assms obtain ds es where cs: "cs = ds @ es"
    and p: "p + 4 \<le> length (concat ds)"
    and head: "read_head [] (map Inr cs @ later) = Got (p, concat ds, map Inr es @ later)" by auto
  have whole: "whole = concat ds @ concat es" using assms(1) cs by simp
  have "take p (concat ds) = take p whole" and rest: "drop (p + 4) (concat ds) @ concat es = drop (p + 4) whole"
    using p by (simp_all add: whole)
  with assms(4) have ph: "parse_head T (take p (concat ds)) = (m, path, len, bearer)" by simp
  have "read_body len (drop (p + 4) (concat ds)) (map Inr es @ later) = Got (take len (drop (p + 4) whole))"
    unfolding rest [symmetric]
    by (rule read_body_chunks) (use assms cs whole p in auto)
  with head ph show ?thesis by (simp add: read_request_def)
qed

lemma split_whitespace_steps:
  "split_whitespace cur [] = (if cur = [] then [] else [rev cur])"
  "graphic c \<Longrightarrow> split_whitespace cur (c # s) = split_whitespace (c # cur) s"
  "split_whitespace cur (CHR '' '' # s) = (if cur = [] then [] else [rev cur]) @ split_whitespace [] s"
proof -
  have "strip_one white_space [] = None"
    by (rule strip_one_None) (simp add: white_space_def starts_with_def)
  then show "split_whitespace cur [] = (if cur = [] then [] else [rev cur])"
    by (subst split_whitespace.simps) simp
  show "split_whitespace cur (c # s) = split_whitespace (c # cur) s" if "graphic c"
    using strip_one_None [of white_space "c # s"] white_not_prefix(1) [OF that]
    by (subst split_whitespace.simps) simp
  have "strip_one white_space (CHR '' '' # s) = Some s"
    by (simp add: white_space_def starts_with_def char_of_def bit_0)
  then show "split_whitespace cur (CHR '' '' # s) = (if cur = [] then [] else [rev cur]) @ split_whitespace [] s"
    by (subst split_whitespace.simps) simp
qed

theorem request_chunking_witness:
  "read_request plain_codec
     [Inr (bytes_of (''POST /mcp'' @ crlf @ ''content-length:2'' @ [CHR 0x0D])),
      Inr (bytes_of ([CHR 0x0A] @ crlf @ ''['')), Inr (bytes_of '']x'')]
   = Got \<lparr>rq_method = ''POST'', rq_path = ''/mcp'', rq_body = bytes_of ''[]'', rq_bearer = None\<rparr>"
proof -
  define cs where "cs =
     [bytes_of (''POST /mcp'' @ crlf @ ''content-length:2'' @ [CHR 0x0D]),
      bytes_of ([CHR 0x0A] @ crlf @ ''[''), bytes_of '']x'']"
  have f: "find_crlf_crlf (concat cs) = Some 27" unfolding cs_def by code_simp
  have ls: "split_lines (tc_lossy plain_codec (take 27 (concat cs))) = [''POST /mcp'', ''content-length:2'']"
    unfolding cs_def by code_simp
  have ws: "split_whitespace [] ''POST /mcp'' = [''POST'', ''/mcp'']"
    by (simp add: split_whitespace_steps graphic_def)
  have hs: "scan_headers [''content-length:2''] (0, None) = (2, None)"
    using split_once_append [of "CHR '':''" "''content-length''" "''2''"]
    by (simp add: trim_graphic graphic_def eq_ignore_case_def parse_uint_def is_digit_def nat_of_digits_def digit_val_def)
  have h: "parse_head plain_codec (take 27 (concat cs)) = (''POST'', ''/mcp'', 2, None)"
    by (simp add: parse_head_def ls ws hs del: scan_headers.simps)
  have l: "length (concat cs) = 34" and n: "\<forall>c \<in> set cs. c \<noteq> []" unfolding cs_def by code_simp+
  have b: "take 2 (drop 31 (concat cs)) = bytes_of ''[]''" unfolding cs_def by code_simp
  from request_chunking [OF refl n f h, of "[]"]
  have "read_request plain_codec (map Inr cs)
    = Got \<lparr>rq_method = ''POST'', rq_path = ''/mcp'', rq_body = bytes_of ''[]'', rq_bearer = None\<rparr>"
    by (simp add: l b MAX_REQUEST_def)
  then show ?thesis by (simp only: cs_def list.map)
qed

end
