(* ===== verification/Durable_Sessions.thy ===== *)
theory Durable_Sessions
  imports Durability
begin

section \<open>Durability of sessions\<close>

text \<open>
  What the database has of the sessions in memory, over any run: a durable session has a row with its expiry and
  its owner and one row per subscription; every other session has no row. A CONNECT without clean start that makes a durable session
  transient, or a transient one durable, is the one step that breaks this (the subscriptions that exist at
  that moment are neither stored nor removed), so runs are restricted to those without one.
\<close>

subsection \<open>Filters and the keys of their rows\<close>

text \<open>What is relied on of \<^verbatim>\<open>topic::parse_filter\<close>: a filter that parses is its share group and the rest, put
  together as in MQTT 5.0, 4.8.2.\<close>

definition key_text :: "string \<times> string option \<Rightarrow> string" where
  "key_text k = (case snd k of Some g \<Rightarrow> ''$share/'' @ g @ ''/'' @ fst k | None \<Rightarrow> fst k)"

definition filter_law :: "protocol \<Rightarrow> bool" where
  "filter_law P \<longleftrightarrow> (\<forall>k share f. parse_filter P k = Some (share, f) \<longrightarrow> key_text (f, share) = k)"

lemma filter_law_plain: "filter_law plain_protocol"
  by (simp add: filter_law_def key_text_def)

lemma stored_key_text: "stored_key x = key_text (sub_key x)"
  by (simp add: stored_key_def key_text_def sub_key_def split: option.split)

lemma unsub_key_text:
  assumes "filter_law P"
  shows "key_text (unsub_key P k) = k"
proof (cases "parse_filter P k")
  case None
  then show ?thesis by (simp add: unsub_key_def key_text_def)
next
  case (Some a)
  with assms show ?thesis by (cases a) (simp add: filter_law_def unsub_key_def)
qed

lemma unsub_key_inj: "filter_law P \<Longrightarrow> unsub_key P k = unsub_key P k' \<longleftrightarrow> k = k'"
  using unsub_key_text by metis

lemma restored_key: "sub_key (restore_subscription P r) = unsub_key P (sr_filter r)"
  by (simp add: sub_key_def restore_subscription_def unsub_key_def case_prod_beta split: option.split)

lemma restored_stored_key: "filter_law P \<Longrightarrow> stored_key (restore_subscription P r) = sr_filter r"
  by (simp add: stored_key_text restored_key unsub_key_text)

lemma restored_accepted:
  assumes "parse_filter P (tf_filter f) = Some parsed"
  shows "restore_subscription P (sub_record_of granted sub_id f) = new_subscription granted sub_id f parsed"
    and "sub_key (new_subscription granted sub_id f parsed) = unsub_key P (tf_filter f)"
  using assms
  by (simp_all add: restore_subscription_def sub_record_of_def new_subscription_def case_prod_beta sub_key_def unsub_key_def)

subsection \<open>Stored subscriptions\<close>

definition subs_saved :: "protocol \<Rightarrow> (string \<Rightarrow> sub_record option) \<Rightarrow> subscription list \<Rightarrow> bool" where
  "subs_saved P subs xs \<longleftrightarrow> distinct (map sub_key xs) \<and> (\<forall>k r. subs k = Some r \<longrightarrow> sr_filter r = k)
     \<and> restore_subscription P ` ran subs = set xs"

lemma subs_saved_empty [simp]: "subs_saved P (\<lambda>_. None) []"
  by (simp add: subs_saved_def)

lemma set_upsert_distinct:
  "distinct (map sub_key xs) \<Longrightarrow>
   set (snd (upsert_list xs new)) = insert new {x \<in> set xs. sub_key x \<noteq> sub_key new}"
  by (induction xs) (auto simp: same_key_iff image_iff split: prod.splits)

lemma subs_saved_upsert:
  assumes law: "filter_law P" and saved: "subs_saved P subs xs"
    and r: "sr_filter r = k" "restore_subscription P r = new"
  shows "subs_saved P (subs(k := Some r)) (snd (upsert_list xs new))"
proof -
  from saved have d: "distinct (map sub_key xs)" and keys: "\<And>k r. subs k = Some r \<Longrightarrow> sr_filter r = k"
    and img: "restore_subscription P ` ran subs = set xs" by (simp_all add: subs_saved_def)
  have new: "sub_key new = unsub_key P k" using restored_key [of P r] r by simp
  have old: "sub_key (restore_subscription P r') = sub_key new \<longleftrightarrow> k' = k" if "subs k' = Some r'" for k' r'
    using keys [OF that] by (simp add: restored_key new unsub_key_inj [OF law])
  let ?others = "{r'. \<exists>k'. k' \<noteq> k \<and> subs k' = Some r'}"
  have "ran (subs(k := Some r)) = insert r ?others" by (auto simp: ran_def)
  moreover have "restore_subscription P ` ?others = {x \<in> set xs. sub_key x \<noteq> sub_key new}"
    unfolding img [symmetric] ran_def using old by auto
  ultimately have "restore_subscription P ` ran (subs(k := Some r)) = insert new {x \<in> set xs. sub_key x \<noteq> sub_key new}"
    by (simp add: r(2))
  moreover have "sr_filter r' = k'" if "(subs(k := Some r)) k' = Some r'" for k' r'
    using that keys r(1) by (auto split: if_splits)
  ultimately show ?thesis
    using d by (simp add: subs_saved_def set_upsert_distinct upsert_distinct)
qed

text \<open>Removal of rows by key, with the subscriptions they stand for.\<close>

lemma subs_saved_filter:
  assumes law: "filter_law P" and saved: "subs_saved P subs xs"
    and gone: "\<And>x. x \<in> set xs \<Longrightarrow> keep x \<longleftrightarrow> stored_key x \<notin> K"
  shows "subs_saved P (\<lambda>k. if k \<in> K then None else subs k) (filter keep xs)"
proof -
  from saved have d: "distinct (map sub_key xs)" and keys: "\<And>k r. subs k = Some r \<Longrightarrow> sr_filter r = k"
    and img: "restore_subscription P ` ran subs = set xs" by (simp_all add: subs_saved_def)
  have row: "restore_subscription P r \<in> set xs \<and> stored_key (restore_subscription P r) = k" if "subs k = Some r" for k r
    using that keys [OF that] img by (auto simp: restored_stored_key [OF law] ran_def)
  have "restore_subscription P ` ran (\<lambda>k. if k \<in> K then None else subs k) = {x \<in> set xs. stored_key x \<notin> K}"
    using row by (fastforce simp: ran_def image_iff img [symmetric] split: if_splits)
  also have "\<dots> = set (filter keep xs)" using gone by auto
  finally show ?thesis using d keys by (auto simp: subs_saved_def distinct_map_filter split: if_splits)
qed

lemma subs_saved_remove:
  assumes law: "filter_law P" and saved: "subs_saved P subs (ss_subscriptions s)" and key: "unsub_key P flt = (f, share)"
  shows "subs_saved P (subs(flt := None)) (ss_subscriptions (snd (remove_subscription s f share)))"
proof -
  have "(\<not> (sub_filter x = f \<and> sub_share_name x = share)) \<longleftrightarrow> stored_key x \<notin> {flt}" if x: "x \<in> set (ss_subscriptions s)" for x
  proof -
    from saved x have "x \<in> restore_subscription P ` ran subs" by (simp add: subs_saved_def)
    then obtain r where r: "x = restore_subscription P r" by blast
    have "sub_key x = (f, share) \<longleftrightarrow> sr_filter r = flt"
      by (simp add: r restored_key key [symmetric] unsub_key_inj [OF law])
    then show ?thesis by (simp add: sub_key_def r restored_stored_key [OF law])
  qed
  from subs_saved_filter [OF law saved this] show ?thesis
    by (simp add: remove_subscription_def Let_def fun_upd_def)
qed

subsection \<open>Sessions and their rows\<close>

fun saved :: "protocol \<Rightarrow> session_view \<Rightarrow> session \<Rightarrow> bool" where
  "saved P (e, owner, subs) s \<longleftrightarrow> e = ss_session_expiry_interval s \<and> owner = ss_identity s
     \<and> subs_saved P subs (ss_subscriptions s)"

definition matches_row :: "protocol \<Rightarrow> session_view option \<Rightarrow> session option \<Rightarrow> bool" where
  "matches_row P row ses \<longleftrightarrow>
     (case ses of
        Some s \<Rightarrow> if ss_persistent s then (\<exists>w. row = Some w \<and> saved P w s) else row = None
      | None \<Rightarrow> row = None)"

definition durable_part :: "session \<Rightarrow> bool \<times> u32 \<times> string option \<times> subscription list" where
  "durable_part s = (ss_persistent s, ss_session_expiry_interval s, ss_identity s, ss_subscriptions s)"

abbreviation rows_after :: "command list \<Rightarrow> store_view \<Rightarrow> string \<Rightarrow> session_view option" where
  "rows_after cs v \<equiv> sv_sessions (fold replay cs v)"

text \<open>Reserved names (bridges, the broker itself) are never restored and not spoken of.\<close>

definition sessions_in_step :: "protocol \<Rightarrow> store_view \<Rightarrow> broker \<Rightarrow> bool" where
  "sessions_in_step P v b \<longleftrightarrow>
     (\<forall>c. \<not> reserved_id c \<longrightarrow> matches_row P (rows_after (b_storage b) v c) (get_session c b))"

lemma matches_row_cong:
  "map_option durable_part ses' = map_option durable_part ses \<Longrightarrow> matches_row P row ses' = matches_row P row ses"
  by (cases ses; cases ses') (auto simp: matches_row_def durable_part_def split: if_splits)

fun command_client :: "command \<Rightarrow> string option" where
  "command_client (UpsertRetained _ _) = None"
| "command_client (DeleteRetained _) = None"
| "command_client (UpsertSession c _ _) = Some c"
| "command_client (DeleteSession c) = Some c"
| "command_client (UpsertSubscription c _) = Some c"
| "command_client (DeleteSubscription c _) = Some c"
| "command_client (ClearSubscriptions c) = Some c"

lemma rows_other: "\<forall>k \<in> set cs. command_client k \<noteq> Some d \<Longrightarrow> rows_after cs v d = sv_sessions v d"
proof (induction cs arbitrary: v)
  case (Cons k cs)
  then have "sv_sessions (replay k v) d = sv_sessions v d" by (cases k) (auto simp: with_subs_def)
  with Cons show ?case by simp
qed simp

text \<open>A step that works on one client: its log and its memory concern that client only.\<close>

lemma in_step_local:
  assumes "sessions_in_step P v b"
    and "\<And>d. d \<noteq> c \<Longrightarrow> \<not> reserved_id d \<Longrightarrow> map_option durable_part (get_session d b') = map_option durable_part (get_session d b)"
    and "b_storage b' = b_storage b @ cs" and "\<forall>k \<in> set cs. command_client k \<in> {None, Some c}"
    and "\<not> reserved_id c \<Longrightarrow> matches_row P (rows_after (b_storage b) v c) (get_session c b) \<Longrightarrow>
      matches_row P (rows_after cs (fold replay (b_storage b) v) c) (get_session c b')"
  shows "sessions_in_step P v b'"
  unfolding sessions_in_step_def
proof (intro allI impI)
  fix d assume d: "\<not> reserved_id d"
  with assms(1) have old: "matches_row P (rows_after (b_storage b) v d) (get_session d b)" by (simp add: sessions_in_step_def)
  show "matches_row P (rows_after (b_storage b') v d) (get_session d b')"
  proof (cases "d = c")
    case True
    with assms(3,5) d old show ?thesis by simp
  next
    case False
    with assms(4) have "\<forall>k \<in> set cs. command_client k \<noteq> Some d" by auto
    then have "rows_after (b_storage b') v d = rows_after (b_storage b) v d" by (simp add: assms(3) rows_other)
    with old matches_row_cong [OF assms(2) [OF False d]] show ?thesis by simp
  qed
qed

subsection \<open>Steps that leave rows and durable state alone\<close>

definition keeps_durable :: "broker \<Rightarrow> broker \<Rightarrow> bool" where
  "keeps_durable b b' \<longleftrightarrow>
     (\<forall>c. \<not> reserved_id c \<longrightarrow> map_option durable_part (get_session c b') = map_option durable_part (get_session c b))
     \<and> (\<exists>cs. b_storage b' = b_storage b @ cs \<and> (\<forall>k \<in> set cs. command_client k = None))"

lemma in_step_frame:
  assumes "keeps_durable b b'" and "sessions_in_step P v b"
  shows "sessions_in_step P v b'"
proof -
  from assms(1) obtain cs where cs: "b_storage b' = b_storage b @ cs" "\<forall>k \<in> set cs. command_client k = None"
    and part: "\<And>c. \<not> reserved_id c \<Longrightarrow> map_option durable_part (get_session c b') = map_option durable_part (get_session c b)"
    by (auto simp: keeps_durable_def)
  have "rows_after (b_storage b') v c = rows_after (b_storage b) v c" for c
    using cs rows_other [of cs c "fold replay (b_storage b) v"] by simp
  with assms(2) show ?thesis by (simp add: sessions_in_step_def matches_row_cong [OF part])
qed

lemma keeps_durable_refl [simp]: "keeps_durable b b"
  by (simp add: keeps_durable_def)

lemma keeps_durable_trans [trans]: "keeps_durable a b \<Longrightarrow> keeps_durable b c \<Longrightarrow> keeps_durable a c"
  by (fastforce simp: keeps_durable_def)

lemma keeps_durable_same: "b_sessions b' = b_sessions b \<Longrightarrow> b_storage b' = b_storage b \<Longrightarrow> keeps_durable b b'"
  by (simp add: keeps_durable_def)

lemma durable_conn: "same_conn s s' \<Longrightarrow> durable_part s' = durable_part s"
  by (simp add: durable_part_def same_conn_fields)

lemma durable_fields [simp]:
  "durable_part (s\<lparr>ss_inbound_qos2 := q\<rparr>) = durable_part s" "durable_part (s\<lparr>ss_inbound_aliases := al\<rparr>) = durable_part s"
  "durable_part (s\<lparr>ss_out := out\<rparr>) = durable_part s" "durable_part (s\<lparr>ss_will := w\<rparr>) = durable_part s"
  "durable_part (s\<lparr>ss_awaiting_puback := x\<rparr>) = durable_part s" "durable_part (s\<lparr>ss_awaiting_pubrec := y\<rparr>) = durable_part s"
  "durable_part (s\<lparr>ss_awaiting_pubcomp := z\<rparr>) = durable_part s"
  by (simp_all add: durable_part_def)

lemma keeps_durable_insert:
  "get_session c b = Some s \<Longrightarrow> durable_part s' = durable_part s \<Longrightarrow>
   keeps_durable b (b\<lparr>b_sessions := hm_insert c s' (b_sessions b)\<rparr>)"
  by (simp add: keeps_durable_def)

lemma keeps_durable_update: "(\<And>s. durable_part (f s) = durable_part s) \<Longrightarrow> keeps_durable b (update_session c f b)"
  by (auto simp: update_session_def keeps_durable_insert split: option.split)

lemma keeps_durable_simps [simp]:
  "keeps_durable b (send_to c i b)" "keeps_durable b (count_dropped n b)" "keeps_durable b (spawn t b)"
  "keeps_durable b (b\<lparr>b_metrics := mx\<rparr>)" "keeps_durable b (b\<lparr>b_retained := r\<rparr>)" "keeps_durable b (b\<lparr>b_tasks := ts\<rparr>)"
  "keeps_durable b (b\<lparr>b_auto_id_counter := k\<rparr>)" "keeps_durable b (schedule_will c e m d w b)"
  "keeps_durable b (store_retained tp m b)"
proof -
  show "keeps_durable b (send_to c i b)"
    unfolding send_to_def by (rule keeps_durable_update) (simp add: durable_conn)
  show "keeps_durable b (store_retained tp m b)"
    by (auto simp: keeps_durable_def store_retained_def store_log)
qed (rule keeps_durable_same; simp add: schedule_will_def)+

lemma keeps_durable_route [simp]: "keeps_durable b (snd (route P now publisher m b))"
proof -
  have "map_option durable_part (get_session c (snd (route P now publisher m b))) = map_option durable_part (get_session c b)" for c
  proof (cases "get_session c b")
    case None
    with route_epoch [of c P now publisher m b] show ?thesis by simp
  next
    case (Some s)
    from route_same_conn [OF this, of P now publisher m] Some show ?thesis by (auto simp: durable_conn)
  qed
  then show ?thesis by (simp add: keeps_durable_def)
qed

lemma keeps_durable_retain_route: "keeps_durable b (snd (route P now who m (if r then store_retained t m b else b)))"
  using keeps_durable_trans [OF keeps_durable_simps(9) keeps_durable_route] by simp

lemma keeps_durable_route_publish: "keeps_durable b (snd (route_publish P now c p m b))"
proof -
  have upd: "keeps_durable b (update_session c (\<lambda>s. s\<lparr>ss_inbound_qos2 := f s\<rparr>) b)" for f
    by (rule keeps_durable_update) simp
  have r: "keeps_durable b (send_to c i (snd (route P now (Some c) m b)))" for i
    by (rule keeps_durable_trans [OF keeps_durable_route keeps_durable_simps(1)])
  have r2: "keeps_durable b (send_to c i (snd (route P now (Some c) m
      (update_session c (\<lambda>s. s\<lparr>ss_inbound_qos2 := f s\<rparr>) b))))" for f i
    by (rule keeps_durable_trans [OF keeps_durable_trans [OF upd keeps_durable_route] keeps_durable_simps(1)])
  show ?thesis
    by (simp add: route_publish_def Let_def case_prod_beta r r2 split: qos.split option.split)
qed

lemma keeps_durable_publish: "keeps_durable b (snd (handle_publish P now c e p b))"
proof -
  let ?b = "b\<lparr>b_metrics := (b_metrics b)\<lparr>mx_publish_received := mx_publish_received (b_metrics b) + 1\<rparr>\<rparr>"
  have acc: "keeps_durable x (snd (accept_publish P now c p' x))" for x p'
    using keeps_durable_trans [OF keeps_durable_simps(9) keeps_durable_route_publish] keeps_durable_route_publish
    by (simp add: accept_publish_def Let_def)
  have auth: "keeps_durable x (snd (authorize_publish P now c p' x))" for x p'
    by (simp add: authorize_publish_def Let_def refuse_publish_def acc split: qos.split)
  have al: "keeps_durable x b'" if "resolve_alias c s p x = Inr (p', b')" for s p' b' x
    using that by (auto dest!: resolve_alias_state intro!: keeps_durable_update)
  have "keeps_durable b (snd (authorize_publish P now c p' b'))" if "resolve_alias c s p ?b = Inr (p', b')" for s p' b'
    by (rule keeps_durable_trans [OF keeps_durable_trans [OF keeps_durable_simps(4) al [OF that]] auth])
  then show ?thesis
    by (simp add: handle_publish_def Let_def split: option.split sum.split)
qed

lemma durable_flush: "durable_part (snd (flush_queue P now s)) = durable_part s"
  by (simp add: durable_conn)

lemma durable_ack:
  "durable_part (snd (puback_session P now ack s)) = durable_part s" "durable_part (snd (pubrec_session P ack s)) = durable_part s"
  "durable_part (snd (pubrel_session ack s)) = durable_part s" "durable_part (snd (pubcomp_session P now ack s)) = durable_part s"
proof -
  have send: "durable_part (session_send t i) = durable_part t" for t i by (simp add: durable_conn)
  show "durable_part (snd (puback_session P now ack s)) = durable_part s" "durable_part (snd (pubcomp_session P now ack s)) = durable_part s"
    by (simp_all add: puback_session_def pubcomp_session_def durable_flush)
  show "durable_part (snd (pubrec_session P ack s)) = durable_part s" "durable_part (snd (pubrel_session ack s)) = durable_part s"
    by (simp_all add: pubrec_session_def pubrel_session_def Let_def send)
qed

lemma keeps_durable_ack: "(\<And>s. durable_part (snd (f s)) = durable_part s) \<Longrightarrow> keeps_durable b (snd (on_ack c e f b))"
  using keeps_durable_trans [OF keeps_durable_insert keeps_durable_simps(2)]
  by (simp add: on_ack_def case_prod_beta split: option.split)

lemma keeps_durable_acks:
  "keeps_durable b (snd (handle_puback P now c e ack b))" "keeps_durable b (snd (handle_pubrec P c e ack b))"
  "keeps_durable b (snd (handle_pubrel c e ack b))" "keeps_durable b (snd (handle_pubcomp P now c e ack b))"
  unfolding ack_handler_defs by (rule keeps_durable_ack; rule durable_ack)+

lemma keeps_durable_sys: "keeps_durable b (publish_sys P now es b)"
proof (induction es arbitrary: b)
  case (Cons e es)
  obtain t p where e: "e = (t, p)" by force
  from keeps_durable_trans [OF keeps_durable_trans [OF keeps_durable_simps(5) keeps_durable_route] Cons] show ?case by (simp add: e)
qed simp

lemma bridge_reserved: "reserved_id (bridge_client name)"
  using bridge_name by (simp add: reserved_id_def is_bridge_id_def)

lemma keeps_durable_bridge:
  "keeps_durable b (snd (register_bridge (bridge_client name) out b))"
  "keeps_durable b (bridge_add_subscription (bridge_client name) flt nl b)"
  "keeps_durable b (deregister_bridge (bridge_client name) e b)"
  using bridge_reserved [of name]
  by (auto simp: keeps_durable_def register_bridge_def Let_def bridge_add_subscription_def update_session_def deregister_bridge_def
      split: option.split)

lemma keeps_durable_deliver: "keeps_durable b (fst (deliver_retained P now c send b d))"
proof (induction P now c send b d rule: deliver_retained.induct)
  case (2 P now c m q ids rest b dropped)
  show ?case
  proof (cases "get_session c b")
    case (Some s)
    have ins: "keeps_durable b (b\<lparr>b_sessions := hm_insert c (snd (deliver_to_session P now s m q True ids (max_queued b))) (b_sessions b)\<rparr>)"
      by (rule keeps_durable_insert [OF Some]) (simp add: durable_conn)
    from keeps_durable_trans [OF ins] 2(2) Some show ?thesis by (simp add: case_prod_beta Let_def)
  qed (use 2(1) in simp)
qed simp

lemma subscribe_tail:
  "keeps_durable b (count_dropped d (fst (deliver_retained P now c send (send_to c x b) n)))"
  by (rule keeps_durable_trans [OF keeps_durable_trans [OF keeps_durable_simps(1) keeps_durable_deliver] keeps_durable_simps(2)])

subsection \<open>Steps that change rows\<close>

lemma matches_row_None [simp]: "matches_row P row None \<longleftrightarrow> row = None"
  by (simp add: matches_row_def)

lemma matches_row_Some [simp]:
  "matches_row P row (Some s) \<longleftrightarrow> (if ss_persistent s then (\<exists>w. row = Some w \<and> saved P w s) else row = None)"
  by (simp add: matches_row_def)

lemma in_step_add_filter:
  assumes law: "filter_law P" and in_step: "sessions_in_step P v b" and s: "get_session c b = Some s"
    and parsed: "parse_filter P (tf_filter f) = Some parsed"
  shows "sessions_in_step P v (snd (add_filter c sub_id f parsed s b))"
proof -
  let ?new = "new_subscription (granted_qos b f) sub_id f parsed" and ?r = "sub_record_of (granted_qos b f) sub_id f"
  let ?s = "snd (upsert_subscription s ?new)"
  have up: "ss_subscriptions ?s = snd (upsert_list (ss_subscriptions s) ?new)" "ss_persistent ?s = ss_persistent s"
    "ss_session_expiry_interval ?s = ss_session_expiry_interval s" "ss_identity ?s = ss_identity s"
    by (simp_all add: upsert_subscription_def case_prod_beta)
  have sub: "subs_saved P (subs(tf_filter f := Some ?r)) (snd (upsert_list (ss_subscriptions s) ?new))"
    if "subs_saved P subs (ss_subscriptions s)" for subs
    by (rule subs_saved_upsert [OF law that]) (simp_all add: restored_accepted [OF parsed], simp add: sub_record_of_def)
  have log: "b_storage (snd (add_filter c sub_id f parsed s b)) = b_storage b @ (if ss_persistent s then [UpsertSubscription c ?r] else [])"
    by (simp add: add_filter_def Let_def case_prod_beta up store_log)
  have k: "sr_filter ?r = tf_filter f" by (simp add: sub_record_of_def)
  show ?thesis
  proof (rule in_step_local [OF in_step _ log])
    show "map_option durable_part (get_session d (snd (add_filter c sub_id f parsed s b))) = map_option durable_part (get_session d b)"
      if "d \<noteq> c" for d
      using that by (simp add: add_filter_def Let_def case_prod_beta)
  next
    assume "matches_row P (rows_after (b_storage b) v c) (get_session c b)"
    with sub show "matches_row P (rows_after (if ss_persistent s then [UpsertSubscription c ?r] else []) (fold replay (b_storage b) v) c)
        (get_session c (snd (add_filter c sub_id f parsed s b)))"
      by (auto simp: s add_filter_session up with_subs_def k)
  qed auto
qed

lemma check_filter_parsed: "check_filter P a who f = Inr parsed \<Longrightarrow> parse_filter P (tf_filter f) = Some parsed"
  by (auto simp: check_filter_def split: if_splits option.splits)

lemma in_step_subscribe_loop:
  assumes "filter_law P"
  shows "sessions_in_step P v b \<Longrightarrow> sessions_in_step P v (snd (subscribe_loop P now c who sub_id fs b))"
proof (induction fs arbitrary: b)
  case (Cons f fs)
  show ?case
  proof (cases "check_filter P (b_acl b) who f")
    case (Inl rc)
    with Cons show ?thesis by (simp only: subscribe_loop_Inl snd_conv)
  next
    case (Inr parsed)
    show ?thesis
    proof (cases "get_session c b")
      case None
      with Inr Cons.prems show ?thesis by simp
    next
      case (Some s)
      from Cons.IH [OF in_step_add_filter [OF assms Cons.prems Some check_filter_parsed [OF Inr]]]
      show ?thesis by (simp only: subscribe_loop_Inr [OF Inr Some] Let_def snd_conv)
    qed
  qed
qed simp

lemma in_step_subscribe:
  assumes "filter_law P" and "sessions_in_step P v b"
  shows "sessions_in_step P v (snd (handle_subscribe P now c e sub b))"
proof -
  have loop: "sessions_in_step P v (snd (subscribe_loop P now c who sub_id fs b))" for who sub_id fs
    by (rule in_step_subscribe_loop [OF assms])
  show ?thesis
  proof (cases "get_session c b")
    case (Some s)
    obtain r b1 where l: "subscribe_loop P now c (who_of (ss_identity s))
        (case pr_subscription_identifiers (sb_properties sub) of [] \<Rightarrow> None | i # _ \<Rightarrow> Some i) (sb_filters sub) b = (r, b1)"
      by force
    have "sessions_in_step P v b1" using loop l by (metis snd_conv)
    from this in_step_frame [OF subscribe_tail this] Some l assms(2) show ?thesis
      by (simp add: handle_subscribe_def Let_def case_prod_beta split: option.split)
  qed (simp add: handle_subscribe_def Let_def assms(2))
qed

lemma in_step_unsubscribe_one:
  assumes law: "filter_law P" and in_step: "sessions_in_step P v b" and s: "get_session c b = Some s"
    and key: "unsub_key P flt = (f, share)" and r: "remove_subscription s f share = (removed, s')"
    and b1: "b1 = b\<lparr>b_sessions := hm_insert c s' (b_sessions b)\<rparr>"
  shows "sessions_in_step P v (if removed \<and> ss_persistent s' then store (DeleteSubscription c flt) b1 else b1)"
proof -
  have up: "ss_persistent s' = ss_persistent s" "ss_session_expiry_interval s' = ss_session_expiry_interval s" "ss_identity s' = ss_identity s"
    using r by (auto simp: remove_subscription_def Let_def)
  have gone: "subs_saved P (subs(flt := None)) (ss_subscriptions s')" if "subs_saved P subs (ss_subscriptions s)" for subs
    using subs_saved_remove [OF law that key] r by simp
  have same: "s' = s" if "\<not> removed"
  proof -
    have "(f, share) \<notin> sub_key ` set (ss_subscriptions s)" using remove_iff [of s f share] that r by simp
    then have "filter (\<lambda>x. \<not> (sub_filter x = f \<and> sub_share_name x = share)) (ss_subscriptions s) = ss_subscriptions s"
      by (auto simp: filter_id_conv sub_key_def)
    with r show ?thesis by (auto simp: remove_subscription_def Let_def)
  qed
  let ?cs = "if removed \<and> ss_persistent s then [DeleteSubscription c flt] else []"
  show ?thesis
  proof (rule in_step_local [OF in_step, where c = c and cs = ?cs])
    assume "matches_row P (rows_after (b_storage b) v c) (get_session c b)"
    with gone same show "matches_row P (rows_after ?cs (fold replay (b_storage b) v) c)
        (get_session c (if removed \<and> ss_persistent s' then store (DeleteSubscription c flt) b1 else b1))"
      by (auto simp: s b1 up with_subs_def)
  qed (auto simp: b1 up store_log)
qed

lemma in_step_unsubscribe_loop:
  assumes "filter_law P"
  shows "sessions_in_step P v b \<Longrightarrow> sessions_in_step P v (snd (unsubscribe_loop P c fs b))"
proof (induction fs arbitrary: b)
  case (Cons flt fs)
  obtain f share where k: "unsub_key P flt = (f, share)" by force
  then have sm: "(case parse_filter P flt of Some p \<Rightarrow> p | None \<Rightarrow> (None, flt)) = (share, f)"
    by (auto simp: unsub_key_def split: option.splits)
  show ?case
  proof (cases "get_session c b")
    case None
    with Cons sm show ?thesis by (simp add: case_prod_beta Let_def)
  next
    case (Some s)
    obtain removed s' where r: "remove_subscription s f share = (removed, s')" by force
    from Cons.IH [OF in_step_unsubscribe_one [OF assms Cons.prems Some k r refl]] Some sm r
    show ?thesis by (cases "removed \<and> ss_persistent s'") (auto simp: case_prod_beta Let_def)
  qed
qed simp

lemma in_step_unsubscribe:
  "filter_law P \<Longrightarrow> sessions_in_step P v b \<Longrightarrow> sessions_in_step P v (snd (handle_unsubscribe P c e u b))"
  using in_step_frame [OF keeps_durable_simps(1) in_step_unsubscribe_loop]
  by (simp add: handle_unsubscribe_def case_prod_beta split: option.split)

lemma in_step_expiry: "sessions_in_step P v b \<Longrightarrow> sessions_in_step P v (update_expiry c x b)"
proof (cases "get_session c b")
  case (Some s)
  assume in_step: "sessions_in_step P v b"
  let ?e = "min x (cfg_max_session_expiry (b_config b))"
  let ?cs = "if ss_persistent s then [UpsertSession c ?e (ss_identity s)] else []"
  show ?thesis
  proof (rule in_step_local [OF in_step, where c = c and cs = ?cs])
    assume "matches_row P (rows_after (b_storage b) v c) (get_session c b)"
    then show "matches_row P (rows_after ?cs (fold replay (b_storage b) v) c) (get_session c (update_expiry c x b))"
      by (auto simp: Some update_expiry_def Let_def)
  qed (auto simp: Some update_expiry_def Let_def store_log)
qed (simp add: update_expiry_def)

lemma in_step_idle: "sessions_in_step P v b \<Longrightarrow> sessions_in_step P v (remove_if_idle c e b)"
proof (cases "\<exists>s. get_session c b = Some s \<and> ss_epoch s = e \<and> \<not> is_online s")
  case True
  assume in_step: "sessions_in_step P v b"
  from True have log: "b_storage (remove_if_idle c e b) = b_storage b @ [DeleteSession c]"
    by (auto simp: remove_if_idle_def Let_def store_log)
  show ?thesis
    by (rule in_step_local [OF in_step _ log]) (use True in \<open>auto simp: get_remove_if_idle\<close>)
next
  case False
  then have "remove_if_idle c e b = b" by (auto simp: remove_if_idle_def split: option.split)
  then show "sessions_in_step P v b \<Longrightarrow> ?thesis" by simp
qed

lemma in_step_closed:
  assumes "sessions_in_step P v b"
  shows "sessions_in_step P v (handle_connection_closed c e w b)"
proof (cases "\<exists>s. get_session c b = Some s \<and> ss_epoch s = e")
  case True
  then obtain s where s: "get_session c b = Some s" "ss_epoch s = e" by blast
  let ?b = "b\<lparr>b_sessions := hm_insert c (snd (close_session w s)) (b_sessions b)\<rparr>"
  have ins: "keeps_durable b ?b"
    by (rule keeps_durable_insert [OF s(1)]) (simp add: close_session_def Let_def go_offline_def)
  have will: "keeps_durable b (case x of None \<Rightarrow> ?b | Some (m, delay, owner) \<Rightarrow> schedule_will c e m delay owner ?b)" for x
    using keeps_durable_trans [OF ins keeps_durable_simps(8)] ins by (simp split: option.split)
  show ?thesis
    using in_step_idle [OF in_step_frame [OF will assms]]
      in_step_frame [OF keeps_durable_trans [OF will keeps_durable_simps(3)] assms] s
    by (simp add: handle_connection_closed_def Let_def case_prod_beta)
next
  case False
  with assms show ?thesis by (auto simp: handle_connection_closed_def split: option.split)
qed

lemma rows_delete:
  "rows_after (map (\<lambda>x. DeleteSubscription (cl x) (key x)) xs) v c =
     map_option (\<lambda>(e, owner, subs). (e, owner, \<lambda>k. if k \<in> key ` {x \<in> set xs. cl x = c} then None else subs k)) (sv_sessions v c)"
proof (induction xs arbitrary: v)
  case Nil
  show ?case by (simp add: option.map_ident case_prod_beta)
next
  case (Cons x xs)
  have "sv_sessions (replay (DeleteSubscription (cl x) (key x)) v) c =
      map_option (\<lambda>(e, owner, subs). (e, owner, if cl x = c then subs(key x := None) else subs)) (sv_sessions v c)"
    by (cases "sv_sessions v c") (auto simp: with_subs_def)
  then show ?case
    by (cases "sv_sessions v c") (auto simp: Cons intro!: ext split: if_splits)
qed

text \<open>The policy prunes exactly what is deleted.\<close>

lemma saved_stored_key_inj:
  assumes law: "filter_law P" and saved: "subs_saved P subs xs"
    and x: "x \<in> set xs" and y: "y \<in> set xs" and key: "stored_key y = stored_key x"
  shows "y = x"
proof -
  from x y saved have "x \<in> restore_subscription P ` ran subs" "y \<in> restore_subscription P ` ran subs"
    by (simp_all add: subs_saved_def)
  then obtain k r k' r' where r: "x = restore_subscription P r" "subs k = Some r"
    and r': "y = restore_subscription P r'" "subs k' = Some r'" by (auto simp: ran_def)
  with saved have "sr_filter r = k" "sr_filter r' = k'" by (simp_all add: subs_saved_def)
  with key r r' show ?thesis by (simp add: restored_stored_key [OF law])
qed

lemma subs_saved_prune:
  assumes law: "filter_law P" and saved: "subs_saved P subs (ss_subscriptions s)"
  shows "subs_saved P (\<lambda>k. if k \<in> stored_key ` set (revoked P a who s) then None else subs k)
     (ss_subscriptions (prune P a who s))"
proof -
  let ?keep = "\<lambda>x. can_subscribe P a who (sub_filter x)" and ?K = "stored_key ` set (revoked P a who s)"
  have "?keep x \<longleftrightarrow> stored_key x \<notin> ?K" if "x \<in> set (ss_subscriptions s)" for x
    using that by (auto simp: revoked_def dest: saved_stored_key_inj [OF law saved that])
  from subs_saved_filter [OF law saved this] show ?thesis by (simp add: prune_def)
qed

text \<open>The log of a CONNECT, part by part.\<close>

definition take_over_log :: "connect \<Rightarrow> string \<Rightarrow> string option \<Rightarrow> session option \<Rightarrow> command list" where
  "take_over_log cn c identity old =
     (if cn_clean_start cn then [DeleteSession c]
      else case old of
             None \<Rightarrow> []
           | Some s \<Rightarrow> if identity_changed (ss_identity s) identity \<and> ss_persistent s then [ClearSubscriptions c] else [])"

definition reauthorize_log :: "protocol \<Rightarrow> acl \<Rightarrow> bool \<Rightarrow> string \<Rightarrow> session \<Rightarrow> command list" where
  "reauthorize_log P a present c s =
     (if present \<and> ss_subscriptions s \<noteq> [] \<and> acl_enforced a \<and> ss_persistent s
      then map (\<lambda>x. DeleteSubscription c (stored_key x)) (revoked P a (who_of (ss_identity s)) s) else [])"

lemma detach_log: "b_storage (detach c b) = b_storage b"
  by (simp add: detach_def split: option.split)

lemma take_over_logs:
  "b_storage (snd (take_over cn c identity b)) = b_storage b @ take_over_log cn c identity (get_session c b)"
  by (auto simp: take_over_def take_over_log_def Let_def store_log detach_log split: option.split)

lemma reauthorize_logs:
  "b_storage (snd (reauthorize P present c s b)) = b_storage b @ reauthorize_log P (b_acl b) present c s"
  by (auto simp: reauthorize_def reauthorize_log_def Let_def prune_def)

lemma bind_logs:
  fixes b cn ver
  defines "e \<equiv> requested_expiry (b_config b) ver cn"
  shows "b_storage (snd (bind_connection P now ver cn out identity c assigned b)) =
    b_storage b @ take_over_log cn c identity (get_session c b)
      @ reauthorize_log P (b_acl b) (old_session cn c identity b \<noteq> None) c
          (bind_session c assigned cn (b_next_epoch b) e out identity (fresh_or_old cn c identity e b))
      @ (if 0 < e \<and> \<not> assigned then [UpsertSession c e identity] else [])"
  by (simp add: bind_connection_def Let_def case_prod_beta count_connected_def store_log reauthorize_logs take_over_logs
      get_take_over fresh_or_old_def e_def)

text \<open>The row of a session during a CONNECT: its subscriptions, before the new expiry and owner are stored.\<close>

definition row_has :: "protocol \<Rightarrow> bool \<Rightarrow> session_view option \<Rightarrow> subscription list \<Rightarrow> bool" where
  "row_has P durable row xs \<longleftrightarrow>
     (if durable then (case row of None \<Rightarrow> xs = [] | Some (_, _, subs) \<Rightarrow> subs_saved P subs xs) else row = None)"

lemma row_take_over:
  assumes "matches_row P (rows_after cs v c) (get_session c b)"
    and "cn_clean_start cn \<or> (\<forall>s. get_session c b = Some s \<longrightarrow> ss_persistent s = durable)"
  shows "row_has P durable (rows_after (take_over_log cn c identity (get_session c b)) (fold replay cs v) c)
     (ss_subscriptions (fresh_or_old cn c identity e b))"
proof (cases "cn_clean_start cn \<or> get_session c b = None")
  case True
  then have "old_session cn c identity b = None" by (auto simp: old_session_def)
  then have "ss_subscriptions (fresh_or_old cn c identity e b) = []" by (simp add: fresh_or_old_def session_new_def)
  with True assms(1) show ?thesis by (auto simp: row_has_def take_over_log_def)
next
  case False
  then obtain s where s: "get_session c b = Some s" "\<not> cn_clean_start cn" by auto
  with assms(2) have p: "ss_persistent s = durable" by simp
  have subs: "ss_subscriptions (fresh_or_old cn c identity e b) =
      (if identity_changed (ss_identity s) identity then [] else ss_subscriptions s)"
    by (simp add: fresh_or_old_def old_session_def s Let_def wipe_def)
  from assms(1) s p show ?thesis
    by (auto simp: row_has_def take_over_log_def subs with_subs_def split: if_splits)
qed

lemma row_reauthorize:
  assumes law: "filter_law P" and row: "row_has P (ss_persistent s) (sv_sessions v c) (ss_subscriptions s)"
  shows "row_has P (ss_persistent s) (rows_after (reauthorize_log P (b_acl b) present c s) v c)
     (ss_subscriptions (fst (reauthorize P present c s b)))"
proof (cases "present \<and> ss_subscriptions s \<noteq> [] \<and> acl_enforced (b_acl b)")
  case True
  let ?gone = "revoked P (b_acl b) (who_of (ss_identity s)) s"
  have log: "reauthorize_log P (b_acl b) present c s = (if ss_persistent s then map (\<lambda>x. DeleteSubscription c (stored_key x)) ?gone else [])"
    using True by (simp add: reauthorize_log_def)
  have s': "fst (reauthorize P present c s b) = prune P (b_acl b) (who_of (ss_identity s)) s"
    using True by (simp add: reauthorize_def Let_def)
  show ?thesis
  proof (cases "ss_persistent s")
    case True
    with row \<open>present \<and> _\<close> obtain e ow subs where w: "sv_sessions v c = Some (e, ow, subs)" "subs_saved P subs (ss_subscriptions s)"
      by (auto simp: row_has_def split: option.splits)
    from subs_saved_prune [OF law w(2)] True show ?thesis
      by (simp add: row_has_def log s' rows_delete [where cl = "\<lambda>_. c"] w(1))
  next
    case False
    with row show ?thesis by (simp add: row_has_def log)
  qed
next
  case False
  then have "reauthorize_log P (b_acl b) present c s = []" "fst (reauthorize P present c s b) = s"
    by (auto simp: reauthorize_log_def reauthorize_def)
  with row show ?thesis by simp
qed

lemma in_step_bind:
  assumes law: "filter_law P" and in_step: "sessions_in_step P v b"
    and steady: "cn_clean_start cn \<or> (\<forall>s. get_session c b = Some s \<longrightarrow>
      ss_persistent s = (0 < requested_expiry (b_config b) ver cn \<and> \<not> assigned))"
  shows "sessions_in_step P v (snd (bind_connection P now ver cn out identity c assigned b))"
proof -
  define e where "e = requested_expiry (b_config b) ver cn"
  define s1 where "s1 = bind_session c assigned cn (b_next_epoch b) e out identity (fresh_or_old cn c identity e b)"
  define present where "present = (old_session cn c identity b \<noteq> None)"
  let ?log = "take_over_log cn c identity (get_session c b) @ reauthorize_log P (b_acl b) present c s1
      @ (if 0 < e \<and> \<not> assigned then [UpsertSession c e identity] else [])"
  have s1: "ss_persistent s1 = (0 < e \<and> \<not> assigned)" "ss_subscriptions s1 = ss_subscriptions (fresh_or_old cn c identity e b)"
    "ss_session_expiry_interval s1 = e" "ss_identity s1 = identity"
    by (simp_all add: s1_def bind_session_def)
  let ?s2 = "fst (reauthorize P present c s1 b)"
  have new: "durable_part (resumed_session P now ver cn out identity c assigned b) = durable_part ?s2"
    using durable_conn [OF resumed_conn [of P now ver cn out identity c assigned b]]
    by (simp add: connected_session_def Let_def e_def s1_def present_def)
  have s2: "ss_persistent ?s2 = ss_persistent s1" "ss_session_expiry_interval ?s2 = e" "ss_identity ?s2 = identity"
    by (simp_all add: reauthorize_def Let_def prune_def s1)
  show ?thesis
  proof (rule in_step_local [OF in_step, where c = c and cs = ?log])
    show "b_storage (snd (bind_connection P now ver cn out identity c assigned b)) = b_storage b @ ?log"
      unfolding bind_logs e_def s1_def present_def ..
    show "\<forall>k \<in> set ?log. command_client k \<in> {None, Some c}"
      by (auto simp: take_over_log_def reauthorize_log_def split: option.splits if_splits)
  next
    assume "matches_row P (rows_after (b_storage b) v c) (get_session c b)"
    from row_take_over [OF this steady, of identity e]
    have "row_has P (ss_persistent s1) (rows_after (take_over_log cn c identity (get_session c b)) (fold replay (b_storage b) v) c)
        (ss_subscriptions s1)" by (simp add: s1 e_def)
    from row_reauthorize [OF law this, of b present]
    have "matches_row P (rows_after ?log (fold replay (b_storage b) v) c) (Some ?s2)"
      by (auto simp: row_has_def s2 s1 split: option.splits if_splits)
    moreover have "map_option durable_part (get_session c (snd (bind_connection P now ver cn out identity c assigned b)))
        = map_option durable_part (Some ?s2)"
      by (simp add: bind_connection_sessions new)
    ultimately show "matches_row P (rows_after ?log (fold replay (b_storage b) v) c)
        (get_session c (snd (bind_connection P now ver cn out identity c assigned b)))"
      using matches_row_cong by blast
  qed (simp add: bind_connection_sessions)
qed

text \<open>A policy reload deletes, client by client, what it revokes.\<close>

definition revoked_rows :: "protocol \<Rightarrow> acl \<Rightarrow> (string, session) hashmap \<Rightarrow> (string \<times> string) list" where
  "revoked_rows P a ss = concat (map (\<lambda>(_, s). if ss_persistent s
     then map (\<lambda>x. (ss_client_id s, stored_key x)) (revoked P a (who_of (ss_identity s)) s) else []) ss)"

lemma revoke_logs:
  "concat (map (\<lambda>(_, s). snd (revoke_session P a s)) ss) = map (\<lambda>x. DeleteSubscription (fst x) (snd x)) (revoked_rows P a ss)"
  by (induction ss) (auto simp: revoked_rows_def revoke_session_def Let_def)

lemma revoked_rows_of:
  assumes inv: "broker_inv b" and s: "get_session c b = Some s" "ss_persistent s"
  shows "snd ` {x \<in> set (revoked_rows P a (b_sessions b)). fst x = c} = stored_key ` set (revoked P a (who_of (ss_identity s)) s)"
proof -
  have wf: "hm_wf (b_sessions b)" using inv by (simp add: broker_inv_def sessions_ok_def)
  have mem: "(d, t) \<in> set (b_sessions b) \<longleftrightarrow> get_session d b = Some t" for d t using hm_get_iff [OF wf] by simp
  have id: "ss_client_id t = d" if "get_session d b = Some t" for d t
    using inv_session_ok [OF inv that] by (simp add: session_ok_def)
  have "{x \<in> set (revoked_rows P a (b_sessions b)). fst x = c} = (\<lambda>x. (c, stored_key x)) ` set (revoked P a (who_of (ss_identity s)) s)"
    using id s by (fastforce simp: revoked_rows_def mem)
  then show ?thesis by (simp add: image_image)
qed

lemma in_step_reload:
  assumes law: "filter_law P" and inv: "broker_inv b" and in_step: "sessions_in_step P v b"
  shows "sessions_in_step P v (snd (reload_acl P read_file toml b))"
proof -
  have "sessions_in_step P v (revoke_unauthorized_subscriptions P a (swap_acl a b))" if on: "acl_enforced a" for a
    unfolding sessions_in_step_def
  proof (intro allI impI)
    fix c assume "\<not> reserved_id c"
    with in_step have m: "matches_row P (rows_after (b_storage b) v c) (get_session c b)" by (simp add: sessions_in_step_def)
    have log: "b_storage (revoke_unauthorized_subscriptions P a (swap_acl a b)) =
        b_storage b @ map (\<lambda>x. DeleteSubscription (fst x) (snd x)) (revoked_rows P a (b_sessions b))"
      using on by (simp add: revoke_unauthorized_subscriptions_def revoke_logs swap_acl_def)
    have get: "get_session c (revoke_unauthorized_subscriptions P a (swap_acl a b)) = map_option (\<lambda>s. fst (revoke_session P a s)) (get_session c b)"
      using on by (simp add: get_revoke swap_acl_def)
    have part: "durable_part (fst (revoke_session P a s)) = durable_part (prune P a (who_of (ss_identity s)) s)" for s
      by (simp add: revoke_session_def Let_def durable_conn)
    show "matches_row P (rows_after (b_storage (revoke_unauthorized_subscriptions P a (swap_acl a b))) v c)
        (get_session c (revoke_unauthorized_subscriptions P a (swap_acl a b)))"
    proof (cases "get_session c b")
      case None
      with m show ?thesis by (simp add: get log rows_delete)
    next
      case (Some s)
      let ?pr = "prune P a (who_of (ss_identity s)) s"
      have pr: "ss_persistent ?pr = ss_persistent s" "ss_session_expiry_interval ?pr = ss_session_expiry_interval s"
        "ss_identity ?pr = ss_identity s" by (simp_all add: prune_def)
      have "matches_row P (rows_after (b_storage (revoke_unauthorized_subscriptions P a (swap_acl a b))) v c) (Some ?pr)"
        using m Some subs_saved_prune [OF law]
        by (cases "ss_persistent s") (auto simp: pr log rows_delete revoked_rows_of [OF inv Some])
      then show ?thesis using matches_row_cong [of "Some (fst (revoke_session P a s))" "Some ?pr" P] by (simp only: get Some option.map part)
    qed
  qed
  moreover have "revoke_unauthorized_subscriptions P a (swap_acl a b) = swap_acl a b" if "\<not> acl_enforced a" for a
    using that by (simp add: revoke_unauthorized_subscriptions_def)
  moreover have "sessions_in_step P v (swap_acl a b)" for a
    using in_step by (simp add: sessions_in_step_def swap_acl_def)
  ultimately have "sessions_in_step P v (revoke_unauthorized_subscriptions P a (swap_acl a b))" for a
    by (cases "acl_enforced a") simp_all
  with in_step show ?thesis by (simp add: reload_acl_def split: option.split sum.split)
qed

subsection \<open>Runs\<close>

text \<open>A CONNECT that keeps a session must not change its durability.\<close>

definition keeps_durability :: "broker \<Rightarrow> broker \<Rightarrow> bool" where
  "keeps_durability b b' \<longleftrightarrow>
     (\<forall>c s s'. \<not> reserved_id c \<and> get_session c b = Some s \<and> get_session c b' = Some s' \<longrightarrow> ss_persistent s' = ss_persistent s)"

inductive durable_run :: "protocol \<Rightarrow> pbkdf2_verify \<Rightarrow> broker \<Rightarrow> broker \<Rightarrow> bool" for P kdf where
  durable_refl: "durable_run P kdf b b"
| durable_step: "durable_run P kdf b b' \<Longrightarrow> step P kdf b' b'' \<Longrightarrow> keeps_durability b' b'' \<Longrightarrow> durable_run P kdf b b''"
| durable_clean: "durable_run P kdf b b' \<Longrightarrow> cn_clean_start cn \<Longrightarrow>
    durable_run P kdf b (snd (handle_connect P kdf now cn channel_new identity b'))"

lemma subscribe_loop_persistent:
  "map_option ss_persistent (get_session c (snd (subscribe_loop P now c who sub_id fs b))) = map_option ss_persistent (get_session c b)"
proof (induction fs arbitrary: b)
  case (Cons f fs)
  show ?case
  proof (cases "check_filter P (b_acl b) who f")
    case (Inl rc)
    then show ?thesis by (simp only: subscribe_loop_Inl snd_conv Cons)
  next
    case (Inr parsed)
    show ?thesis
    proof (cases "get_session c b")
      case (Some s)
      have "ss_persistent (snd (upsert_subscription s x)) = ss_persistent s" for x by (simp add: upsert_subscription_def case_prod_beta)
      then show ?thesis
        by (simp only: subscribe_loop_Inr [OF Inr Some] Let_def snd_conv Cons add_filter_session Some option.map)
    qed (simp add: Inr)
  qed
qed simp

lemma keeps_durable_persistent:
  assumes "keeps_durable b b'" and "\<not> reserved_id c"
  shows "map_option ss_persistent (get_session c b') = map_option ss_persistent (get_session c b)"
proof -
  from assms have "map_option durable_part (get_session c b') = map_option durable_part (get_session c b)" by (simp add: keeps_durable_def)
  then show ?thesis by (cases "get_session c b"; cases "get_session c b'") (simp_all add: durable_part_def)
qed

lemma subscribe_persistent:
  assumes "\<not> reserved_id c"
  shows "map_option ss_persistent (get_session c (snd (handle_subscribe P now c e sub b))) = map_option ss_persistent (get_session c b)"
proof (cases "get_session c b")
  case (Some s)
  obtain r b1 where l: "subscribe_loop P now c (who_of (ss_identity s))
      (case pr_subscription_identifiers (sb_properties sub) of [] \<Rightarrow> None | i # _ \<Rightarrow> Some i) (sb_filters sub) b = (r, b1)"
    by force
  have "map_option ss_persistent (get_session c b1) = map_option ss_persistent (get_session c b)"
    using subscribe_loop_persistent l by (metis snd_conv)
  moreover have "map_option ss_persistent (get_session c (fst (deliver_retained P now c send (send_to c x b1) n))) =
      map_option ss_persistent (get_session c b1)" for send x n
    using keeps_durable_persistent [OF subscribe_tail assms, where b = b1] by simp
  ultimately show ?thesis using Some l
    by (cases r) (auto simp: handle_subscribe_def Let_def case_prod_beta simp del: map_option_eq_Some)
qed (simp add: handle_subscribe_def Let_def)

lemma unsubscribe_loop_persistent:
  "map_option ss_persistent (get_session c (snd (unsubscribe_loop P c fs b))) = map_option ss_persistent (get_session c b)"
proof (induction fs arbitrary: b)
  case (Cons flt fs)
  have r: "ss_persistent (snd (remove_subscription s f g)) = ss_persistent s" for s f g
    by (simp add: remove_subscription_def Let_def)
  show ?case
    by (cases "get_session c b") (simp_all add: Cons case_prod_beta Let_def r)
qed simp

lemma unsubscribe_persistent:
  "map_option ss_persistent (get_session c (snd (handle_unsubscribe P c e u b))) = map_option ss_persistent (get_session c b)"
proof (cases "get_session c b")
  case (Some s)
  have "map_option ss_persistent (get_session c (send_to c x b1)) = map_option ss_persistent (get_session c b1)" for x b1
    by (simp add: send_to_def option.map_comp comp_def)
  with unsubscribe_loop_persistent [of c P "us_filters u" b] Some show ?thesis
    by (auto simp: handle_unsubscribe_def case_prod_beta simp del: map_option_eq_Some)
qed (simp add: handle_unsubscribe_def)

lemma keeps_durability_frame: "keeps_durable b b' \<Longrightarrow> keeps_durability b b'"
  using keeps_durable_persistent [of b b'] unfolding keeps_durability_def by (metis option.map(2) option.inject)

lemma keeps_durability_own:
  assumes "own_step c b b'"
    and "\<not> reserved_id c \<Longrightarrow> map_option ss_persistent (get_session c b') = map_option ss_persistent (get_session c b)"
  shows "keeps_durability b b'"
  unfolding keeps_durability_def
proof (intro allI impI, elim conjE)
  fix d s s'
  assume "\<not> reserved_id d" "get_session d b = Some s" "get_session d b' = Some s'"
  with assms show "ss_persistent s' = ss_persistent s" by (cases "d = c") (auto simp: own_step_def)
qed

lemma keeps_durability_map:
  "(\<And>c s s'. get_session c b = Some s \<Longrightarrow> get_session c b' = Some s' \<Longrightarrow> ss_persistent s' = ss_persistent s) \<Longrightarrow> keeps_durability b b'"
  unfolding keeps_durability_def by blast

lemma keeps_durability_dispatch: "keeps_durability b (snd (dispatch_packet P now c e p b))"
proof -
  note f = keeps_durability_frame [OF keeps_durable_publish] keeps_durability_frame [OF keeps_durable_acks(1)]
    keeps_durability_frame [OF keeps_durable_acks(2)] keeps_durability_frame [OF keeps_durable_acks(3)]
    keeps_durability_frame [OF keeps_durable_acks(4)] keeps_durability_frame [OF keeps_durable_simps(1)]
    keeps_durability_frame [OF keeps_durable_refl]
  have "keeps_durability b (update_expiry c x b)" for x
    by (rule keeps_durability_map) (auto simp: update_expiry_def Let_def split: option.splits if_splits)
  then have d: "keeps_durability b (snd (handle_client_disconnect c e d b))" for d
    by (simp add: handle_client_disconnect_def f split: option.split)
  show ?thesis
    by (cases p) (simp_all add: dispatch_packet_def f d push_control_send_to keeps_durability_own [OF handle_subscribe_step subscribe_persistent]
        keeps_durability_own [OF handle_unsubscribe_step unsubscribe_persistent])
qed

lemma keeps_durability_closed: "keeps_durability b (handle_connection_closed c e w b)"
  by (rule keeps_durability_map)
    (auto simp: handle_connection_closed_def Let_def case_prod_beta get_remove_if_idle close_session_def go_offline_def
      split: option.splits if_splits)

lemma keeps_durability_expiry: "keeps_durability b (update_expiry c x b)"
  by (rule keeps_durability_map) (auto simp: update_expiry_def Let_def split: option.splits if_splits)

lemma keeps_durability_idle: "keeps_durability b (remove_if_idle c e b)"
  by (rule keeps_durability_map) (auto simp: get_remove_if_idle split: if_splits)

lemma keeps_durability_task: "keeps_durability b (snd (run_task P now t b))"
  by (cases t) (simp_all add: keeps_durability_idle fire_will_def keeps_durability_frame keeps_durable_retain_route)

lemma keeps_durable_channel:
  "keeps_durable b (update_session c (drain k) b)" "keeps_durable b (update_session c hang_up b)"
  by (rule keeps_durable_update, simp add: drain_def hang_up_def split: option.split)+

text \<open>Only CONNECT can do so: every other step keeps the durability of every session.\<close>

lemma durability_changed_by_connect_only:
  assumes "step P kdf b b'"
  shows "keeps_durability b b' \<or> (\<exists>now cn identity. b' = snd (handle_connect P kdf now cn channel_new identity b))"
  using assms
proof cases
  case (step_packet now c e p)
  then show ?thesis
    using keeps_durability_dispatch keeps_durability_frame [OF keeps_durable_refl] by (simp add: handle_packet_def split: option.split)
next
  case (step_task ts1 t ts2 now rest b'')
  with keeps_durability_task [of "b\<lparr>b_tasks := ts1 @ ts2\<rparr>" P now t] show ?thesis by (simp add: keeps_durability_def)
next
  case (step_inject now name m)
  then show ?thesis by (simp add: inject_publish_def keeps_durability_frame keeps_durable_retain_route)
next
  case (step_snapshot now uptime version)
  have "keeps_durability b (purge_retained now b)" by (rule keeps_durability_map) (simp add: purge_retained_def)
  with step_snapshot show ?thesis by (simp add: snapshot_broker)
next
  case (step_reload read_file toml)
  have "ss_persistent (fst (revoke_session P a s)) = ss_persistent s" for a s
    by (simp add: revoke_session_def Let_def prune_def)
  with step_reload show ?thesis
    by (auto simp: keeps_durability_def reload_acl_def swap_acl_def get_revoke split: option.splits sum.splits if_splits)
next
  case (step_accounting mx rl chans)
  have "keeps_durability b b'" by (rule keeps_durability_map) (simp add: step_accounting)
  then show ?thesis ..
qed (auto simp: keeps_durability_dispatch keeps_durability_closed keeps_durability_expiry keeps_durability_idle
    keeps_durability_frame keeps_durable_bridge keeps_durable_sys keeps_durable_channel)

lemma in_step_dispatch:
  assumes "filter_law P" and "sessions_in_step P v b"
  shows "sessions_in_step P v (snd (dispatch_packet P now c e p b))"
  using assms in_step_frame [OF keeps_durable_publish assms(2)] in_step_frame [OF keeps_durable_acks(1) assms(2)]
    in_step_frame [OF keeps_durable_acks(2) assms(2)] in_step_frame [OF keeps_durable_acks(3) assms(2)]
    in_step_frame [OF keeps_durable_acks(4) assms(2)] in_step_frame [OF keeps_durable_simps(1) assms(2)]
  by (cases p) (simp_all add: dispatch_packet_def in_step_subscribe in_step_unsubscribe handle_client_disconnect_def in_step_expiry
      push_control_send_to split: option.split)

lemma in_step_connect:
  assumes law: "filter_law P" and in_step: "sessions_in_step P v b"
    and steady: "cn_clean_start cn \<or> keeps_durability b (snd (handle_connect P kdf now cn out identity b))"
  shows "sessions_in_step P v (snd (handle_connect P kdf now cn out identity b))"
proof (cases rule: handle_connect_cases [of P kdf now cn out identity b])
  case (refused rc n)
  with in_step_frame [OF keeps_durable_simps(7) in_step] show ?thesis by simp
next
  case (accepted ver who c assigned n)
  let ?b = "b\<lparr>b_auto_id_counter := n\<rparr>"
  have p: "ss_persistent (resumed_session P now ver cn out who c assigned ?b) = (0 < requested_expiry (b_config ?b) ver cn \<and> \<not> assigned)"
    by (simp add: same_conn_fields [OF resumed_conn] connected_session_def Let_def reauthorize_def prune_def bind_session_def)
  have "cn_clean_start cn \<or> (\<forall>s. get_session c ?b = Some s \<longrightarrow>
      ss_persistent s = (0 < requested_expiry (b_config ?b) ver cn \<and> \<not> assigned))"
  proof (cases "cn_clean_start cn")
    case False
    have "get_session c (snd (handle_connect P kdf now cn out identity b)) = Some (resumed_session P now ver cn out who c assigned ?b)"
      unfolding accepted(6) snd_conv bind_connection_sessions by simp
    with False steady p accepted(5) show ?thesis unfolding keeps_durability_def by auto
  qed simp
  from in_step_bind [OF law in_step_frame [OF keeps_durable_simps(7) in_step] this] accepted(6) show ?thesis by simp
qed

lemma in_step_task:
  assumes "sessions_in_step P v b" and "run_task Q now t (b\<lparr>b_tasks := ts\<rparr>) = (rest, b')"
  shows "sessions_in_step P v (b'\<lparr>b_tasks := us\<rparr>)"
proof -
  have "sessions_in_step P v (b\<lparr>b_tasks := ts\<rparr>)" by (rule in_step_frame [OF keeps_durable_simps(6) assms(1)])
  then have "sessions_in_step P v (snd (run_task Q now t (b\<lparr>b_tasks := ts\<rparr>)))"
    by (cases t) (simp_all add: in_step_idle fire_will_def in_step_frame [OF keeps_durable_retain_route])
  with assms(2) in_step_frame [OF keeps_durable_simps(6)] show ?thesis by simp
qed

lemma step_in_step:
  assumes law: "filter_law P" and inv: "broker_inv b" and in_step: "sessions_in_step P v b"
    and "step P kdf b b'" and "keeps_durability b b'"
  shows "sessions_in_step P v b'"
proof -
  have f: "keeps_durable b x \<Longrightarrow> sessions_in_step P v x" for x by (rule in_step_frame [OF _ in_step])
  have ch: "keeps_durable b (update_session c (drain k) b)" "keeps_durable b (update_session c hang_up b)" for c k
    by (rule keeps_durable_update; simp add: drain_def hang_up_def split: option.split)+
  have acc: "keeps_durable b (b\<lparr>b_metrics := mx, b_rate_limiter := rl, b_detached := chans\<rparr>)" for mx rl chans
    by (rule keeps_durable_same) simp_all
  have snap: "keeps_durable b (snd (broker_snapshot now uptime version b))" for now uptime version
    by (rule keeps_durable_same) (simp_all add: snapshot_broker purge_retained_def)
  from assms(4) show ?thesis
  proof cases
    case (step_connect now cn identity)
    then show ?thesis using in_step_connect [OF law in_step] assms(5) by simp
  next
    case (step_packet now c e p)
    then show ?thesis using in_step in_step_dispatch [OF law in_step] by (simp add: handle_packet_def split: option.split)
  next
    case (step_task ts1 t ts2 now rest b'')
    then show ?thesis using in_step_task [OF in_step] by simp
  next
    case (step_inject now name m)
    then show ?thesis using f [OF keeps_durable_retain_route] by (simp add: inject_publish_def)
  qed (use f ch acc snap in \<open>simp_all add: in_step_dispatch [OF law in_step] in_step_expiry [OF in_step] in_step_closed [OF in_step]
      in_step_idle [OF in_step] in_step_reload [OF law inv in_step] keeps_durable_bridge keeps_durable_sys\<close>)
qed

lemma durable_run_in_step:
  assumes "durable_run P kdf b b'" and "filter_law P" and "broker_inv b" and "sessions_in_step P v b"
  shows "sessions_in_step P v b' \<and> broker_inv b'"
  using assms
proof (induction rule: durable_run.induct)
  case (durable_step b b' b'')
  then show ?case using step_in_step step_inv by blast
next
  case (durable_clean b b' cn now identity)
  then show ?case using in_step_connect step_inv [OF _ step_connect] by blast
qed simp

subsection \<open>A durable session that becomes transient\<close>

text \<open>
  Why runs are restricted. A CONNECT without clean start that asks for no session expiry makes a durable session
  transient and logs nothing, so its rows stay; an UNSUBSCRIBE of a transient session logs nothing either. After a crash,
  or once a later CONNECT makes the session durable again, the subscription that was removed is back.
\<close>

lemma transient_takeover_keeps_rows:
  assumes "\<not> cn_clean_start cn" and "get_session c b = Some old" and "\<not> identity_changed (ss_identity old) identity"
    and "requested_expiry (b_config b) ver cn = 0"
  shows "b_storage (snd (bind_connection P now ver cn out identity c assigned b)) = b_storage b"
    and "\<exists>s. get_session c (snd (bind_connection P now ver cn out identity c assigned b)) = Some s \<and> \<not> ss_persistent s"
proof -
  show "b_storage (snd (bind_connection P now ver cn out identity c assigned b)) = b_storage b"
    using assms by (simp add: bind_logs take_over_log_def reauthorize_log_def bind_session_def)
  show "\<exists>s. get_session c (snd (bind_connection P now ver cn out identity c assigned b)) = Some s \<and> \<not> ss_persistent s"
    using assms(4) by (simp add: bind_connection_sessions same_conn_fields [OF resumed_conn] connected_session_def Let_def
        reauthorize_def prune_def bind_session_def)
qed

lemma transient_unsubscribe_logs_nothing:
  "map_option ss_persistent (get_session c b) \<noteq> Some True \<Longrightarrow> b_storage (snd (unsubscribe_loop P c fs b)) = b_storage b"
proof (induction fs arbitrary: b)
  case (Cons flt fs)
  have r: "ss_persistent (snd (remove_subscription s f g)) = ss_persistent s" for s f g
    by (simp add: remove_subscription_def Let_def)
  from Cons.prems show ?case
    by (cases "get_session c b") (simp_all add: Cons.IH case_prod_beta Let_def r)
qed simp

subsection \<open>Restart\<close>

lemma restore_sessions_get:
  "hm_wf rows \<Longrightarrow> hm_get c (restore_sessions P (map (\<lambda>(cid, row). load_session d cid row) rows) m) =
     (if reserved_id c then hm_get c m
      else case hm_get c rows of None \<Rightarrow> hm_get c m | Some row \<Rightarrow> Some (restore_session P (load_session d c row)))"
proof (induction rows arbitrary: m)
  case (Cons x rows)
  obtain k row where x: "x = (k, row)" by force
  from Cons.prems have "hm_wf rows" and "k \<notin> fst ` set rows" by (simp_all add: hm_wf_def x)
  moreover from this(2) have "hm_get k rows = None" by (simp add: hm_get_None_iff)
  moreover have "se_client_id (load_session d k row) = k" by (simp add: load_session_def)
  ultimately show ?case using Cons.IH by (auto simp: x hm_get_Cons split: option.split)
qed simp

lemma started_sessions:
  "db_ok d \<Longrightarrow> \<not> reserved_id c \<Longrightarrow> get_session c (broker_new P cfg (load_all C now d) a auth) =
     map_option (\<lambda>row. restore_session P (load_session d c row)) (hm_get c (db_sessions d))"
  by (simp add: broker_new_def load_all_def restore_sessions_get db_ok_def split: option.split)

lemma loaded_subs_saved:
  assumes law: "filter_law P" and d: "db_ok d"
  shows "subs_saved P (\<lambda>flt. map_option (load_sub flt) (hm_get (c, flt) (db_subscriptions d)))
     (map (restore_subscription P) (se_subscriptions (load_session d c row)))"
proof -
  let ?rows = "filter (\<lambda>((c', _), _). c' = c) (db_subscriptions d)"
  have wf: "hm_wf (db_subscriptions d)" using d by (simp add: db_ok_def)
  have k: "sr_filter (load_sub flt r) = flt" for flt r by (simp add: load_sub_def)
  have subs: "se_subscriptions (load_session d c row) = map (\<lambda>((_, flt), r). load_sub flt r) ?rows"
    by (simp add: load_session_def)
  have "distinct (map fst ?rows)" using wf by (simp add: hm_wf_def distinct_map_filter)
  moreover have "inj_on (\<lambda>(_, flt). unsub_key P flt) (fst ` set ?rows)"
    using unsub_key_inj [OF law] by (fastforce simp: inj_on_def)
  ultimately have "distinct (map (\<lambda>(_, flt). unsub_key P flt) (map fst ?rows))" by (simp only: distinct_map set_map)
  then have "distinct (map sub_key (map (restore_subscription P) (se_subscriptions (load_session d c row))))"
    by (simp add: subs comp_def case_prod_beta restored_key k)
  moreover have "ran (\<lambda>flt. map_option (load_sub flt) (hm_get (c, flt) (db_subscriptions d))) = set (se_subscriptions (load_session d c row))"
    unfolding subs ran_def using hm_get_iff [OF wf] by force
  ultimately show ?thesis by (auto simp: subs_saved_def k)
qed

lemma started_matches:
  assumes law: "filter_law P" and d: "db_ok d" and c: "\<not> reserved_id c"
  shows "matches_row P (sv_sessions (view_of C d) c) (get_session c (broker_new P cfg (load_all C now d) a auth))"
  using loaded_subs_saved [OF law d]
  by (cases "hm_get c (db_sessions d)")
    (simp_all add: started_sessions [OF d c] view_of_def restore_session_def session_new_def load_session_def)

lemma started_in_step_sessions:
  "filter_law P \<Longrightarrow> db_ok d \<Longrightarrow> sessions_in_step P (view_of C d) (broker_new P cfg (load_all C now d) a auth)"
  using started_matches [of P d] unfolding sessions_in_step_def by (simp add: broker_new_def)

text \<open>
  C8. Durable sessions survive a restart, and only they. Take any run of the broker from a start on a database
  in which no CONNECT that keeps a session changes whether it is durable, let the writer apply everything
  the run logged, and start again on the result, at any time, with any configuration and policy. Then a session is
  there again exactly if it was durable; it has its expiry interval and its owner, hence cannot be taken over by another identity
  with its state, and each of its subscriptions exactly once with granted QoS, options and identifier; it is
  offline. The one thing asked of the topic library is that the filter text can be put together from what it was parsed into.
\<close>

theorem sessions_survive_restart:
  assumes "codec_ok C" and "db_ok d" and "filter_law P"
    and "durable_run P kdf (broker_new P cfg (load_all C start d) a auth) b"
    and "list_all command_ok (b_storage b)"
    and "again = broker_new P cfg' (load_all C now (writer_loop C d (b_storage b))) a' auth'"
    and "\<not> reserved_id c"
  shows "(\<forall>s. get_session c b = Some s \<and> ss_persistent s \<longrightarrow>
      (\<exists>s'. get_session c again = Some s' \<and> ss_persistent s' \<and> \<not> is_online s'
        \<and> ss_session_expiry_interval s' = ss_session_expiry_interval s \<and> ss_identity s' = ss_identity s
        \<and> set (ss_subscriptions s') = set (ss_subscriptions s) \<and> distinct (map sub_key (ss_subscriptions s'))))
    \<and> ((\<forall>s. get_session c b = Some s \<longrightarrow> \<not> ss_persistent s) \<longrightarrow> get_session c again = None)"
proof -
  have "broker_inv (broker_new P cfg (load_all C start d) a auth)" by (rule broker_new_inv(1) [OF load_all_topics])
  from durable_run_in_step [OF assms(4,3) this started_in_step_sessions [OF assms(3,2)]]
  have "matches_row P (rows_after (b_storage b) (view_of C d) c) (get_session c b)"
    using assms(7) by (simp add: sessions_in_step_def)
  moreover from writer_loop_view [OF assms(1,2,5)] have ok: "db_ok (writer_loop C d (b_storage b))"
    and view: "view_of C (writer_loop C d (b_storage b)) = fold replay (b_storage b) (view_of C d)" by simp_all
  moreover have "matches_row P (rows_after (b_storage b) (view_of C d) c) (get_session c again)"
    unfolding assms(6) view [symmetric] by (rule started_matches [OF assms(3) ok assms(7)])
  moreover have "ss_persistent s' \<and> \<not> is_online s'" if "get_session c again = Some s'" for s'
    using that by (auto simp: assms(6) started_sessions [OF ok assms(7)] restore_session_def session_new_def is_online_def)
  ultimately show ?thesis
    by (cases "get_session c again"; cases "get_session c b") (auto simp: subs_saved_def split: if_splits)
qed

text \<open>A client connects with a session expiry of a minute, subscribes, and is found again after the restart.\<close>

definition demo_lasting :: connect where
  "demo_lasting = demo_connect\<lparr>cn_clean_start := True, cn_properties := no_properties\<lparr>pr_session_expiry_interval := Some 60\<rparr>\<rparr>"

definition lasting_fresh :: broker where
  "lasting_fresh = broker_new plain_protocol config_default (load_all prefix_codec 0 db_empty) permit_all None"

definition lasting_connected :: broker where
  "lasting_connected = snd (handle_connect plain_protocol demo_kdf 0 demo_lasting channel_new None lasting_fresh)"

definition lasting_subscribed :: broker where
  "lasting_subscribed = snd (handle_subscribe plain_protocol 0 ''c'' 1 demo_subscribe lasting_connected)"

lemma lasting_fresh_simps [simp]:
  "b_sessions lasting_fresh = []" "b_config lasting_fresh = config_default" "b_auth lasting_fresh = None" "b_acl lasting_fresh = permit_all"
  "b_next_epoch lasting_fresh = 1" "b_storage lasting_fresh = []"
  by (simp_all add: lasting_fresh_def broker_new_def load_all_def db_empty_def)

lemma demo_lasting_expiry [simp]: "requested_expiry config_default V5 demo_lasting = 60"
  by (simp add: requested_expiry_def demo_lasting_def config_default_def no_properties_def is_v5_def)

lemma lasting_connected_bind:
  "lasting_connected = snd (bind_connection plain_protocol 0 V5 demo_lasting channel_new None ''c'' False lasting_fresh)"
  by (simp add: lasting_connected_def handle_connect_def authenticate_def will_authorized_def resolve_client_id_def
      demo_lasting_def demo_connect_def reserved_id_def starts_with_def case_prod_beta Let_def)

lemma lasting_connected_session:
  "\<exists>s. get_session ''c'' lasting_connected = Some s \<and> ss_epoch s = 1 \<and> ss_persistent s \<and> ss_subscriptions s = [] \<and> ss_identity s = None"
  by (simp add: lasting_connected_bind bind_connection_sessions resumed_session_def connected_session_def Let_def fresh_or_old_def
      old_session_def bind_session_def reauthorize_def session_new_def)

lemma lasting_connected_log: "b_storage lasting_connected = [DeleteSession ''c'', UpsertSession ''c'' 60 None]"
  by (simp add: lasting_connected_bind bind_logs take_over_log_def reauthorize_log_def old_session_def)
    (simp add: demo_lasting_def)

lemma lasting_connected_frame: "b_acl lasting_connected = permit_all"
  by (simp add: lasting_connected_bind)

lemma lasting_subscribed_spec:
  "\<exists>s. get_session ''c'' lasting_connected = Some s \<and> ss_persistent s \<and> ss_subscriptions s = []
     \<and> subscribed plain_protocol ''c'' ANONYMOUS None (sb_filters demo_subscribe) s lasting_connected lasting_subscribed"
proof -
  from lasting_connected_session obtain s where s: "get_session ''c'' lasting_connected = Some s" "ss_epoch s = 1" "ss_persistent s"
    "ss_subscriptions s = []" "ss_identity s = None" by blast
  from handle_subscribe_spec [OF s(1,2), where P = plain_protocol and now = 0 and sub = demo_subscribe] s show ?thesis
    by (simp add: lasting_subscribed_def sub_id_of_def who_of_def) (simp add: demo_subscribe_def no_properties_def)
qed

lemma lasting_durable_run: "durable_run plain_protocol demo_kdf lasting_fresh lasting_subscribed"
proof -
  have "durable_run plain_protocol demo_kdf lasting_fresh lasting_connected"
    unfolding lasting_connected_def by (rule durable_clean [OF durable_refl]) (simp add: demo_lasting_def)
  moreover have "step plain_protocol demo_kdf lasting_connected lasting_subscribed"
    using step_late [of plain_protocol demo_kdf lasting_connected 0 "''c''" 1 "Subscribe demo_subscribe"]
    by (simp add: lasting_subscribed_def dispatch_packet_def)
  moreover have "keeps_durability lasting_connected lasting_subscribed"
    unfolding lasting_subscribed_def by (rule keeps_durability_own [OF handle_subscribe_step subscribe_persistent])
  ultimately show ?thesis by (rule durable_step)
qed

theorem sessions_survive_restart_witness:
  "\<exists>s'. get_session ''c'' (broker_new plain_protocol config_default
       (load_all prefix_codec 9 (writer_loop prefix_codec db_empty (b_storage lasting_subscribed))) permit_all None) = Some s'
     \<and> sub_filter ` set (ss_subscriptions s') = {''t''}"
proof -
  from lasting_subscribed_spec obtain s where s: "get_session ''c'' lasting_connected = Some s" "ss_persistent s" "ss_subscriptions s = []"
    and sub: "subscribed plain_protocol ''c'' ANONYMOUS None (sb_filters demo_subscribe) s lasting_connected lasting_subscribed" by blast
  have acc: "accepted_filters plain_protocol (b_acl lasting_connected) ANONYMOUS (sb_filters demo_subscribe) =
      [(hd (sb_filters demo_subscribe), (None, ''t''))]"
    by (simp add: accepted_filters_def lasting_connected_frame check_filter_def strip_share_for_validation_def starts_with_def
        demo_subscribe_def permit_all_def)
  from sub s obtain s' where s': "get_session ''c'' lasting_subscribed = Some s'" "sub_filter ` set (ss_subscriptions s') = {''t''}"
    and log: "list_all command_ok (b_storage lasting_subscribed)"
    by (auto simp: subscribed_def lasting_connected_log acc upsert_all_def new_subscription_def)
  have r: "\<not> reserved_id ''c''" by (simp add: reserved_id_def starts_with_def)
  from subscribe_persistent [OF r, of plain_protocol 0 1 demo_subscribe lasting_connected] s s' have "ss_persistent s'"
    by (simp add: lasting_subscribed_def)
  with sessions_survive_restart [OF prefix_codec_ok db_ok_empty filter_law_plain lasting_durable_run [unfolded lasting_fresh_def]
      log refl r, of config_default 9 permit_all None, THEN conjunct1, THEN spec, of s'] s'
  show ?thesis by (metis (no_types, lifting))
qed

end
