(* ===== verification/Redaction.thy ===== *)
theory Redaction
  imports Bridge_Config
begin

section \<open>Secrets in diagnostic output\<close>

text \<open>
  The \<^verbatim>\<open>Debug\<close> implementations of \<^verbatim>\<open>src/src/config.rs\<close> and \<^verbatim>\<open>src/src/bridge.rs\<close>, through which a configuration reaches log lines and
  error messages. What an implementation hands to the formatter is a value of \<open>debug\<close>: the calls of
  \<^verbatim>\<open>debug_struct\<close>, \<^verbatim>\<open>debug_map\<close> and \<^verbatim>\<open>write_str\<close> with their arguments; the layout the formatter gives them
  is a function of that value. The derived implementations list the fields in the order of the declaration. The
  names of QoS levels and protocol versions are those of the protocol crate, the record \<open>debug_names\<close>.
\<close>

datatype debug =
    D_text string
  | D_string string
  | D_int int
  | D_bool bool
  | D_none
  | D_some debug
  | D_list "debug list"
  | D_map "(debug \<times> debug) list"
  | D_struct string "(string \<times> debug) list"

record debug_names =
  dn_qos :: "qos \<Rightarrow> debug"
  dn_version :: "protocol_version \<Rightarrow> debug"

definition D_uint :: "'a::len word \<Rightarrow> debug" where
  "D_uint w = D_int (uint w)"

definition option_debug :: "('a \<Rightarrow> debug) \<Rightarrow> 'a option \<Rightarrow> debug" where
  "option_debug f x = (case x of None \<Rightarrow> D_none | Some v \<Rightarrow> D_some (f v))"

definition list_debug :: "('a \<Rightarrow> debug) \<Rightarrow> 'a list \<Rightarrow> debug" where
  "list_debug f xs = D_list (map f xs)"

text \<open>A socket address prints as its text, here the pair of host and port.\<close>

definition addr_debug :: "socket_addr \<Rightarrow> debug" where
  "addr_debug a = D_list [D_text (sa_host a), D_uint (sa_port a)]"

definition secret_debug :: "secret \<Rightarrow> debug" where
  "secret_debug s = D_text ''<redacted>''"

definition headers_debug :: "(string \<times> secret) list \<Rightarrow> debug" where
  "headers_debug hs = D_map (map (\<lambda>(k, _). (D_string k, D_string ''<redacted>'')) hs)"

definition direction_debug :: "direction \<Rightarrow> debug" where
  "direction_debug d = D_text (case d of Out \<Rightarrow> ''Out'' | In \<Rightarrow> ''In'' | Both \<Rightarrow> ''Both'')"

definition topic_debug :: "debug_names \<Rightarrow> bridge_topic \<Rightarrow> debug" where
  "topic_debug D t = D_struct ''BridgeTopic''
     [(''pattern'', D_string (bt_pattern t)), (''direction'', direction_debug (bt_direction t)), (''qos'', dn_qos D (bt_qos t))]"

definition bridge_debug :: "debug_names \<Rightarrow> bridge_config \<Rightarrow> debug" where
  "bridge_debug D bc = D_struct ''BridgeConfig''
     [
        (''name'', D_string (bc_name bc)), (''address'', D_string (bc_address bc)),
        (''client_id'', D_string (bc_client_id bc)), (''username'', option_debug D_string (bc_username bc)),
        (''password'', option_debug (\<lambda>_. D_string ''<redacted>'') (bc_password bc)), (''keepalive'', D_uint (bc_keepalive bc)),
        (''protocol_version'', dn_version D (bc_protocol_version bc)),
        (''tls_ca'', option_debug D_string (bc_tls_ca bc)), (''tls_cert'', option_debug D_string (bc_tls_cert bc)),
        (''tls_key'', option_debug D_string (bc_tls_key bc)), (''tls_insecure'', D_bool (bc_tls_insecure bc)),
        (''topics'', list_debug (topic_debug D) (bc_topics bc))]"

definition config_debug :: "debug_names \<Rightarrow> config \<Rightarrow> debug" where
  "config_debug D cfg = D_struct ''Config''
     [
        (''listen_addr'', option_debug addr_debug (cfg_listen_addr cfg)),
        (''admin_addr'', addr_debug (cfg_admin_addr cfg)),
        (''admin_token'', option_debug secret_debug (cfg_admin_token cfg)),
        (''tls_listen_addr'', option_debug addr_debug (cfg_tls_listen_addr cfg)),
        (''tls_cert'', option_debug D_string (cfg_tls_cert cfg)),
        (''tls_key'', option_debug D_string (cfg_tls_key cfg)),
        (''tls_client_ca'', option_debug D_string (cfg_tls_client_ca cfg)),
        (''ws_listen_addr'', option_debug addr_debug (cfg_ws_listen_addr cfg)),
        (''ws_tls_listen_addr'', option_debug addr_debug (cfg_ws_tls_listen_addr cfg)),
        (''ws_tls_cert'', option_debug D_string (cfg_ws_tls_cert cfg)),
        (''ws_tls_key'', option_debug D_string (cfg_ws_tls_key cfg)),
        (''ws_tls_client_ca'', option_debug D_string (cfg_ws_tls_client_ca cfg)),
        (''admin_tls_cert'', option_debug D_string (cfg_admin_tls_cert cfg)),
        (''admin_tls_key'', option_debug D_string (cfg_admin_tls_key cfg)),
        (''admin_tls_client_ca'', option_debug D_string (cfg_admin_tls_client_ca cfg)),
        (''acl_path'', option_debug D_string (cfg_acl_path cfg)),
        (''password_file'', option_debug D_string (cfg_password_file cfg)),
        (''allow_anonymous'', D_bool (cfg_allow_anonymous cfg)), (''db_path'', D_string (cfg_db_path cfg)),
        (''max_packet_size'', D_uint (cfg_max_packet_size cfg)),
        (''receive_maximum'', D_uint (cfg_receive_maximum cfg)), (''maximum_qos'', dn_qos D (cfg_maximum_qos cfg)),
        (''retain_available'', D_bool (cfg_retain_available cfg)),
        (''topic_alias_maximum'', D_uint (cfg_topic_alias_maximum cfg)),
        (''server_keep_alive'', option_debug D_uint (cfg_server_keep_alive cfg)),
        (''max_session_expiry'', D_uint (cfg_max_session_expiry cfg)),
        (''max_queued_messages'', D_uint (cfg_max_queued_messages cfg)),
        (''max_connections_per_ip'', D_uint (cfg_max_connections_per_ip cfg)),
        (''connection_rate_window_secs'', D_uint (cfg_connection_rate_window_secs cfg)),
        (''sys_interval'', D_uint (cfg_sys_interval cfg)),
        (''bridges'', list_debug (bridge_debug D) (cfg_bridges cfg)),
        (''otlp_endpoint'', option_debug D_string (cfg_otlp_endpoint cfg)),
        (''otlp_protocol'', D_string (cfg_otlp_protocol cfg)),
        (''otlp_headers'', headers_debug (cfg_otlp_headers cfg)), (''otlp_interval'', D_uint (cfg_otlp_interval cfg)),
        (''otlp_metrics'', D_bool (cfg_otlp_metrics cfg)), (''otlp_logs'', D_bool (cfg_otlp_logs cfg)),
        (''service_name'', D_string (cfg_service_name cfg)), (''ha_discovery'', D_bool (cfg_ha_discovery cfg)),
        (''ha_discovery_prefix'', D_string (cfg_ha_discovery_prefix cfg)),
        (''config_file'', option_debug D_string (cfg_config_file cfg))]"

subsection \<open>What the output depends on\<close>

text \<open>The configuration with its secrets blanked: bearer token, header values and bridge passwords.\<close>

definition redact_bridge :: "bridge_config \<Rightarrow> bridge_config" where
  "redact_bridge bc = bc\<lparr>bc_password := map_option (\<lambda>_. []) (bc_password bc)\<rparr>"

definition redact :: "config \<Rightarrow> config" where
  "redact cfg = cfg\<lparr>cfg_admin_token := map_option (\<lambda>_. Secret []) (cfg_admin_token cfg),
     cfg_bridges := map redact_bridge (cfg_bridges cfg),
     cfg_otlp_headers := map (\<lambda>(k, _). (k, Secret [])) (cfg_otlp_headers cfg)\<rparr>"

lemma D_uint_inject [simp]: "D_uint v = D_uint w \<longleftrightarrow> v = w"
  by (simp add: D_uint_def word_uint_eq_iff)

lemma option_debug_inject:
  "(\<And>v w. f v = f w \<longleftrightarrow> g v = g w) \<Longrightarrow> option_debug f x = option_debug f y \<longleftrightarrow> map_option g x = map_option g y"
  by (simp add: option_debug_def split: option.split)

lemma option_debug_plain [simp]:
  "option_debug D_string x = option_debug D_string y \<longleftrightarrow> x = y" "option_debug D_uint a = option_debug D_uint b \<longleftrightarrow> a = b"
  by (simp_all add: option_debug_def split: option.split)

lemma addr_debug_inject [simp]: "addr_debug a = addr_debug b \<longleftrightarrow> a = b"
  by (cases a; cases b) (simp add: addr_debug_def)

lemma option_addr_debug [simp]: "option_debug addr_debug x = option_debug addr_debug y \<longleftrightarrow> x = y"
  by (simp add: option_debug_def split: option.split)

lemma map_eq_transfer:
  assumes "\<And>x y. f x = f y \<longleftrightarrow> g x = g y"
  shows "map f xs = map f ys \<longleftrightarrow> map g xs = map g ys"
proof (induction xs arbitrary: ys)
  case (Cons x xs)
  then show ?case using assms by (cases ys) auto
qed auto

lemma headers_debug_inject:
  "headers_debug hs = headers_debug hs' \<longleftrightarrow> map (\<lambda>(k, _). (k, Secret [])) hs = map (\<lambda>(k, _). (k, Secret [])) hs'"
proof -
  have "map (\<lambda>(k, _). (D_string k, D_string ''<redacted>'')) hs = map (\<lambda>(k, _). (D_string k, D_string ''<redacted>'')) hs'
      \<longleftrightarrow> map (\<lambda>(k, _). (k, Secret [])) hs = map (\<lambda>(k, _). (k, Secret [])) hs'"
    by (rule map_eq_transfer) auto
  then show ?thesis by (simp add: headers_debug_def)
qed

lemma direction_debug_inject [simp]: "direction_debug d = direction_debug e \<longleftrightarrow> d = e"
  by (cases d; cases e) (simp_all add: direction_debug_def)

lemma topic_debug_inject: "inj (dn_qos D) \<Longrightarrow> topic_debug D t = topic_debug D u \<longleftrightarrow> t = u"
  by (cases t; cases u) (auto simp: topic_debug_def dest: injD)

lemma bridge_debug_inject:
  assumes "inj (dn_qos D)" and "inj (dn_version D)"
  shows "bridge_debug D x = bridge_debug D y \<longleftrightarrow> redact_bridge x = redact_bridge y"
proof -
  have topics: "list_debug (topic_debug D) ts = list_debug (topic_debug D) us \<longleftrightarrow> ts = us" for ts us
    using inj_map_eq_map [OF injI, of "topic_debug D"] by (auto simp: list_debug_def topic_debug_inject [OF assms(1)])
  have pw: "option_debug (\<lambda>_. D_string ''<redacted>'') p = option_debug (\<lambda>_. D_string ''<redacted>'') q
      \<longleftrightarrow> map_option (\<lambda>_. []) p = map_option (\<lambda>_. [] :: string) q" for p q :: "string option"
    by (rule option_debug_inject) simp
  show ?thesis
    by (cases x; cases y) (simp add: bridge_debug_def redact_bridge_def topics pw inj_eq [OF assms(2)])
qed

text \<open>
  C19. Secrets stay out of diagnostic output. The \<^verbatim>\<open>Debug\<close> output of a configuration is a function of the configuration with
  its secrets blanked: two configurations that differ only in the admin token, in the values of the OTLP headers
  or in the passwords of bridges print the same. And nothing else is lost: configurations that print the same
  agree in every other setting, in which secrets are set at all, and in the names and the order of the headers.
\<close>

theorem config_debug_redacts:
  assumes "inj (dn_qos D)" and "inj (dn_version D)"
  shows "config_debug D c = config_debug D c' \<longleftrightarrow> redact c = redact c'"
proof -
  have bridges: "list_debug (bridge_debug D) bs = list_debug (bridge_debug D) bs' \<longleftrightarrow> map redact_bridge bs = map redact_bridge bs'" for bs bs'
    unfolding list_debug_def debug.inject by (rule map_eq_transfer) (rule bridge_debug_inject [OF assms])
  have token: "option_debug secret_debug p = option_debug secret_debug q
      \<longleftrightarrow> map_option (\<lambda>_. Secret []) p = map_option (\<lambda>_. Secret []) q" for p q
    by (rule option_debug_inject) (simp add: secret_debug_def)
  show ?thesis
    by (cases c; cases c')
      (simp add: config_debug_def redact_def bridges token headers_debug_inject inj_eq [OF assms(1)])
qed

definition demo_names :: debug_names where
  "demo_names = \<lparr>dn_qos = (\<lambda>q. D_int (uint (qos_as_u8 q))),
     dn_version = (\<lambda>v. D_int (case v of V3_1 \<Rightarrow> 3 | V3_1_1 \<Rightarrow> 4 | V5 \<Rightarrow> 5))\<rparr>"

theorem config_debug_redacts_witness:
  "config_debug demo_names (config_default\<lparr>cfg_admin_token := Some (Secret ''hunter2'')\<rparr>)
     = config_debug demo_names (config_default\<lparr>cfg_admin_token := Some (Secret ''other'')\<rparr>)
   \<and> config_debug demo_names (config_default\<lparr>cfg_admin_token := Some (Secret ''hunter2'')\<rparr>) \<noteq> config_debug demo_names config_default"
proof -
  have q: "inj (dn_qos demo_names)"
    by (rule injI) (metis qos_roundtrip demo_names_def debug_names.select_convs(1) debug.inject(3) option.inject word_uint_eq_iff)
  have v: "inj (dn_version demo_names)" by (rule injI) (simp add: demo_names_def split: protocol_version.splits)
  note r = config_debug_redacts [OF q v]
  show ?thesis unfolding r by (simp add: redact_def config_default_def)
qed

end
