(* ===== verification/Custody.thy ===== *)
theory Custody
  imports System
begin

section \<open>Messages in custody\<close>

text \<open>
  What a session owes its client: the PUBLISH packets that await a PUBACK or a PUBREC, the identifiers that
  await a PUBCOMP, and the queue. \<open>custody_step\<close> is an abstract machine over these four, the promise of QoS 1
  and 2: a message is sent under a free identifier or joins the queue, the head of the queue is sent, or
  leaves it because it has expired, is too large for the client or has to make room; nothing else. \<open>acknowledge\<close>
  is what a packet of the client releases. Every operation of the broker on a session is shown to be a run of this
  machine (the interface \<open>custodian\<close>), and so is every step of the system.
\<close>

record custody =
  cu_puback :: "u16 \<Rightarrow> publish option"
  cu_pubrec :: "u16 \<Rightarrow> publish option"
  cu_pubcomp :: "u16 set"
  cu_queue :: "pending list"
  cu_inbound :: "u16 set"

definition custody_of :: "session \<Rightarrow> custody" where
  "custody_of s =
     \<lparr>cu_puback = (\<lambda>i. hm_get i (ss_awaiting_puback s)), cu_pubrec = (\<lambda>i. hm_get i (ss_awaiting_pubrec s)),
      cu_pubcomp = set (ss_awaiting_pubcomp s), cu_queue = ss_queue s, cu_inbound = set (ss_inbound_qos2 s)\<rparr>"

definition no_custody :: custody where
  "no_custody = \<lparr>cu_puback = (\<lambda>_. None), cu_pubrec = (\<lambda>_. None), cu_pubcomp = {}, cu_queue = [], cu_inbound = {}\<rparr>"

definition free_id :: "custody \<Rightarrow> u16 \<Rightarrow> bool" where
  "free_id k i \<longleftrightarrow> i \<noteq> 0 \<and> cu_puback k i = None \<and> cu_pubrec k i = None \<and> i \<notin> cu_pubcomp k"

definition in_flight :: "u16 \<Rightarrow> publish \<Rightarrow> custody \<Rightarrow> custody" where
  "in_flight i p k =
     (case pub_qos p of
        AtMostOnce \<Rightarrow> k
      | AtLeastOnce \<Rightarrow> k\<lparr>cu_puback := (cu_puback k)(i := Some p)\<rparr>
      | ExactlyOnce \<Rightarrow> k\<lparr>cu_pubrec := (cu_pubrec k)(i := Some p)\<rparr>)"

definition as_packet :: "u64 \<Rightarrow> pending \<Rightarrow> u16 \<Rightarrow> publish" where
  "as_packet now pd i = to_publish now (pd_message pd) (pd_qos pd) (Some i) (pd_retain pd) (pd_subscription_ids pd)"

text \<open>One step, at a time \<open>now\<close>, for a queue bound \<open>n\<close> (0 is none) and the client's maximum packet size \<open>cap\<close>.\<close>

inductive custody_step :: "protocol \<Rightarrow> u64 \<Rightarrow> nat \<Rightarrow> u32 option \<Rightarrow> custody \<Rightarrow> custody \<Rightarrow> bool" for P now n cap where
  sent: "free_id k i \<Longrightarrow> pd_qos pd \<noteq> AtMostOnce \<Longrightarrow> custody_step P now n cap k (in_flight i (as_packet now pd i) k)"
| queued: "\<not> (0 < n \<and> n \<le> length (cu_queue k)) \<Longrightarrow> pd_qos pd \<noteq> AtMostOnce \<Longrightarrow>
    custody_step P now n cap k (k\<lparr>cu_queue := cu_queue k @ [pd]\<rparr>)"
| displaced: "0 < n \<Longrightarrow> n \<le> length (cu_queue k) \<Longrightarrow> pd_qos pd \<noteq> AtMostOnce \<Longrightarrow>
    custody_step P now n cap k (k\<lparr>cu_queue := tl (cu_queue k) @ [pd]\<rparr>)"
| transmitted: "cu_queue k = pd # rest \<Longrightarrow> \<not> is_expired now (pd_message pd) \<Longrightarrow> free_id k i \<Longrightarrow>
    custody_step P now n cap k (in_flight i (as_packet now pd i) (k\<lparr>cu_queue := rest\<rparr>))"
| expired: "cu_queue k = pd # rest \<Longrightarrow> is_expired now (pd_message pd) \<Longrightarrow>
    custody_step P now n cap k (k\<lparr>cu_queue := rest\<rparr>)"
| too_large: "cu_queue k = pd # rest \<Longrightarrow> cap = Some x \<Longrightarrow> free_id k i \<Longrightarrow> exceeds_wire_size P (as_packet now pd i) x \<Longrightarrow>
    custody_step P now n cap k (k\<lparr>cu_queue := rest\<rparr>)"
| received: "custody_step P now n cap k (k\<lparr>cu_inbound := insert i (cu_inbound k)\<rparr>)"

text \<open>What an acknowledgement releases. A PUBREC with an error ends the exchange; any other one replaces the
  stored packet by the identifier, which the PUBCOMP releases.\<close>

definition acknowledge :: "protocol \<Rightarrow> packet \<Rightarrow> custody \<Rightarrow> custody" where
  "acknowledge P p k =
     (case p of
        Puback a \<Rightarrow> k\<lparr>cu_puback := (cu_puback k)(ack_packet_id a := None)\<rparr>
      | Pubrec a \<Rightarrow>
          if cu_pubrec k (ack_packet_id a) = None then k
          else k\<lparr>cu_pubrec := (cu_pubrec k)(ack_packet_id a := None),
                 cu_pubcomp := (if rc_is_error P (ack_reason_code a) then cu_pubcomp k
                                else insert (ack_packet_id a) (cu_pubcomp k))\<rparr>
      | Pubcomp a \<Rightarrow> k\<lparr>cu_pubcomp := cu_pubcomp k - {ack_packet_id a}\<rparr>
      | Pubrel a \<Rightarrow> k\<lparr>cu_inbound := cu_inbound k - {ack_packet_id a}\<rparr>
      | _ \<Rightarrow> k)"

subsection \<open>What the machine keeps\<close>

text \<open>Nothing in flight is lost or changed; a message that leaves the queue was at its head.\<close>

lemma in_flight_keeps:
  assumes "free_id k i"
  shows "cu_puback k j = Some q \<Longrightarrow> cu_puback (in_flight i p k) j = Some q"
    and "cu_pubrec k j = Some q \<Longrightarrow> cu_pubrec (in_flight i p k) j = Some q"
    and "cu_pubcomp (in_flight i p k) = cu_pubcomp k" and "cu_queue (in_flight i p k) = cu_queue k"
  using assms by (auto simp: in_flight_def free_id_def split: qos.split)

lemma custody_step_keeps:
  assumes "custody_step P now n cap k k'"
  shows "cu_puback k j = Some q \<Longrightarrow> cu_puback k' j = Some q"
    and "cu_pubrec k j = Some q \<Longrightarrow> cu_pubrec k' j = Some q"
    and "cu_pubcomp k' = cu_pubcomp k" and "cu_inbound k \<subseteq> cu_inbound k'"
  using assms by (induction rule: custody_step.induct) (auto simp: in_flight_keeps free_id_def in_flight_def split: qos.split)

abbreviation custody_run :: "protocol \<Rightarrow> u64 \<Rightarrow> nat \<Rightarrow> u32 option \<Rightarrow> custody \<Rightarrow> custody \<Rightarrow> bool" where
  "custody_run P now n cap \<equiv> (custody_step P now n cap)\<^sup>*\<^sup>*"

lemma custody_run_keeps:
  assumes "custody_run P now n cap k k'"
  shows "cu_puback k j = Some q \<Longrightarrow> cu_puback k' j = Some q"
    and "cu_pubrec k j = Some q \<Longrightarrow> cu_pubrec k' j = Some q"
    and "cu_pubcomp k' = cu_pubcomp k" and "cu_inbound k \<subseteq> cu_inbound k'"
  using assms by (induction rule: rtranclp_induct) (auto dest: custody_step_keeps)

lemma custody_simps [simp]:
  "custody_of (s\<lparr>ss_out := x\<rparr>) = custody_of s" "custody_of (s\<lparr>ss_next_packet_id := i\<rparr>) = custody_of s"
  "custody_of (session_send s item) = custody_of s" "custody_of (s\<lparr>ss_subscriptions := subs\<rparr>) = custody_of s"
  "custody_of (s\<lparr>ss_inbound_qos2 := ids\<rparr>) = (custody_of s)\<lparr>cu_inbound := set ids\<rparr>" "custody_of (s\<lparr>ss_inbound_aliases := as\<rparr>) = custody_of s"
  "custody_of (s\<lparr>ss_session_expiry_interval := e\<rparr>) = custody_of s" "custody_of (s\<lparr>ss_will := w\<rparr>) = custody_of s"
  "custody_of (s\<lparr>ss_queue := q\<rparr>) = (custody_of s)\<lparr>cu_queue := q\<rparr>"
  "cu_queue (custody_of s) = ss_queue s"
  by (simp_all add: custody_of_def session_send_def split: option.split)

lemma custody_next_id: "next_id s = (r, s') \<Longrightarrow> custody_of s' = custody_of s"
  using next_id_frame [of s] by auto

lemma custody_free: "i \<noteq> 0 \<Longrightarrow> free_id (custody_of s) i \<longleftrightarrow> \<not> id_in_use s i"
  by (auto simp: free_id_def custody_of_def id_in_use_def)

lemma custody_record: "q = pub_qos p \<Longrightarrow> custody_of (record_inflight q i p s) = in_flight i p (custody_of s)"
  by (auto simp: record_inflight_def in_flight_def custody_of_def fun_eq_iff split: qos.split)

subsection \<open>Operations on one session\<close>

definition held :: "protocol \<Rightarrow> u64 \<Rightarrow> nat \<Rightarrow> session \<Rightarrow> session \<Rightarrow> bool" where
  "held P now n s s' \<longleftrightarrow> ss_client_max_packet_size s' = ss_client_max_packet_size s
     \<and> custody_run P now n (ss_client_max_packet_size s) (custody_of s) (custody_of s')"

lemma held_refl [simp]: "held P now n s s"
  by (simp add: held_def)

lemma held_trans [trans]: "held P now n s t \<Longrightarrow> held P now n t u \<Longrightarrow> held P now n s u"
  by (auto simp: held_def)

lemma held_same:
  "ss_client_max_packet_size s' = ss_client_max_packet_size s \<Longrightarrow> custody_of s' = custody_of s \<Longrightarrow> held P now n s s'"
  by (simp add: held_def)

lemma held_step:
  assumes "same_conn s s'" and "custody_step P now n (ss_client_max_packet_size s) (custody_of s) (custody_of s')"
  shows "held P now n s s'"
  using assms(2) by (simp add: held_def same_conn_fields(9) [OF assms(1)] r_into_rtranclp)

text \<open>The identifier the allocator returns is free, and taking it is not a change of custody.\<close>

lemma next_id_free:
  assumes "session_inv s" and "next_id s = (Some i, s1)"
  shows "free_id (custody_of s) i" and "custody_of s1 = custody_of s"
proof -
  from assms(1) have "ss_next_packet_id s \<noteq> 0" by (simp add: session_inv_def)
  from next_id_Some [OF assms(2) this] have "i \<noteq> 0" "\<not> id_in_use s1 i" by simp_all
  with custody_next_id [OF assms(2)] custody_free [of i s1] show "free_id (custody_of s) i" "custody_of s1 = custody_of s"
    by simp_all
qed

lemma held_enqueue:
  assumes "pd_qos pd \<noteq> AtMostOnce"
  shows "held P now n s (snd (enqueue n pd s))"
proof (rule held_step [OF same_conn_enqueue])
  have "custody_of (snd (enqueue n pd s)) = (custody_of s)\<lparr>cu_queue :=
      (if 0 < n \<and> n \<le> length (ss_queue s) then tl (ss_queue s) @ [pd] else ss_queue s @ [pd])\<rparr>"
    by (simp add: enqueue_def)
  with queued [of n "custody_of s" pd] displaced [of n "custody_of s" pd] assms
  show "custody_step P now n (ss_client_max_packet_size s) (custody_of s) (custody_of (snd (enqueue n pd s)))"
    by (simp split: if_splits)
qed

lemma held_attempt:
  assumes "session_inv s" and "q \<noteq> AtMostOnce" and "attempt_send now s m q r ids = (res, s1)"
  shows "held P now n s s1" and "\<And>s'. res = Some s' \<Longrightarrow> held P now n s s'"
proof -
  show "held P now n s s1"
  proof (rule held_same)
    show "ss_client_max_packet_size s1 = ss_client_max_packet_size s" by (rule same_conn_fields [OF same_conn_attempt(1) [OF assms(3)]])
    show "custody_of s1 = custody_of s" using assms(3)
      by (auto simp: attempt_send_def Let_def dest: custody_next_id split: if_splits prod.splits option.splits bool.splits)
  qed
  fix s' assume res: "res = Some s'"
  let ?pd = "\<lparr>pd_message = m, pd_qos = q, pd_retain = r, pd_subscription_ids = ids\<rparr>"
  from assms(3) res obtain i t tx where n: "next_id s = (Some i, t)"
    and s': "s' = record_inflight q i (as_packet now ?pd i) (t\<lparr>ss_out := Some tx\<rparr>)"
    by (auto simp: attempt_send_def as_packet_def Let_def split: if_splits prod.splits option.splits bool.splits)
  have "custody_of s' = in_flight i (as_packet now ?pd i) (custody_of s)"
    unfolding s' by (subst custody_record) (simp_all add: as_packet_def next_id_free(2) [OF assms(1) n])
  with sent [OF next_id_free(1) [OF assms(1) n], of ?pd] assms(2) same_conn_attempt(2) [OF assms(3) res]
  show "held P now n s s'" by (intro held_step) simp_all
qed

lemma held_deliver:
  assumes "session_inv s"
  shows "held P now n s (snd (deliver_to_session P now s m q r ids n))"
proof -
  have "held P now n s (snd (deliver_qos0 P now s m r ids))"
    by (rule held_same [OF same_conn_fields(9) [OF same_conn_qos0]])
      (simp add: deliver_qos0_def Let_def split: option.split prod.split bool.split)
  then show ?thesis
    using held_attempt [OF assms, of q now m r ids] held_trans [OF _ held_enqueue]
    by (auto simp: deliver_to_session_def split: prod.split option.split)
qed

lemma held_flush_step:
  assumes "session_inv s" and "flush_step P now s = Next d s'"
  shows "held P now n s s'"
proof (rule held_step [OF flush_step_conn(1) [OF assms(2)]])
  from flush_step_queue [OF assms(2)] obtain pd rest where q: "ss_queue s = pd # rest" by (cases "ss_queue s") auto
  let ?s1 = "s\<lparr>ss_queue := rest\<rparr>" and ?cap = "ss_client_max_packet_size s"
  have inv: "session_inv ?s1" using assms(1) q by (auto intro!: session_inv_queue dest: session_inv_qos)
  show "custody_step P now n ?cap (custody_of s) (custody_of s')"
  proof (cases "is_expired now (pd_message pd)")
    case True
    with assms(2) q have "s' = ?s1" by (auto simp: flush_step_def Let_def split: if_splits)
    with expired [of "custody_of s" pd rest] q True show ?thesis by simp
  next
    case False
    with assms(2) q obtain i s2 where n: "next_id ?s1 = (Some i, s2)"
      by (auto simp: flush_step_def Let_def split: if_splits prod.splits option.splits)
    from next_id_free [OF inv n] have free: "free_id (custody_of s) i" and c2: "custody_of s2 = (custody_of s)\<lparr>cu_queue := rest\<rparr>"
      by (simp_all add: free_id_def)
    have cap: "ss_client_max_packet_size s2 = ?cap" using same_conn_fields(9) [OF same_conn_next_id [OF n]] by simp
    have "custody_of (record_inflight (pd_qos pd) i (as_packet now pd i) (s2\<lparr>ss_out := x\<rparr>))
        = in_flight i (as_packet now pd i) ((custody_of s)\<lparr>cu_queue := rest\<rparr>)" for x
      by (subst custody_record) (simp_all add: as_packet_def c2)
    moreover have "cu_queue (custody_of s) = pd # rest" by (simp add: q)
    note transmitted [OF this False free, of P n ?cap] too_large [OF this _ free, of ?cap _ P now n]
    ultimately show ?thesis
      using assms(2) q False n c2 cap
      by (auto simp: flush_step_def Let_def oversize_def simp flip: as_packet_def
          split: if_splits prod.splits option.splits bool.splits)
  qed
qed

lemma held_flush:
  assumes "session_inv s"
  shows "held P now n s (snd (flush_queue P now s))"
proof -
  let ?I = "\<lambda>t. session_inv t \<and> held P now n s t"
  have "?I (snd (flush_queue P now s))"
    unfolding flush_queue_def
  proof (rule flush_loop_invariant [where I = ?I])
    fix t d t' assume "?I t" and "flush_step P now t = Next d t'"
    then show "?I t'" by (auto intro: held_trans flush_step_inv(1) held_flush_step)
  next
    fix t t' assume "?I t" and step: "flush_step P now t = Stop t'"
    moreover from flush_step_Stop [OF step] have "held P now n t t'" by (auto intro: held_same)
    ultimately show "?I t'" by (auto intro: held_trans flush_step_inv(2))
  qed (use assms in simp)
  then show ?thesis by blast
qed

lemma held_resume:
  assumes "session_inv s"
  shows "held P now n s (snd (resume_delivery P now s))"
proof -
  have "custody_of (foldl session_send s its) = custody_of s" for its
    by (induction its rule: rev_induct) simp_all
  from held_trans [OF held_same [OF same_conn_fields(9) [OF send_all_conn] this] held_flush [OF send_all_inv [OF assms]]]
  show ?thesis by (simp add: resume_delivery_def)
qed

subsection \<open>The interface\<close>

text \<open>An operation on a session that is a run of the machine, and what such operations do to the broker: every session
  found afterwards was there before, and its custody has moved by a run. A state is \<open>kept\<close> in this sense together
  with the invariant, so that the relation composes.\<close>

definition kept :: "protocol \<Rightarrow> u64 \<Rightarrow> broker \<Rightarrow> broker \<Rightarrow> bool" where
  "kept P now b b' \<longleftrightarrow> (broker_inv b \<longrightarrow> broker_inv b' \<and> max_queued b' = max_queued b
     \<and> (\<forall>c s'. get_session c b' = Some s' \<longrightarrow> (\<exists>s. get_session c b = Some s \<and> held P now (max_queued b) s s')))"

lemma kept_trans [trans]:
  assumes "kept P now a b" and "kept P now b c"
  shows "kept P now a c"
  using assms unfolding kept_def by (metis held_trans)

lemma kept_same:
  assumes "b_sessions b' = b_sessions b" and "broker_inv b \<Longrightarrow> broker_inv b'" and "max_queued b' = max_queued b"
  shows "kept P now b b'"
  using assms by (simp add: kept_def)

lemma kept_held:
  "kept P now b b' \<Longrightarrow> broker_inv b \<Longrightarrow> get_session c b = Some s \<Longrightarrow> get_session c b' = Some s' \<Longrightarrow>
   held P now (max_queued b) s s'"
  unfolding kept_def by (metis option.inject)

lemma kept_refl [simp]: "kept P now b b"
  by (rule kept_same) simp_all

lemma kept_sub:
  assumes "broker_inv b \<Longrightarrow> broker_inv b'" and "max_queued b' = max_queued b"
    and "\<And>c s'. get_session c b' = Some s' \<Longrightarrow> get_session c b = Some s'"
  shows "kept P now b b'"
  using assms by (auto simp: kept_def)

lemma kept_insert:
  assumes "get_session c b = Some s" and "session_inv s \<Longrightarrow> held P now (max_queued b) s s'"
    and "broker_inv b \<Longrightarrow> session_ok (max_queued b) c s'"
  shows "kept P now b (b\<lparr>b_sessions := hm_insert c s' (b_sessions b)\<rparr>)"
  using assms inv_session_ok [of b c s] by (auto simp: kept_def session_ok_def intro: inv_insert)

locale custodian = session_op f n for f n +
  fixes P :: protocol and now :: u64
  assumes holds: "session_inv s \<Longrightarrow> held P now n s (f s)"
begin

lemma insert_kept:
  assumes "max_queued b = n" and "get_session c b = Some s"
  shows "kept P now b (b\<lparr>b_sessions := hm_insert c (f s) (b_sessions b)\<rparr>)"
  using inv_session_ok [OF _ assms(2)] by (intro kept_insert [OF assms(2)]) (simp_all add: assms(1) holds op_ok)

lemma update_kept: "max_queued b = n \<Longrightarrow> kept P now b (update_session c f b)"
  by (auto simp: update_session_def intro: insert_kept split: option.split)

end

interpretation deliver_c: custodian "\<lambda>s. snd (deliver_to_session P now s m q r ids n)" n P now for P now m q r ids n
  by unfold_locales (rule held_deliver)

interpretation flush_c: custodian "\<lambda>s. snd (flush_queue P now s)" n P now for P now n
  by unfold_locales (rule held_flush)

interpretation resume_c: custodian "\<lambda>s. snd (resume_delivery P now s)" n P now for P now n
  by unfold_locales (rule held_resume)

interpretation send_c: custodian "\<lambda>s. session_send s item" n P now for item n P now
  by unfold_locales (rule held_same; simp)

interpretation upsert_c: custodian "\<lambda>s. snd (upsert_subscription s new)" n P now for new n P now
  by unfold_locales (rule held_same; simp add: upsert_subscription_def Let_def case_prod_beta)

interpretation remove_c: custodian "\<lambda>s. snd (remove_subscription s flt share)" n P now for flt share n P now
  by unfold_locales (rule held_same; simp add: remove_subscription_def Let_def)

interpretation alias_c: custodian "\<lambda>s. s\<lparr>ss_inbound_aliases := f s\<rparr>" n P now for f n P now
  by unfold_locales (rule held_same; simp)

interpretation inbound_c: custodian "\<lambda>s. s\<lparr>ss_inbound_qos2 := i # ss_inbound_qos2 s\<rparr>" n P now for i n P now
proof unfold_locales
  fix s
  have "set (ss_inbound_qos2 s) = cu_inbound (custody_of s)" by (simp add: custody_of_def)
  with received [of P now n "ss_client_max_packet_size s" "custody_of s" i]
  show "held P now n s (s\<lparr>ss_inbound_qos2 := i # ss_inbound_qos2 s\<rparr>)" by (simp add: held_def r_into_rtranclp)
qed

interpretation expiry_c: custodian "\<lambda>s. s\<lparr>ss_session_expiry_interval := x\<rparr>" n P now for x n P now
  by unfold_locales (rule held_same; simp)

interpretation close_c: custodian "\<lambda>s. snd (close_session w s)" n P now for w n P now
  by unfold_locales (rule held_same; simp add: close_session_def go_offline_def Let_def)

interpretation revoke_c: custodian "\<lambda>s. fst (revoke_session P' a s)" n P now for P' a n P now
  by unfold_locales (rule held_same; simp add: revoke_session_def Let_def prune_def)

interpretation drain_c: custodian "drain k" n P now for k n P now
  by unfold_locales (rule held_same; simp add: drain_def split: option.split)

interpretation hang_up_c: custodian hang_up n P now for n P now
  by unfold_locales (rule held_same; simp add: hang_up_def split: option.split)

interpretation bridge_sub_c: custodian "\<lambda>s. s\<lparr>ss_subscriptions := f s\<rparr>" n P now for f n P now
  by unfold_locales (rule held_same; simp)

subsection \<open>Handlers\<close>

lemma held_candidates:
  "session_inv s \<Longrightarrow> held P now n s (foldl (deliver_candidate P now m n) s cs)"
proof (induction cs rule: rev_induct)
  case (snoc x cs)
  from candidates_ok(1) [OF snoc.prems] have "session_inv (foldl (deliver_candidate P now m n) s cs)" .
  from held_trans [OF snoc.IH [OF snoc.prems] held_deliver [OF this]] show ?case
    unfolding foldl_append foldl.simps deliver_candidate_def [of _ _ _ _ "foldl _ _ _"] .
qed simp

interpretation routed_c: custodian "routed_session P now publisher m n chosen c" n P now for P now publisher m n chosen c
proof unfold_locales
  fix s assume inv: "session_inv s"
  let ?d = "snd (direct_delivery P now publisher m n c s)"
  have "held P now n s ?d" "session_inv ?d"
    using inv by (simp_all add: direct_delivery_def Let_def held_deliver deliver_inv)
  then show "held P now n s (routed_session P now publisher m n chosen c s)"
    unfolding routed_session_def by (rule held_trans [OF _ held_candidates])
qed

lemma kept_route: "kept P now b (snd (route P now publisher m b))"
proof (cases "is_expired now m")
  case True
  then show ?thesis by (simp add: route_def)
next
  case False
  have "held P now (max_queued b) s (routed_session P now publisher m (max_queued b) ch c s)"
    if "broker_inv b" "get_session c b = Some s" for ch c s
    using inv_session_ok [OF that] by (simp add: session_ok_def routed_c.holds)
  then show ?thesis by (auto simp: kept_def inv_route route_get [OF False])
qed

lemma kept_send_to: "kept P now b (send_to c item b)"
  unfolding send_to_def by (rule send_c.update_kept) simp

lemma kept_simps [simp]:
  "kept P now b (store k b)" "kept P now b (count_dropped d b)" "kept P now b (spawn t b)"
  "kept P now b (b\<lparr>b_metrics := mx\<rparr>)" "kept P now b (b\<lparr>b_tasks := ts\<rparr>)" "kept P now b (schedule_will c e m delay w b)"
  by (rule kept_same; simp add: schedule_will_def broker_inv_def)+

lemma kept_store_retained: "m_topic m = t \<Longrightarrow> kept P now b (store_retained t m b)"
  by (rule kept_same) (simp_all add: inv_store_retained)

lemma kept_route_publish: "kept P now b (snd (route_publish P now c p m b))"
proof -
  have r: "kept P now b (send_to c i (snd (route P now (Some c) m b)))" for b i
    by (rule kept_trans [OF kept_route kept_send_to])
  have r2: "kept P now b (send_to c i (snd (route P now (Some c) m
      (update_session c (\<lambda>s. s\<lparr>ss_inbound_qos2 := j # ss_inbound_qos2 s\<rparr>) b))))" for i j
    by (rule kept_trans [OF inbound_c.update_kept [OF refl] r])
  show ?thesis
    by (simp add: route_publish_def Let_def case_prod_beta kept_route r r2 kept_send_to split: qos.split option.split)
qed

lemma kept_accept_publish: "kept P now b (snd (accept_publish P now c p b))"
  using kept_trans [OF kept_store_retained kept_route_publish]
  by (simp add: accept_publish_def Let_def kept_route_publish)

lemma kept_handle_publish: "kept P now b (snd (handle_publish P now c e p b))"
proof -
  let ?b = "b\<lparr>b_metrics := (b_metrics b)\<lparr>mx_publish_received := mx_publish_received (b_metrics b) + 1\<rparr>\<rparr>"
  have a: "kept P now b1 (snd (authorize_publish P now c q b1))" for q b1
    by (simp add: authorize_publish_def Let_def refuse_publish_def kept_accept_publish kept_send_to split: qos.split)
  have "kept P now b (snd (authorize_publish P now c q b1))" if "resolve_alias c s p ?b = Inr (q, b1)" for s q b1
  proof -
    from resolve_alias_state [OF that] have "kept P now ?b b1" by (auto intro: alias_c.update_kept)
    then show ?thesis by (rule kept_trans [OF kept_trans [OF kept_simps(4)] a])
  qed
  then show ?thesis by (simp add: handle_publish_def Let_def split: option.split sum.split)
qed

lemma kept_subscribe_loop: "kept P now b (snd (subscribe_loop P t c who sub_id fs b))"
proof (induction fs arbitrary: b)
  case (Cons f fs)
  have add: "kept P now b (snd (add_filter c sub_id f parsed s b))" if "get_session c b = Some s" for parsed s
  proof -
    have "kept P now b (b\<lparr>b_sessions := hm_insert c (snd (upsert_subscription s new)) (b_sessions b)\<rparr>)" for new
      by (rule upsert_c.insert_kept [OF refl that])
    with kept_trans [OF _ kept_simps(1)] show ?thesis by (simp add: add_filter_def Let_def case_prod_beta)
  qed
  show ?case
  proof (cases "check_filter P (b_acl b) who f")
    case (Inl rc)
    with Cons [of b] show ?thesis by (auto split: prod.splits option.splits)
  next
    case (Inr parsed)
    with kept_trans [OF add Cons] show ?thesis
      by (cases "get_session c b") (auto simp: Let_def case_prod_beta split: prod.splits option.splits)
  qed
qed simp

lemma kept_deliver_retained: "kept P now b (fst (deliver_retained P now c rs b d))"
proof (induction rs arbitrary: b d)
  case (Cons r rs)
  obtain m q ids where r: "r = (m, q, ids)" by (metis prod.exhaust)
  show ?case
  proof (cases "get_session c b")
    case (Some s)
    from kept_trans [OF deliver_c.insert_kept [OF refl Some] Cons] Some show ?thesis by (simp add: r Let_def case_prod_beta)
  qed (use Cons r in simp)
qed simp

lemma kept_handle_subscribe: "kept P now b (snd (handle_subscribe P now c e sub b))"
proof -
  have "kept P now b (count_dropped x (fst (deliver_retained P now c rs (send_to c i b1) 0)))" if "kept P now b b1" for x rs i b1
    by (rule kept_trans [OF kept_trans [OF kept_trans [OF that kept_send_to] kept_deliver_retained] kept_simps(2)])
  from this [OF kept_subscribe_loop] show ?thesis
    by (auto simp: handle_subscribe_def Let_def case_prod_beta kept_subscribe_loop split: option.split)
qed

lemma kept_unsubscribe_loop: "kept P now b (snd (unsubscribe_loop P c fs b))"
proof (induction fs arbitrary: b)
  case (Cons flt fs)
  show ?case
  proof (cases "get_session c b")
    case None
    with Cons show ?thesis by (simp add: Let_def case_prod_beta)
  next
    case (Some s)
    let ?b = "\<lambda>g sh. b\<lparr>b_sessions := hm_insert c (snd (remove_subscription s g sh)) (b_sessions b)\<rparr>"
    have ins: "kept P now b (?b g sh)" for g sh by (rule remove_c.insert_kept [OF refl Some])
    have "kept P now b (snd (unsubscribe_loop P c fs (?b g sh)))"
      "kept P now b (snd (unsubscribe_loop P c fs (store k (?b g sh))))" for g sh k
      by (rule kept_trans [OF ins Cons], rule kept_trans [OF kept_trans [OF ins kept_simps(1)] Cons])
    with Some show ?thesis by (simp add: Let_def case_prod_beta)
  qed
qed simp

lemma kept_handle_unsubscribe: "kept P now b (snd (handle_unsubscribe P c e u b))"
  by (simp add: handle_unsubscribe_def case_prod_beta kept_trans [OF kept_unsubscribe_loop kept_send_to] split: option.split)

lemma kept_update_expiry: "kept P now b (update_expiry c x b)"
  by (auto simp: update_expiry_def Let_def split: option.split
      intro: expiry_c.insert_kept kept_trans [OF expiry_c.insert_kept kept_simps(1)])

lemma kept_remove_if_idle: "kept P now b (remove_if_idle c e b)"
proof (rule kept_sub)
  show "max_queued (remove_if_idle c e b) = max_queued b" by (simp add: remove_if_idle_def Let_def split: option.split)
qed (auto simp: get_remove_if_idle remove_if_idle_inv split: if_splits)

lemma kept_closed: "kept P now b (handle_connection_closed c e w b)"
proof -
  let ?b = "\<lambda>s. b\<lparr>b_sessions := hm_insert c (snd (close_session w s)) (b_sessions b)\<rparr>"
  have "kept P now b (remove_if_idle c e (?b s))" "kept P now b (spawn t (?b s))"
    "kept P now b (remove_if_idle c e (schedule_will c e m d o' (?b s)))" "kept P now b (spawn t (schedule_will c e m d o' (?b s)))"
    if "get_session c b = Some s" for s t m d o'
    by (rule kept_trans [OF _ kept_remove_if_idle] kept_trans [OF _ kept_simps(3)] kept_trans [OF _ kept_simps(6)]
      close_c.insert_kept [OF refl that])+
  then show ?thesis by (simp add: handle_connection_closed_def Let_def case_prod_beta split: option.split)
qed

lemma kept_run_task: "kept P now b (snd (run_task P now t b))"
  by (cases t) (auto simp: fire_will_def kept_remove_if_idle kept_route intro: kept_trans [OF kept_store_retained kept_route])

lemma kept_publish_sys: "kept P now b (publish_sys P now es b)"
proof (induction P now es b rule: publish_sys.induct)
  case (2 P now topic payload rest b)
  have "kept P now b (b\<lparr>b_retained := hm_insert topic (sys_message topic payload) (b_retained b)\<rparr>)"
    by (rule kept_same) (auto simp: broker_inv_def retained_ok_def sys_message_def)
  from kept_trans [OF kept_trans [OF this kept_route] 2] show ?case by simp
qed simp

lemma kept_inject: "kept P now b (inject_publish P now from m b)"
  using kept_trans [OF kept_store_retained kept_route] by (simp add: inject_publish_def kept_route)

lemma kept_reload: "kept P now b (snd (reload_acl P rf toml b))"
proof -
  have "kept P now b (snd (reload_acl P rf toml b))" if r: "snd (reload_acl P rf toml b) = revoke_unauthorized_subscriptions P a (swap_acl a b)" for a
  proof -
    have "held P now n s (fst (revoke_session P a s))" if "session_inv s" for s n by (rule revoke_c.holds [OF that])
    moreover have "max_queued (swap_acl a b) = max_queued b" by (simp add: swap_acl_def max_queued_def)
    ultimately show ?thesis
      using reload_acl_inv [of b P rf toml] r inv_session_ok [of b]
      by (auto simp: kept_def get_revoke swap_acl_def session_ok_def split: if_splits)
  qed
  then show ?thesis by (auto simp: reload_acl_def split: option.split sum.split)
qed

subsection \<open>Acknowledgements\<close>

definition acked :: "protocol \<Rightarrow> u64 \<Rightarrow> nat \<Rightarrow> packet \<Rightarrow> session \<Rightarrow> session \<Rightarrow> bool" where
  "acked P now n p s s' \<longleftrightarrow>
     custody_run P now n (ss_client_max_packet_size s') (acknowledge P p (custody_of s)) (custody_of s')"

lemma acked_then_held:
  assumes "custody_of t = acknowledge P p (custody_of s)" and "held P now n t s'"
  shows "acked P now n p s s'"
  using assms by (simp add: acked_def held_def)

lemma acked_sessions:
  assumes "session_inv s"
  shows "acked P now n (Puback a) s (snd (puback_session P now a s))" and "acked P now n (Pubrec a) s (snd (pubrec_session P a s))"
    and "acked P now n (Pubcomp a) s (snd (pubcomp_session P now a s))" and "acked P now n (Pubrel a) s (snd (pubrel_session a s))"
proof -
  let ?s = "s\<lparr>ss_awaiting_puback := hm_remove (ack_packet_id a) (ss_awaiting_puback s)\<rparr>"
  have "custody_of ?s = acknowledge P (Puback a) (custody_of s)"
    by (auto simp: acknowledge_def custody_of_def fun_eq_iff)
  from acked_then_held [OF this held_flush [OF session_inv_remove_puback [OF assms]]]
  show "acked P now n (Puback a) s (snd (puback_session P now a s))" by (simp add: puback_session_def)
  let ?t = "s\<lparr>ss_awaiting_pubcomp := removeAll (ack_packet_id a) (ss_awaiting_pubcomp s)\<rparr>"
  have "custody_of ?t = acknowledge P (Pubcomp a) (custody_of s)"
    by (simp add: acknowledge_def custody_of_def)
  from acked_then_held [OF this held_flush [OF session_inv_remove_pubcomp [OF assms]]]
  show "acked P now n (Pubcomp a) s (snd (pubcomp_session P now a s))" by (simp add: pubcomp_session_def)
  have "custody_of (snd (pubrec_session P a s)) = acknowledge P (Pubrec a) (custody_of s)"
    by (auto simp: pubrec_session_def acknowledge_def Let_def) (auto simp: custody_of_def fun_eq_iff)
  then show "acked P now n (Pubrec a) s (snd (pubrec_session P a s))" by (simp add: acked_def)
  have "custody_of (snd (pubrel_session a s)) = acknowledge P (Pubrel a) (custody_of s)"
    by (simp add: pubrel_session_def acknowledge_def Let_def) (simp add: custody_of_def)
  then show "acked P now n (Pubrel a) s (snd (pubrel_session a s))" by (simp add: acked_def)
qed

lemma on_ack_get:
  "get_session c (snd (on_ack d e f b)) =
     map_option (\<lambda>s. if d = c \<and> ss_epoch s = e then snd (f s) else s) (get_session c b)"
  by (cases "get_session d b"; cases "get_session c b") (auto simp: on_ack_def case_prod_beta)

text \<open>A packet releases something only in the session of the connection that sent it.\<close>

lemma dispatch_custody:
  assumes "broker_inv b" and s: "get_session c b = Some s" and s': "get_session c (snd (dispatch_packet P now d e p b)) = Some s'"
  shows "held P now (max_queued b) s s' \<or> d = c \<and> e = ss_epoch s \<and> acked P now (max_queued b) p s s'"
proof -
  from inv_session_ok [OF assms(1,2)] have inv: "session_inv s" by (simp add: session_ok_def)
  have kept: "held P now (max_queued b) s s'" if "kept P now b (snd (dispatch_packet P now d e p b))"
    by (rule kept_held [OF that assms])
  show ?thesis
  proof (cases p)
    case (Puback a)
    with s s' acked_sessions(1) [OF inv] show ?thesis
      by (auto simp: dispatch_packet_def handle_puback_def on_ack_get split: if_splits)
  next
    case (Pubrec a)
    with s s' acked_sessions(2) [OF inv] show ?thesis
      by (auto simp: dispatch_packet_def handle_pubrec_def on_ack_get split: if_splits)
  next
    case (Pubcomp a)
    with s s' acked_sessions(3) [OF inv] show ?thesis
      by (auto simp: dispatch_packet_def handle_pubcomp_def on_ack_get split: if_splits)
  next
    case (Pubrel a)
    with s s' acked_sessions(4) [OF inv] show ?thesis
      by (auto simp: dispatch_packet_def handle_pubrel_def on_ack_get split: if_splits)
  qed (rule disjI1, rule kept, simp add: dispatch_packet_def kept_handle_publish kept_handle_subscribe kept_handle_unsubscribe
      push_control_send_to kept_send_to handle_client_disconnect_def kept_update_expiry split: option.split)+
qed

subsection \<open>CONNECT\<close>

lemma custody_connected:
  "custody_of (connected_session P now v cn out identity c assigned b)
     = custody_of (fresh_or_old cn c identity (requested_expiry (b_config b) v cn) b)"
proof -
  obtain subs where "fst (reauthorize P pr c s b) = s\<lparr>ss_subscriptions := subs pr s\<rparr>" for pr s
    using reauthorize_session [of P _ c _ b] by metis
  then show ?thesis by (simp add: connected_session_def Let_def bind_session_def custody_of_def)
qed

definition wiped :: "session \<Rightarrow> custody" where
  "wiped s = no_custody\<lparr>cu_inbound := set (ss_inbound_qos2 s)\<rparr>"

lemma custody_fresh: "custody_of (session_new c x) = no_custody" "custody_of (wipe s) = wiped s" "wiped (s\<lparr>ss_out := tx\<rparr>) = wiped s"
  by (simp_all add: custody_of_def session_new_def wipe_def no_custody_def wiped_def fun_eq_iff)

text \<open>A connection that resumes a session finds its custody, unless it asks for a clean start, and then finds nothing,
  or the session belonged to another identity: then it finds the identifiers of received QoS 2 messages only.\<close>

definition other_identity :: "pbkdf2_verify \<Rightarrow> broker \<Rightarrow> connect \<Rightarrow> string option \<Rightarrow> session \<Rightarrow> bool" where
  "other_identity kdf b cn identity s \<longleftrightarrow>
     (case authenticate kdf b cn identity of Inl _ \<Rightarrow> False | Inr who \<Rightarrow> identity_changed (ss_identity s) who)"

definition found_by :: "pbkdf2_verify \<Rightarrow> broker \<Rightarrow> connect \<Rightarrow> string option \<Rightarrow> session \<Rightarrow> custody \<Rightarrow> bool" where
  "found_by kdf b cn identity s k \<longleftrightarrow>
     (if cn_clean_start cn then k = no_custody else other_identity kdf b cn identity s \<and> k = wiped s)"

lemma connect_custody:
  assumes "broker_inv b" and "channel_ok out" and s: "get_session c b = Some s"
    and s': "get_session c (snd (handle_connect P kdf now cn out identity b)) = Some s'"
  shows "\<exists>k. custody_run P now (max_queued b) (ss_client_max_packet_size s') k (custody_of s')
    \<and> (k = custody_of s \<or> found_by kdf b cn identity s k)"
proof (rule handle_connect_cases [of P kdf now cn out identity b])
  fix rc n assume "handle_connect P kdf now cn out identity b = (Inl (connack_new False rc), b\<lparr>b_auto_id_counter := n\<rparr>)"
  with s s' show ?thesis by auto
next
  fix v who d assigned n
  assume who: "authenticate kdf b cn identity = Inr who" and eq: "handle_connect P kdf now cn out identity b =
       (Inr (fst (bind_connection P now v cn out who d assigned (b\<lparr>b_auto_id_counter := n\<rparr>))),
        snd (bind_connection P now v cn out who d assigned (b\<lparr>b_auto_id_counter := n\<rparr>)))"
  show ?thesis
  proof (cases "d = c")
    case False
    with s s' eq show ?thesis by (auto simp: bind_connection_sessions)
  next
    case True
    let ?b = "b\<lparr>b_auto_id_counter := n\<rparr>"
    let ?t = "connected_session P now v cn out who c assigned ?b"
    have b: "broker_inv ?b" "max_queued ?b = max_queued b" "get_session c ?b = Some s"
      using assms(1) s by (simp_all add: broker_inv_def max_queued_def)
    from connected_ok [OF b(1) assms(2)] have "session_inv ?t" by (simp add: session_ok_def)
    then have "held P now (max_queued b) ?t (resumed_session P now v cn out who c assigned ?b)"
      by (simp add: resumed_session_def Let_def held_resume)
    with s' eq True have run: "custody_run P now (max_queued b) (ss_client_max_packet_size s') (custody_of ?t) (custody_of s')"
      by (simp add: bind_connection_sessions held_def)
    have "custody_of ?t = custody_of s \<or> found_by kdf b cn identity s (custody_of ?t)"
      using b(3) by (auto simp: custody_connected fresh_or_old_def old_session_def Let_def custody_fresh found_by_def other_identity_def who)
    with run show ?thesis by blast
  qed
qed

text \<open>The identifiers that outlive a takeover by another identity make the new owner's messages duplicates: a QoS 2 PUBLISH
  under one of them is acknowledged and reaches nobody.\<close>

lemma takeover_keeps_inbound:
  assumes "\<not> cn_clean_start cn" and "get_session c b = Some old" and "identity_changed (ss_identity old) identity"
    and "packet_id_or_0 p \<in> set (ss_inbound_qos2 old)" and "pub_qos p = ExactlyOnce"
    and "b' = snd (bind_connection P now v cn out identity c assigned b)" and "broker_inv b" and "channel_ok out"
  shows "others_same c b' (snd (handle_publish P t c e p b'))"
proof -
  let ?t = "connected_session P now v cn out identity c assigned b" and ?s = "resumed_session P now v cn out identity c assigned b"
  have "old_session cn c identity b = Some (wipe (old\<lparr>ss_out := None\<rparr>))" using assms(1-3) by (simp add: old_session_def Let_def)
  then have "custody_of ?t = wiped old" by (simp add: custody_connected fresh_or_old_def custody_fresh)
  moreover from connected_ok [OF assms(7,8)] have "session_inv ?t" by (simp add: session_ok_def)
  then have "held P now 0 ?t ?s" by (simp add: resumed_session_def Let_def held_resume)
  ultimately have "packet_id_or_0 p \<in> set (ss_inbound_qos2 ?s)"
    using custody_run_keeps(4) [of P now 0 _ "custody_of ?t" "custody_of ?s"] assms(4)
    by (auto simp: held_def wiped_def custody_of_def)
  moreover have "get_session c b' = Some ?s" by (simp add: assms(6) bind_connection_sessions)
  ultimately show ?thesis by (rule handle_publish_duplicate [OF assms(5), rotated])
qed

subsection \<open>Retransmission\<close>

text \<open>A resumed session is sent again what it holds in flight, in one go, as far as the new channel has room: the
  packets beyond its capacity wait for another reconnection, whatever the client's Receive Maximum is.\<close>

lemma send_all_sent:
  assumes "ss_out s = Some tx" and "ch_open tx" and "channel_ok tx"
  shows "sent_items (foldl session_send s its) = ch_buf tx @ take (ch_capacity tx - length (ch_buf tx)) its"
  using assms
proof (induction its arbitrary: s tx)
  case Nil
  then show ?case by (simp add: sent_items_def)
next
  case (Cons it its)
  let ?tx = "snd (try_send tx it)"
  have "ss_out (session_send s it) = Some ?tx" "ch_open ?tx" "channel_ok ?tx"
    using Cons.prems by (simp_all add: session_send_def tx.push_ok)
  from Cons.IH [OF this] Cons.prems(2,3) show ?case
    by (auto simp: try_send_def channel_ok_def Suc_diff_Suc [symmetric] split: if_splits)
qed

lemma resume_retransmits:
  assumes "ss_out s = Some channel_new"
  shows "\<exists>ps. sent_items (snd (resume_delivery P now s)) = take OUTBOUND_CHANNEL_CAPACITY (resume_items s) @ map Send ps"
proof -
  let ?t = "foldl session_send s (resume_items s)"
  have "sent_items ?t = take OUTBOUND_CHANNEL_CAPACITY (resume_items s)"
    using send_all_sent [OF assms, of "resume_items s"] by (simp add: channel_new_def channel_ok_def)
  with flush_loop_order [of P now 0 ?t] assms show ?thesis
    by (metis flush_queue_def option.distinct(1) prod.collapse resume_delivery_def)
qed

subsection \<open>The system\<close>

lemma kept_task_step:
  assumes "run_task P now t (b\<lparr>b_tasks := ts\<rparr>) = (rest, b')"
  shows "kept P now b (b'\<lparr>b_tasks := us\<rparr>)"
  using kept_trans [OF kept_trans [OF kept_simps(5) kept_run_task] kept_simps(5), of P now b us t ts] assms by simp

lemma kept_snapshot: "kept P now b (purge_retained t b)"
proof (rule kept_same)
  show "broker_inv b \<Longrightarrow> broker_inv (purge_retained t b)" by (rule purge_inv)
qed (simp_all add: purge_retained_def)

lemma kept_deregister: "kept P now b (deregister_bridge c e b)"
proof (rule kept_sub)
  show "broker_inv b \<Longrightarrow> broker_inv (deregister_bridge c e b)" by (rule deregister_inv)
qed (auto simp: deregister_bridge_def split: if_splits)

lemma kept_accounting: "kept P now b (b\<lparr>b_metrics := mx, b_rate_limiter := rl, b_detached := chans\<rparr>)"
  by (rule kept_same) (simp_all add: max_queued_def)

lemma kept_bridge_sub: "kept P now b (bridge_add_subscription c flt nl b)"
  unfolding bridge_add_subscription_def by (rule bridge_sub_c.update_kept [OF refl])

lemmas kept_steps = kept_update_expiry kept_closed kept_remove_if_idle kept_task_step kept_bridge_sub kept_inject kept_deregister
  kept_publish_sys kept_snapshot kept_reload drain_c.update_kept [OF refl] hang_up_c.update_kept [OF refl] kept_accounting

text \<open>Every step but a CONNECT, a packet and the registration of a bridge is a run of the machine in every session.\<close>

lemma step_kept:
  "step P kdf b b' \<Longrightarrow> (\<exists>now. kept P now b b') \<or> (\<exists>now cn identity. b' = snd (handle_connect P kdf now cn channel_new identity b))
     \<or> (\<exists>now d e p. b' = snd (dispatch_packet P now d e p b)) \<or> (\<exists>name out. b' = snd (register_bridge (bridge_client name) out b))"
proof (erule stepE)
  fix now d e p assume "b' = snd (handle_packet P now d e p b)"
  then have "kept P now b b' \<or> b' = snd (dispatch_packet P now d e p b)"
    by (auto simp: handle_packet_def split: option.split)
  then show ?thesis by blast
qed (simp only: snapshot_broker, blast intro: kept_steps)+

lemma step_custody:
  assumes inv: "broker_inv b" and "step P kdf b b'" and "\<not> is_bridge_id c"
    and "get_session c b = Some s" and "get_session c b' = Some s'"
  shows "\<exists>now k. custody_run P now (max_queued b) (ss_client_max_packet_size s') k (custody_of s')
    \<and> (k = custody_of s
       \<or> (\<exists>p. b' = snd (dispatch_packet P now c (ss_epoch s) p b) \<and> k = acknowledge P p (custody_of s))
       \<or> (\<exists>cn identity. b' = snd (handle_connect P kdf now cn channel_new identity b) \<and> found_by kdf b cn identity s k))"
proof -
  have same: ?thesis if "held P now (max_queued b) s s'" for now
    using that unfolding held_def by (intro exI [of _ now] exI [of _ "custody_of s"] conjI disjI1) simp_all
  from step_kept [OF assms(2)] consider (kept) now where "kept P now b b'"
    | (connect) now cn identity where "b' = snd (handle_connect P kdf now cn channel_new identity b)"
    | (packet) now d e p where "b' = snd (dispatch_packet P now d e p b)"
    | (register) name out where "b' = snd (register_bridge (bridge_client name) out b)" by blast
  then show ?thesis
  proof cases
    case (kept now)
    then show ?thesis by (rule same [OF kept_held [OF _ inv assms(4,5)]])
  next
    case (connect now cn identity)
    with connect_custody [OF inv channel_new_ok assms(4) assms(5) [unfolded connect]] show ?thesis by blast
  next
    case (packet now d e p)
    from dispatch_custody [OF inv assms(4) assms(5) [unfolded packet]] show ?thesis
    proof (elim disjE conjE)
      assume "d = c" "e = ss_epoch s" "acked P now (max_queued b) p s s'"
      with packet show ?thesis unfolding acked_def by blast
    qed (rule same)
  next
    case (register name out)
    with assms(3-5) have "s' = s" by (auto simp: register_bridge_def Let_def split: if_splits)
    then show ?thesis by (intro same [of 0]) simp
  qed
qed

text \<open>
  C16. Messages in custody. In every reachable state, whatever step is taken, by whomever, the packets in flight and the
  queue of a client's session change only as the abstract machine allows: a message is sent under a
  free identifier or queued, the head of the queue is sent, or leaves it because it has expired, exceeds the
  client's maximum packet size or makes room in a full queue. In particular nothing in flight is lost or altered.
  There are two exceptions. A packet on the connection that is bound to the session first releases
  what it acknowledges: PUBACK and PUBCOMP their identifier, PUBREC its packet, in exchange for a PUBREL to be completed
  unless it reports an error. And a CONNECT with a clean start or by another identity finds nothing in custody.
\<close>

theorem messages_in_custody:
  assumes "reachable P kdf m b" and "step P kdf b b'" and "\<not> is_bridge_id c"
    and "get_session c b = Some s" and "get_session c b' = Some s'"
  shows "\<exists>now k. custody_run P now (max_queued b) (ss_client_max_packet_size s') k (custody_of s')
    \<and> (k = custody_of s
       \<or> (\<exists>p. b' = snd (dispatch_packet P now c (ss_epoch s) p b) \<and> k = acknowledge P p (custody_of s))
       \<or> (\<exists>cn identity. b' = snd (handle_connect P kdf now cn channel_new identity b) \<and> found_by kdf b cn identity s k))"
  using inv.reachable_I [OF assms(1)] assms(2-5) by (rule step_custody)

theorem messages_in_custody_witness:
  "\<exists>s s' now k. get_session ''c'' demo_connected = Some s
     \<and> get_session ''c'' (inject_publish plain_protocol 0 (bridge_client ''x'') (sys_message ''a'' ''b'') demo_connected) = Some s'
     \<and> custody_run plain_protocol now (max_queued demo_connected) (ss_client_max_packet_size s') k (custody_of s')"
proof -
  let ?b = "inject_publish plain_protocol 0 (bridge_client ''x'') (sys_message ''a'' ''b'') demo_connected"
  obtain s where s: "get_session ''c'' demo_connected = Some s" using demo_connected_get by blast
  have "map_option ss_epoch (get_session ''c'' ?b) = map_option ss_epoch (get_session ''c'' demo_connected)"
    by (simp add: inject_publish_def route_epoch)
  with s obtain s' where s': "get_session ''c'' ?b = Some s'" by (cases "get_session ''c'' ?b") auto
  have "\<not> is_bridge_id ''c''" by (simp add: is_bridge_id_def starts_with_def)
  from messages_in_custody [OF demo_connected_reachable step_inject this s s'] s s' show ?thesis by blast
qed

lemma demo_connected_session:
  "\<exists>s. get_session ''c'' demo_connected = Some s \<and> ss_epoch s = 1 \<and> b_config demo_connected = config_default
     \<and> b_acl demo_connected = permit_all"
proof -
  have start: "get_session ''c'' demo_start = None" "b_auth demo_start = None" "b_next_epoch demo_start = 1"
      "b_config demo_start = config_default" "b_acl demo_start = permit_all"
    by (simp_all add: demo_start_def broker_new_def load_all_def db_empty_def)
  have eq: "demo_connected = snd (bind_connection plain_protocol 0 V5 demo_connect channel_new None ''c'' False demo_start)"
    by (simp add: demo_connected_def handle_connect_def authenticate_def start will_authorized_def demo_connect_def
        resolve_client_id_def reserved_id_def starts_with_def case_prod_beta)
  show ?thesis unfolding eq bind_connection_sessions by (simp add: resumed_fields start)
qed

subsection \<open>Messages over a run\<close>

text \<open>A property that every step keeps unless it is of a certain kind: it holds after a run, or the run has a step of that
  kind.\<close>

locale unless =
  fixes P :: protocol and kdf :: pbkdf2_verify and Q :: "broker \<Rightarrow> bool" and R :: "broker \<Rightarrow> broker \<Rightarrow> bool"
  assumes unless_step: "reachable P kdf n x \<Longrightarrow> step P kdf x x' \<Longrightarrow> Q x \<Longrightarrow> Q x' \<or> R x x'"
begin

lemma along:
  assumes "runs P kdf k b b'" and "reachable P kdf m b" and "Q b"
  shows "Q b' \<or> (\<exists>i j x x'. runs P kdf i b x \<and> step P kdf x x' \<and> R x x' \<and> runs P kdf j x' b')"
  using assms
proof (induction rule: runs.induct)
  case (runs_step k b b' b'')
  from runs_step.IH [OF runs_step.prems] show ?case
  proof (elim disjE exE conjE)
    assume "Q b'"
    with unless_step [OF reachable_runs [OF runs_step.hyps(1) runs_step.prems(1)] runs_step.hyps(2)] runs_step.hyps
    show ?thesis by (blast intro: runs_refl)
  next
    fix i j x x'
    assume "runs P kdf i b x" "step P kdf x x'" "R x x'" "runs P kdf j x' b'"
    with runs.runs_step [OF _ runs_step.hyps(2)] show ?thesis by blast
  qed
qed simp

end

text \<open>Of any property of the custody that the machine keeps: a step keeps it too, or it removes the session, is an
  acknowledgement, or a CONNECT that finds the property gone.\<close>

lemma step_keeps_custody:
  assumes "reachable P kdf m b" and "step P kdf b b'" and "\<not> is_bridge_id c" and "get_session c b = Some s" and "F (custody_of s)"
    and kept: "\<And>now n cap k k'. custody_run P now n cap k k' \<Longrightarrow> F k \<Longrightarrow> F k'"
  obtains (keeps) s' where "get_session c b' = Some s'" and "F (custody_of s')"
  | (ends) "get_session c b' = None"
  | (ack) now p where "b' = snd (dispatch_packet P now c (ss_epoch s) p b)" and "\<not> F (acknowledge P p (custody_of s))"
  | (connect) now cn identity k where "b' = snd (handle_connect P kdf now cn channel_new identity b)"
      and "found_by kdf b cn identity s k" and "\<not> F k"
proof (cases "get_session c b'")
  case (Some s')
  from step_custody [OF inv.reachable_I [OF assms(1)] assms(2-4) Some] obtain now k where
    run: "custody_run P now (max_queued b) (ss_client_max_packet_size s') k (custody_of s')"
    and k: "k = custody_of s \<or> (\<exists>p. b' = snd (dispatch_packet P now c (ss_epoch s) p b) \<and> k = acknowledge P p (custody_of s))
       \<or> (\<exists>cn identity. b' = snd (handle_connect P kdf now cn channel_new identity b) \<and> found_by kdf b cn identity s k)"
    by blast
  show thesis
  proof (cases "F k")
    case True
    from keeps [OF Some kept [OF run this]] show thesis .
  next
    case False
    with k assms(5) ack connect show thesis by blast
  qed
qed (rule ends)

text \<open>Outbound: what releases a packet that awaits its PUBACK.\<close>

definition awaits :: "string \<Rightarrow> u16 \<Rightarrow> publish \<Rightarrow> broker \<Rightarrow> bool" where
  "awaits c i p b \<longleftrightarrow> \<not> is_bridge_id c \<and> (\<exists>s. get_session c b = Some s \<and> hm_get i (ss_awaiting_puback s) = Some p)"

definition releases :: "protocol \<Rightarrow> pbkdf2_verify \<Rightarrow> string \<Rightarrow> u16 \<Rightarrow> broker \<Rightarrow> broker \<Rightarrow> bool" where
  "releases P kdf c i b b' \<longleftrightarrow> get_session c b' = None
     \<or> (\<exists>s. get_session c b = Some s
          \<and> ((\<exists>now a. b' = snd (dispatch_packet P now c (ss_epoch s) (Puback a) b) \<and> ack_packet_id a = i)
             \<or> (\<exists>now cn identity. b' = snd (handle_connect P kdf now cn channel_new identity b)
                  \<and> (cn_clean_start cn \<or> other_identity kdf b cn identity s))))"

lemma acknowledge_puback:
  "cu_puback k i = Some p \<Longrightarrow> cu_puback (acknowledge P q k) i \<noteq> Some p \<Longrightarrow> \<exists>a. q = Puback a \<and> ack_packet_id a = i"
  by (auto simp: acknowledge_def split: packet.splits if_splits)

interpretation at_least_once: unless P kdf "awaits c i p" "releases P kdf c i" for P kdf c i p
proof unfold_locales
  fix n b b' assume reach: "reachable P kdf n b" and st: "step P kdf b b'" and "awaits c i p b"
  then obtain s where c: "\<not> is_bridge_id c" and s: "get_session c b = Some s" and p: "cu_puback (custody_of s) i = Some p"
    by (auto simp: awaits_def custody_of_def)
  show "awaits c i p b' \<or> releases P kdf c i b b'"
  proof (rule step_keeps_custody [OF reach st c s, of "\<lambda>k. cu_puback k i = Some p"])
    fix now q
    assume "b' = snd (dispatch_packet P now c (ss_epoch s) q b)" "cu_puback (acknowledge P q (custody_of s)) i \<noteq> Some p"
    with acknowledge_puback [OF p] s show ?thesis unfolding releases_def by blast
  qed (use p c s in \<open>auto simp: awaits_def custody_of_def releases_def found_by_def dest: custody_run_keeps(1) split: if_splits\<close>)
qed

lemma unacknowledged_kept:
  assumes "reachable P kdf m b" and "runs P kdf k b b'" and "awaits c i p b"
  shows "awaits c i p b' \<or> (\<exists>n j x x'. runs P kdf n b x \<and> step P kdf x x' \<and> releases P kdf c i x x' \<and> runs P kdf j x' b')"
  by (rule at_least_once.along [OF assms(2,1,3)])

text \<open>Inbound: what makes the session forget the identifier of a QoS 2 message it has received.\<close>

definition remembers :: "string \<Rightarrow> u16 \<Rightarrow> broker \<Rightarrow> bool" where
  "remembers c i b \<longleftrightarrow> \<not> is_bridge_id c \<and> (\<exists>s. get_session c b = Some s \<and> i \<in> set (ss_inbound_qos2 s))"

definition forgets :: "protocol \<Rightarrow> pbkdf2_verify \<Rightarrow> string \<Rightarrow> u16 \<Rightarrow> broker \<Rightarrow> broker \<Rightarrow> bool" where
  "forgets P kdf c i b b' \<longleftrightarrow> get_session c b' = None
     \<or> (\<exists>s. get_session c b = Some s
          \<and> ((\<exists>now a. b' = snd (dispatch_packet P now c (ss_epoch s) (Pubrel a) b) \<and> ack_packet_id a = i)
             \<or> (\<exists>now cn identity. b' = snd (handle_connect P kdf now cn channel_new identity b) \<and> cn_clean_start cn)))"

lemma acknowledge_inbound:
  "i \<in> cu_inbound k \<Longrightarrow> i \<notin> cu_inbound (acknowledge P q k) \<Longrightarrow> \<exists>a. q = Pubrel a \<and> ack_packet_id a = i"
  by (auto simp: acknowledge_def split: packet.splits if_splits)

interpretation exactly_once: unless P kdf "remembers c i" "forgets P kdf c i" for P kdf c i
proof unfold_locales
  fix n b b' assume reach: "reachable P kdf n b" and st: "step P kdf b b'" and "remembers c i b"
  then obtain s where c: "\<not> is_bridge_id c" and s: "get_session c b = Some s" and i: "i \<in> cu_inbound (custody_of s)"
    by (auto simp: remembers_def custody_of_def)
  show "remembers c i b' \<or> forgets P kdf c i b b'"
  proof (rule step_keeps_custody [OF reach st c s, of "\<lambda>k. i \<in> cu_inbound k"])
    fix now q
    assume "b' = snd (dispatch_packet P now c (ss_epoch s) q b)" "i \<notin> cu_inbound (acknowledge P q (custody_of s))"
    with acknowledge_inbound [OF i] s show ?thesis unfolding forgets_def by blast
  next
    fix now cn identity k
    assume "b' = snd (handle_connect P kdf now cn channel_new identity b)" "found_by kdf b cn identity s k" "i \<notin> cu_inbound k"
    moreover from this i have "cn_clean_start cn" by (auto simp: found_by_def wiped_def custody_of_def split: if_splits)
    ultimately show ?thesis using s unfolding forgets_def by blast
  qed (use i c s in \<open>auto simp: remembers_def custody_of_def forgets_def dest: custody_run_keeps(4)\<close>)
qed

text \<open>
  C15. Exactly once on receipt. An accepted QoS 2 PUBLISH puts its identifier into the session. From then on, over any run
  and whatever else happens (other clients, takeovers, reconnections, timers, reloads), a QoS 2 PUBLISH of that
  client with that identifier reaches no other session, unless the run contains a step that made the broker forget
  it: the PUBREL for it on the connection bound to the session, a CONNECT with a clean start, or the end of the session.
\<close>

theorem qos2_exactly_once:
  assumes "get_session c b0 = Some s" and "\<not> is_bridge_id c" and "pub_qos q = ExactlyOnce"
    and "b = snd (accept_publish P t c q b0)" and "reachable P kdf m b" and "runs P kdf k b b'"
    and "pub_qos p = ExactlyOnce" and "packet_id_or_0 p = packet_id_or_0 q"
  shows "others_same c b' (snd (handle_publish P now c e p b'))
    \<or> (\<exists>n j x x'. runs P kdf n b x \<and> step P kdf x x' \<and> forgets P kdf c (packet_id_or_0 q) x x' \<and> runs P kdf j x' b')"
proof -
  from accept_publish_inbound [OF assms(3,1), of P t] assms(2,4) have "remembers c (packet_id_or_0 q) b"
    by (auto simp: remembers_def)
  from exactly_once.along [OF assms(6,5) this] show ?thesis
  proof (elim disjE)
    assume "remembers c (packet_id_or_0 q) b'"
    with handle_publish_duplicate [OF assms(7)] assms(8) show ?thesis by (auto simp: remembers_def)
  qed blast
qed

theorem qos2_exactly_once_witness:
  "\<exists>m b. reachable plain_protocol demo_kdf m b
     \<and> (others_same ''c'' b (snd (handle_publish plain_protocol 9 ''c'' 1 demo_publish b))
        \<or> (\<exists>n j x x'. runs plain_protocol demo_kdf n b x \<and> step plain_protocol demo_kdf x x'
             \<and> forgets plain_protocol demo_kdf ''c'' (packet_id_or_0 demo_publish) x x' \<and> runs plain_protocol demo_kdf j x' b))"
proof -
  let ?b = "snd (handle_packet plain_protocol 0 ''c'' 1 (Publish demo_publish) demo_connected)"
  let ?counted = "demo_connected\<lparr>b_metrics := (b_metrics demo_connected)\<lparr>mx_publish_received := mx_publish_received (b_metrics demo_connected) + 1\<rparr>\<rparr>"
  obtain s where s: "get_session ''c'' demo_connected = Some s" "ss_epoch s = 1"
    and cfg: "b_config demo_connected = config_default" "b_acl demo_connected = permit_all"
    using demo_connected_session by blast
  have p: "pr_topic_alias (pub_properties demo_publish) = None" "pub_qos demo_publish = ExactlyOnce" "\<not> pub_retain demo_publish"
      "pub_topic demo_publish = ''t''" "\<not> starts_with ''t'' SYS_PREFIX"
    by (simp_all add: demo_publish_def no_properties_def starts_with_def SYS_PREFIX_def)
  have c: "cfg_maximum_qos config_default = ExactlyOnce" "\<not> acl_enforced permit_all"
    by (simp_all add: config_default_def permit_all_def)
  have eq: "?b = snd (accept_publish plain_protocol 0 ''c'' demo_publish ?counted)"
    by (simp add: handle_packet_def dispatch_packet_def handle_publish_def Let_def s cfg c p resolve_alias_def authorize_publish_def)
  have reach: "reachable plain_protocol demo_kdf 2 ?b"
    using reachable_step [OF demo_connected_reachable step_packet] by (simp add: numeral_2_eq_2)
  have g: "get_session ''c'' ?counted = Some s" "\<not> is_bridge_id ''c''"
    using s by (simp_all add: is_bridge_id_def starts_with_def)
  from qos2_exactly_once [OF g p(2) eq reach runs_refl p(2) refl, of 9 1] reach show ?thesis by blast
qed

end
