(* ===== verification/Spec2Isabelle.thy ===== *)
theory Spec2Isabelle
  imports Startup Admin Durable_Sessions Redaction Custody
begin

text \<open>
  \<^bold>\<open>WispMQ: a verified model of an MQTT broker\<close>

  WispMQ is a broker for MQTT 3.1.1 and 5.0 written in Rust (\<^verbatim>\<open>src/src\<close>). Clients connect over TCP, TLS or
  WebSockets; each connection is a task that reads packets, hands them to the broker, and writes what the
  broker puts on the task's bounded channel. The broker is one mutable state behind a lock: sessions, retained
  messages, cursors of shared groups, policy, counters. Around it are a writer thread for an SQLite database,
  timers for Wills and session expiry, bridges to other brokers, a publisher of status topics, an HTTP
  endpoint for metrics and inspection, and an exporter of telemetry. This library models these parts and
  proves what makes them correct. The packet codec, topic matching and the numeric codes are the crate
  \<^verbatim>\<open>wispmq-protocol\<close>, which is not part of the repository: it is the record \<open>protocol\<close>, an argument of
  everything that uses it, and assumed to be nothing more than some functions of those types.

  \<^bold>\<open>Theories and sources\<close>

  \<^item> \<open>Prelude\<close>: strings, digits, white space, hash maps with the interface \<open>map_iface\<close>, word arithmetic, and
    the collections of simplification rules the components share.
  \<^item> \<open>Protocol\<close>, \<open>Errors\<close>, \<open>Json\<close>: the data of the wire (\<^verbatim>\<open>wispmq-protocol\<close> as it is used), \<^verbatim>\<open>error.rs\<close> (errors,
    their conversions, reason codes and display), and JSON values as the TOML and JSON crates return them.
  \<^item> \<open>Message\<close> (\<^verbatim>\<open>message.rs\<close>): messages and their expiry. \<open>Metrics\<close> (\<^verbatim>\<open>metrics.rs\<close>, counters): the
    lock-free high-water mark is a step relation over the interleaved accesses of any number of tasks.
  \<^item> \<open>Session\<close> (\<^verbatim>\<open>broker/session.rs\<close>): the session record, packet identifiers, subscription list, the channel
    with its interface \<open>bounded_channel\<close>. \<open>Delivery\<close> (\<^verbatim>\<open>broker/routing.rs\<close>, per session): the QoS states of one
    delivery, the flush of the queue, the resumption of a session.
  \<^item> \<open>Acl\<close>, \<open>Auth\<close>, \<open>Rate_Limit\<close>, \<open>Storage\<close>: \<^verbatim>\<open>acl.rs\<close>, \<^verbatim>\<open>auth.rs\<close>, \<^verbatim>\<open>ratelimit.rs\<close>, \<^verbatim>\<open>storage.rs\<close>. The database is
    three tables with their keys; opening migrates a file of an older version, and the writer applies a log of
    commands.
  \<^item> \<open>Broker\<close> (\<^verbatim>\<open>broker/mod.rs\<close>): the shared state as the record \<open>broker\<close>, its construction from the database,
    its invariant \<open>broker_inv\<close>, and the interfaces \<open>session_op\<close> (what a change of one session must keep) and
    \<open>packet_handler\<close> (what every handler of client packets promises).
  \<^item> \<open>Routing\<close>, \<open>Publishing\<close>, \<open>Subscribing\<close>, \<open>Lifecycle\<close>, \<open>Connecting\<close>, \<open>Bridging\<close>, \<open>Authz\<close>, \<open>Dispatch\<close>, \<open>Stats\<close>: the
    handlers in the files of the same purpose under \<^verbatim>\<open>broker/\<close>, each a function from state to state. \<open>Policy\<close>:
    what each of them does to the access-control invariant \<open>acl_safe\<close>.
  \<^item> \<open>System\<close>: the broker as a transition system, with every lock section as a step, so that timers, late
    handlers, bridges and reloads interleave freely; \<open>step_invariant\<close> is the interface of an invariant.
  \<^item> \<open>Durability\<close>, \<open>Durable_Sessions\<close>: memory and database over any run of that system, for the retained messages
    and for the sessions with their subscriptions.
  \<^item> \<open>Custody\<close>: an abstract machine of what the broker owes a client (packets in flight and queue), refined by every
    step of \<open>System\<close>. \<open>custodian\<close> is its interface to the changes of one session, \<open>unless\<close> that of a fact which
    lasts over a run until named events end it: a packet in flight, a QoS 2 identifier received.
  \<^item> \<open>Server\<close> (\<^verbatim>\<open>server.rs\<close>): connection tasks with their phases, reads, writes and timeouts, interleaved with
    everything else; refines \<open>System\<close>. \<open>Bridge_Link\<close> (\<^verbatim>\<open>bridge.rs\<close>, runtime): the link to a remote broker.
  \<^item> \<open>Ws\<close>, \<open>Tls\<close>, \<open>Listeners\<close>: \<^verbatim>\<open>ws.rs\<close> with the interface \<open>byte_stream\<close>, \<^verbatim>\<open>tls.rs\<close>, and how listeners, upgraded
    sockets and bridge transports are put together from them (\<^verbatim>\<open>server.rs\<close>, \<^verbatim>\<open>admin.rs\<close>, \<^verbatim>\<open>bridge.rs\<close>).
  \<^item> \<open>Config\<close>, \<open>Bridge_Config\<close>, \<open>Net_Addr\<close>, \<open>Config_Layers\<close>, \<open>Config_File\<close>, \<open>Command_Line\<close>: \<^verbatim>\<open>config.rs\<close>, \<^verbatim>\<open>cli.rs\<close> and the first half
    of \<^verbatim>\<open>bridge.rs\<close>: defaults, file, environment and command line, with the textual forms of addresses.
    \<open>Redaction\<close>: what the \<^verbatim>\<open>Debug\<close> instances of the configuration, secrets, headers and bridges print.
  \<^item> \<open>Exposition\<close> (\<^verbatim>\<open>metrics.rs\<close> renderings, \<^verbatim>\<open>sysinfo.rs\<close>), \<open>Admin\<close> (\<^verbatim>\<open>admin.rs\<close>), \<open>Telemetry\<close> (\<^verbatim>\<open>otel.rs\<close>).
  \<^item> \<open>Startup\<close> (\<^verbatim>\<open>main.rs\<close>): from the arguments to the running services and their shutdown. The loop behind
    SIGHUP is in \<open>Policy\<close>.

  \<^bold>\<open>How the code is represented\<close>

  A struct is a record, an enum a datatype, an integer of the source a word of its width; a \<^verbatim>\<open>HashMap\<close> is an
  association list with distinct keys, of which only lookups are used. Failures are values: every early
  return and every error is a branch. Time is an argument of each operation that reads a clock, so that all
  theorems hold for any clock. A channel is a bounded list; sending to a full or closed one fails as
  \<^verbatim>\<open>try_send\<close> does. A spawned timer is an element of \<open>b_tasks\<close> that runs at some later step. What the peers, the
  sockets, the file system, the parsers of TOML and JSON, PBKDF2, rustls, the WebSocket library and the
  OpenTelemetry SDK answer are arguments or fields of a record, with no assumption but those a theorem
  states.

  \<^bold>\<open>What is shown\<close>

  \<^item> Over all runs: the state invariant (C1), no online session holds a subscription the policy in force
    forbids (C2), a superseded connection never acts again (C4), retained messages and durable sessions
    survive a restart (C11, C8), when and why a session ends (C23),
    the server with all its tasks refines the transition system (C28) and serves every online session (C29).
  \<^item> The process fails closed (C3), and configured TLS is what runs (C21).
  \<^item> Connecting: outcomes (C5), takeover by another identity (C20), authentication (C26), one Will at most (C22).
  \<^item> Delivery: one fate per message (C6), order and completeness of a flush (C7), packet identifiers (C9), messages
    in custody over any run (C16), exactly once on receipt (C15), routing refines a declarative specification (C10), shared groups (C12, C13).
  \<^item> Authority: publications (C14), subscriptions (C18), policy documents (C37), the policy in force is the last one that could be loaded (C27), the admin token (C17).
  \<^item> Storage and the types of its rows (C34, C40), credentials (C36), configuration (C39) and its redacted printing
    (C19), expiry (C38), rate limit (C35), metrics (C24).
  \<^item> Transports and links: requests and byte streams (C30, C25), bridges (C32, C33), and a defect in the task's
    write path (C31).

  \<^bold>\<open>Bounds and fuel\<close>

  No theorem depends on fuel: loops are structural, or recursive with a measure, and the two loops of the
  source whose end is not obvious are proved to end: the search for a packet identifier within 65535
  attempts, and the flush of a queue within its Receive Maximum. Epochs are 64-bit; theorems that need a fresh epoch assume
  fewer than \<open>2^64\<close> steps.

  \<^bold>\<open>Not modelled\<close>

  Splitting the arguments into flags and values is the crate clap; the flags, their arities and their value
  parsers are modelled. Log output is not, nor the help texts; tests and examples are not part of the program. Locks are not poisoned, since no handler
  panics under one. Of the SQLite, TLS, WebSocket and OpenTelemetry libraries there is only what their callers
  see. What the operating system delivers (signals, sockets, clocks) is an argument.
\<close>

end
